(* ===== verification/Headers.thy ===== *)
theory Headers
  imports Shim_Prelude
begin

text \<open>
  \<^verbatim>\<open>src/data/headers.rs\<close>: HTTP headers as the ordered list of their (name, value) pairs,
  duplicates kept, and \<^verbatim>\<open>src/data/grpc.rs\<close>.  The locale \<open>header_multimap\<close> is what the
  clients of \<^verbatim>\<open>Headers\<close> rely on: a multimap from names to value lists.
\<close>

type_synonym headers = "(string \<times> string) list"

definition headers_new :: headers where
  "headers_new = []"

definition headers_append :: "string \<Rightarrow> string \<Rightarrow> headers \<Rightarrow> headers" where
  "headers_append key val h = h @ [(key, val)]"

definition headers_remove :: "string \<Rightarrow> headers \<Rightarrow> headers" where
  "headers_remove key h = filter (\<lambda>(k, _). k \<noteq> key) h"

definition headers_set :: "string \<Rightarrow> string \<Rightarrow> headers \<Rightarrow> headers" where
  "headers_set key val h = filter (\<lambda>(k, _). k \<noteq> key) h @ [(key, val)]"

definition headers_get_all :: "headers \<Rightarrow> string \<Rightarrow> string list" where
  "headers_get_all h key = map snd (filter (\<lambda>(k, _). k = key) h)"

definition headers_get :: "headers \<Rightarrow> string \<Rightarrow> string option" where
  "headers_get h key = map_option snd (find (\<lambda>(k, _). k = key) h)"

definition headers_extend :: "headers \<Rightarrow> headers \<Rightarrow> headers" where
  "headers_extend other h = h @ other"

text \<open>\<^verbatim>\<open>impl From<Headers> for HashMap<String, String>\<close>: values of one name joined by commas.\<close>

fun headers_into_map :: "headers \<Rightarrow> (string \<times> string) list \<Rightarrow> (string \<times> string) list" where
  "headers_into_map [] m = m"
| "headers_into_map ((key, val) # h) m =
     headers_into_map h
       (case map_of m key of
          Some existing \<Rightarrow> AList.update key (existing @ '','' @ val) m
        | None \<Rightarrow> AList.update key val m)"

definition headers_to_hash_map :: "headers \<Rightarrow> (string \<times> string) list" where
  "headers_to_hash_map h = headers_into_map h []"

section \<open>gRPC paths\<close>

definition is_grpc_content_type :: "string \<Rightarrow> bool" where
  "is_grpc_content_type content_type = prefix ''application/grpc'' content_type"

definition parse_grpc_path :: "string \<Rightarrow> (string \<times> string) option" where
  "parse_grpc_path path =
     (case path of
        [] \<Rightarrow> None
      | c # trimmed \<Rightarrow>
          if c \<noteq> CHR ''/'' then None
          else (case split_once (CHR ''/'') trimmed of
                  None \<Rightarrow> None
                | Some (service, method) \<Rightarrow>
                    if service = [] \<or> method = [] \<or> CHR ''/'' \<in> set method then None
                    else Some (service, method)))"

section \<open>The multimap interface\<close>

locale header_multimap =
  fixes get_all :: "'h \<Rightarrow> 'k \<Rightarrow> 'v list"
    and append :: "'k \<Rightarrow> 'v \<Rightarrow> 'h \<Rightarrow> 'h"
    and set :: "'k \<Rightarrow> 'v \<Rightarrow> 'h \<Rightarrow> 'h"
    and remove :: "'k \<Rightarrow> 'h \<Rightarrow> 'h"
  assumes get_all_append: "get_all (append k v h) = (get_all h)(k := get_all h k @ [v])"
    and get_all_set: "get_all (set k v h) = (get_all h)(k := [v])"
    and get_all_remove: "get_all (remove k h) = (get_all h)(k := [])"
begin

text \<open>A sequence of sets leaves each named header with its last value, the others alone.\<close>

lemma get_all_fold_set:
  "get_all (fold (\<lambda>(k, v). set k v) kvs h) k' =
     (case map_of (rev kvs) k' of Some v \<Rightarrow> [v] | None \<Rightarrow> get_all h k')"
  by (induction kvs arbitrary: h)
     (auto simp: get_all_set map_add_Some_iff split: option.splits)

lemma get_all_fold_remove:
  "get_all (fold remove ks h) k' = (if k' \<in> List.set ks then [] else get_all h k')"
  by (induction ks arbitrary: h) (auto simp: get_all_remove)

lemma set_set: "get_all (set k v (set k w h)) = get_all (set k v h)"
  by (simp add: get_all_set)

end

lemma headers_get_all_append:
  "headers_get_all (headers_append k v h) = (headers_get_all h)(k := headers_get_all h k @ [v])"
  by (auto simp: headers_get_all_def headers_append_def fun_eq_iff)

lemma filter_filter_key:
  "filter (\<lambda>(k, _). k = k') (filter (\<lambda>(k, _). k \<noteq> key) h) =
     (if k' = key then [] else filter (\<lambda>(k, _). k = k') h)"
  by (induction h) auto

lemma headers_get_all_set:
  "headers_get_all (headers_set k v h) = (headers_get_all h)(k := [v])"
  by (auto simp: headers_get_all_def headers_set_def fun_eq_iff filter_filter_key simp del: filter_filter)

lemma headers_get_all_remove:
  "headers_get_all (headers_remove k h) = (headers_get_all h)(k := [])"
  by (auto simp: headers_get_all_def headers_remove_def fun_eq_iff filter_filter_key simp del: filter_filter)

interpretation hdr: header_multimap headers_get_all headers_append headers_set headers_remove
  by unfold_locales
    (rule headers_get_all_append, rule headers_get_all_set, rule headers_get_all_remove)

lemma headers_get_all_extend:
  "headers_get_all (headers_extend other h) k = headers_get_all h k @ headers_get_all other k"
  by (simp add: headers_get_all_def headers_extend_def)

lemma headers_get_eq: "headers_get h k = (case headers_get_all h k of [] \<Rightarrow> None | v # _ \<Rightarrow> Some v)"
  by (induction h) (auto simp: headers_get_def headers_get_all_def)

lemma headers_into_map_spec:
  "distinct (map fst m) \<Longrightarrow>
     map_of (headers_into_map h m) k =
       (case map_of m k of
          Some v \<Rightarrow> Some (join '','' (v # headers_get_all h k))
        | None \<Rightarrow> (if headers_get_all h k = [] then None
                   else Some (join '','' (headers_get_all h k))))"
proof (induction h m rule: headers_into_map.induct)
  case (2 key val h m)
  have step: "distinct (map fst (AList.update key x m))" for x
    using "2.prems" by (rule distinct_update)
  show ?case
  proof (cases "map_of m key")
    case None
    with "2.IH" step show ?thesis
      by (auto simp: update_conv' headers_get_all_def split: option.splits)
  next
    case (Some existing)
    with "2.IH" step show ?thesis
      by (auto simp: update_conv' headers_get_all_def join_Cons split: option.splits list.splits)
  qed
qed (simp add: headers_get_all_def split: option.splits)

section \<open>Properties\<close>

text \<open>After \<^verbatim>\<open>set\<close> a header has exactly the new value and no other header changed; after
  \<^verbatim>\<open>remove\<close> it has none; \<^verbatim>\<open>get\<close> is the first of \<^verbatim>\<open>get_all\<close>.\<close>

theorem headers_set_remove_get:
  "headers_get_all (headers_set k v h) k' = (if k' = k then [v] else headers_get_all h k')
   \<and> headers_get_all (headers_remove k h) k' = (if k' = k then [] else headers_get_all h k')
   \<and> headers_get (headers_set k v h) k = Some v
   \<and> headers_get (headers_remove k h) k = None"
  by (simp add: hdr.get_all_set hdr.get_all_remove headers_get_eq)

text \<open>The map that the CEL \<^verbatim>\<open>request.headers\<close> variable is built from holds, for every
  header name present, all its values in order joined by commas, and nothing else.\<close>

theorem headers_to_hash_map_joins:
  "map_of (headers_to_hash_map h) k =
     (if headers_get_all h k = [] then None else Some (join '','' (headers_get_all h k)))"
  by (simp add: headers_to_hash_map_def headers_into_map_spec)

text \<open>\<^verbatim>\<open>parse_grpc_path\<close> accepts exactly the paths \<^verbatim>\<open>/Service/Method\<close> with two non-empty
  segments, and returns them.\<close>

theorem parse_grpc_path_iff:
  "parse_grpc_path path = Some (service, method) \<longleftrightarrow>
     path = ''/'' @ service @ ''/'' @ method \<and> service \<noteq> [] \<and> method \<noteq> []
     \<and> CHR ''/'' \<notin> set service \<and> CHR ''/'' \<notin> set method"
proof (cases path)
  case (Cons c trimmed)
  show ?thesis
  proof (cases "split_once (CHR ''/'') trimmed")
    case None
    then have "CHR ''/'' \<notin> set trimmed" by (simp add: split_once_None)
    with None Cons show ?thesis by (auto simp: parse_grpc_path_def)
  next
    case (Some p)
    obtain a b where p: "p = (a, b)" by force
    with Some have t: "trimmed = a @ CHR ''/'' # b" and a: "CHR ''/'' \<notin> set a"
      by (simp_all add: split_once_Some)
    have "trimmed = service @ CHR ''/'' # method \<and> CHR ''/'' \<notin> set service
            \<longleftrightarrow> service = a \<and> method = b"
      using Some p split_once_Some [of "CHR ''/''" trimmed service "method"] by auto
    with Some p Cons a show ?thesis by (auto simp: parse_grpc_path_def)
  qed
qed (simp add: parse_grpc_path_def)

end
