(* ===== verification/Attribute.thy ===== *)
theory Attribute
  imports Headers
begin

text \<open>
  \<^verbatim>\<open>src/data/attribute.rs\<close>: the two-valued \<^verbatim>\<open>AttributeState\<close> (not yet there, or there), the
  errors of the attribute layer, the decoders of the host's byte encodings
  (\<^verbatim>\<open>impl AttributeValue\<close>) and \<^verbatim>\<open>Path\<close>, with \<^verbatim>\<open>CachedValue\<close> of \<^verbatim>\<open>src/kuadrant/cache.rs\<close>.
  Error payloads keep the literal text of the source; what a library renders into them
  (\<^verbatim>\<open>{err}\<close>) is left out.
\<close>

datatype 'a attribute_state = Pending | Available 'a

fun attribute_state_map :: "('a \<Rightarrow> 'b) \<Rightarrow> 'a attribute_state \<Rightarrow> 'b attribute_state" where
  "attribute_state_map f Pending = Pending"
| "attribute_state_map f (Available val) = Available (f val)"

datatype attribute_error =
    NotAvailable string
  | Retrieval string
  | Parse string
  | Set_err string

datatype cached_value =
    Cached_Bytes "bytes option"
  | Cached_Headers headers

section \<open>Decoding the host's values\<close>

text \<open>\<^verbatim>\<open>AttributeValue::from_cached\<close>, the default method, for a type with parser \<open>p\<close>.\<close>

definition from_cached ::
  "(bytes \<Rightarrow> ('a, attribute_error) result) \<Rightarrow> cached_value \<Rightarrow> ('a option, attribute_error) result"
where
  "from_cached p cached =
     (case cached of
        Cached_Bytes (Some bs) \<Rightarrow> (case p bs of Ok v \<Rightarrow> Ok (Some v) | Err e \<Rightarrow> Err e)
      | Cached_Bytes None \<Rightarrow> Ok None
      | Cached_Headers _ \<Rightarrow> Err (Parse ''Expected bytes, found headers''))"

definition headers_from_cached :: "cached_value \<Rightarrow> (headers option, attribute_error) result" where
  "headers_from_cached cached =
     (case cached of
        Cached_Headers h \<Rightarrow> Ok (Some h)
      | Cached_Bytes _ \<Rightarrow> Err (Parse ''Expected headers, found bytes''))"

definition parse_string :: "bytes \<Rightarrow> (string, attribute_error) result" where
  "parse_string raw =
     (if utf8_valid raw then Ok raw
      else Err (Parse ''parse: failed to parse selector String value''))"

text \<open>\<^verbatim>\<open>u64::from_le_bytes\<close> (and \<^verbatim>\<open>i64\<close>, \<^verbatim>\<open>f64\<close>: the same 64 bits).\<close>

definition from_le_bytes :: "bytes \<Rightarrow> u64" where
  "from_le_bytes bs = word_of_nat (horner_sum of_char 256 bs)"

definition to_le_bytes :: "u64 \<Rightarrow> bytes" where
  "to_le_bytes w = map (\<lambda>i. char_of (unat w div 256 ^ i)) [0..<8]"

definition parse_i64 :: "bytes \<Rightarrow> (u64, attribute_error) result" where
  "parse_i64 raw =
     (if length raw = 8 then Ok (from_le_bytes raw)
      else Err (Parse ''parse: Int value expected to be 8 bytes''))"

definition parse_u64 :: "bytes \<Rightarrow> (u64, attribute_error) result" where
  "parse_u64 raw =
     (if length raw = 8 then Ok (from_le_bytes raw)
      else Err (Parse ''parse: UInt value expected to be 8 bytes''))"

definition parse_f64 :: "bytes \<Rightarrow> (u64, attribute_error) result" where
  "parse_f64 raw =
     (if length raw = 8 then Ok (from_le_bytes raw)
      else Err (Parse ''parse: Float value expected to be 8 bytes''))"

definition parse_bytes :: "bytes \<Rightarrow> (bytes, attribute_error) result" where
  "parse_bytes raw = Ok raw"

definition parse_bool :: "bytes \<Rightarrow> (bool, attribute_error) result" where
  "parse_bool raw =
     (case raw of
        [b] \<Rightarrow> Ok (odd (of_char b :: nat))
      | _ \<Rightarrow> Err (Parse ''parse: Bool value expected to be 1 byte''))"

text \<open>A timestamp is the count of nanoseconds since the epoch, signed.\<close>

definition parse_timestamp :: "bytes \<Rightarrow> (int, attribute_error) result" where
  "parse_timestamp raw =
     (if length raw = 8 then Ok (sint (from_le_bytes raw))
      else Err (Parse ''parse: Timestamp expected to be 8 bytes''))"

section \<open>Paths\<close>

datatype path = Path (tokens: "string list")

abbreviation dot :: char where "dot \<equiv> CHR ''.''"
abbreviation backslash :: char where "backslash \<equiv> CHR 0x5C"

text \<open>\<^verbatim>\<open>impl Display for Path\<close>: dots inside a token are escaped, backslashes are not.\<close>

definition path_display :: "path \<Rightarrow> string" where
  "path_display p = join ''.'' (map (replace_char dot [backslash, dot]) (tokens p))"

text \<open>The loop of \<^verbatim>\<open>impl From<&str> for Path\<close>: the remaining characters, the token being
  read, the tokens read.\<close>

fun path_from_loop :: "string \<Rightarrow> string \<Rightarrow> string list \<Rightarrow> string list" where
  "path_from_loop [] token toks = toks @ [token]"
| "path_from_loop (ch # chars) token toks =
     (if ch = dot then path_from_loop chars [] (toks @ [token])
      else if ch = backslash then
        (case chars of
           [] \<Rightarrow> path_from_loop [] token toks
         | nxt # rest \<Rightarrow> path_from_loop rest (token @ [nxt]) toks)
      else path_from_loop chars (token @ [ch]) toks)"

definition path_from :: "string \<Rightarrow> path" where
  "path_from val = Path (path_from_loop val [] [])"

definition wasm_prop :: "string list \<Rightarrow> path" where
  "wasm_prop toks =
     path_from (''filter_state.wasm'' @ [backslash] @ ''.kuadrant'' @ [backslash] @ ''.''
                @ join [backslash, dot] toks)"

section \<open>Facts on paths\<close>

lemma path_from_loop_escaped:
  assumes "backslash \<notin> set t"
  shows "path_from_loop (replace_char dot [backslash, dot] t @ rest) token toks =
         path_from_loop rest (token @ t) toks"
  using assms by (induction t arbitrary: token) auto

lemma path_from_loop_plain:
  assumes "backslash \<notin> set t" and "dot \<notin> set t"
  shows "path_from_loop (t @ rest) token toks = path_from_loop rest (token @ t) toks"
  using assms by (induction t arbitrary: token) auto

lemma path_from_loop_display:
  assumes "ts \<noteq> []" and "\<forall>t \<in> set ts. backslash \<notin> set t"
  shows "path_from_loop (join ''.'' (map (replace_char dot [backslash, dot]) ts)) [] toks = toks @ ts"
  using assms
proof (induction ts arbitrary: toks)
  case (Cons t ts)
  show ?case
  proof (cases ts)
    case Nil
    then show ?thesis
      using Cons.prems path_from_loop_escaped [of t "[]" "[]" toks] by simp
  next
    case (Cons u us)
    with Cons.prems Cons.IH [of "toks @ [t]"] show ?thesis
      by (simp add: join_Cons path_from_loop_escaped)
  qed
qed simp

lemma path_from_loop_join_escaped_dot:
  assumes "\<forall>t \<in> set ts. backslash \<notin> set t \<and> dot \<notin> set t"
  shows "path_from_loop (join [backslash, dot] ts) token toks = toks @ [token @ join ''.'' ts]"
  using assms
proof (induction ts arbitrary: token)
  case (Cons t ts)
  show ?case
  proof (cases ts)
    case Nil
    with Cons.prems path_from_loop_plain [of t "[]" token toks] show ?thesis by simp
  next
    case (Cons u us)
    with Cons.prems Cons.IH [of "token @ t @ [dot]"] show ?thesis
      by (simp add: join_Cons path_from_loop_plain)
  qed
qed simp

lemma path_display_inj:
  assumes "tokens p \<noteq> []" and "tokens q \<noteq> []"
    and "\<forall>t \<in> set (tokens p) \<union> set (tokens q). backslash \<notin> set t"
    and "path_display p = path_display q"
  shows "p = q"
proof -
  have "path_from (path_display p) = p" "path_from (path_display q) = q"
    using assms(1-3) by (cases p; cases q; simp add: path_from_def path_display_def path_from_loop_display)+
  with assms(4) show ?thesis by metis
qed

lemma horner_sum_char_of_div:
  "horner_sum of_char 256 (map (\<lambda>i. char_of (n div 256 ^ i)) [0..<k]) = n mod 256 ^ k"
  for n :: nat
proof (induction k)
  case (Suc k)
  have "n mod 256 ^ Suc k = n mod 256 ^ k + 256 ^ k * (n div 256 ^ k mod 256)"
    by (metis mod_mult2_eq add.commute mult.commute power_Suc2)
  with Suc show ?case by (simp add: horner_sum_append)
qed simp

lemma from_to_le_bytes: "from_le_bytes (to_le_bytes w) = w"
proof -
  have "unat w < 2 ^ 64" using unsigned_less [of w] by simp
  then have "unat w mod 256 ^ 8 = unat w" by simp
  then show ?thesis
    unfolding from_le_bytes_def to_le_bytes_def horner_sum_char_of_div by simp
qed

lemma length_to_le_bytes [simp]: "length (to_le_bytes w) = 8"
  by (simp add: to_le_bytes_def)

section \<open>Properties\<close>

text \<open>C38: printing a path and reading it back gives the path again, for every non-empty path
  whose tokens hold no backslash; so the cache, whose keys are printed paths, never confuses
  two such paths.\<close>

theorem path_from_display:
  assumes "tokens p \<noteq> []" and "\<forall>t \<in> set (tokens p). backslash \<notin> set t"
  shows "path_from (path_display p) = p"
  using assms by (cases p) (simp add: path_from_def path_display_def path_from_loop_display)

theorem path_from_display_witness:
  "path_from (path_display (Path [''filter_state'', ''wasm.kuadrant.auth'']))
     = Path [''filter_state'', ''wasm.kuadrant.auth'']"
  by (rule path_from_display) simp_all

text \<open>The printer does not escape backslashes, so two different paths can print alike
  and share a cache entry.\<close>

theorem path_display_collision:
  "\<exists>p q. p \<noteq> q \<and> path_display p = path_display q \<and> path_from (path_display p) \<noteq> p"
proof (intro exI conjI)
  let ?p = "Path [''a'' @ [backslash], ''b'']" and ?q = "Path [''a.b'']"
  show "?p \<noteq> ?q" by simp
  show "path_display ?p = path_display ?q" by (simp add: path_display_def)
  show "path_from (path_display ?p) \<noteq> ?p" by (simp add: path_display_def path_from_def)
qed

text \<open>\<^verbatim>\<open>wasm_prop\<close> builds the two-token host path of a stored attribute: the filter state
  key is the dotted attribute path under the \<^verbatim>\<open>wasm.kuadrant\<close> namespace.\<close>

theorem wasm_prop_tokens:
  assumes "\<forall>t \<in> set ts. backslash \<notin> set t \<and> dot \<notin> set t"
  shows "wasm_prop ts = Path [''filter_state'', ''wasm.kuadrant.'' @ join ''.'' ts]"
  using path_from_loop_join_escaped_dot [OF assms, of "''wasm.kuadrant.''" "[''filter_state'']"]
  by (simp add: wasm_prop_def path_from_def)

theorem wasm_prop_tokens_witness:
  "wasm_prop [''auth'', ''identity''] = Path [''filter_state'', ''wasm.kuadrant.auth.identity'']"
  using wasm_prop_tokens [of "[''auth'', ''identity'']"] by simp

text \<open>The integer decoders read back every 64-bit value the host encodes in eight
  little-endian bytes, and refuse every other length.\<close>

theorem parse_ints_roundtrip:
  "parse_u64 (to_le_bytes w) = Ok w \<and> parse_i64 (to_le_bytes w) = Ok w
   \<and> parse_timestamp (to_le_bytes w) = Ok (sint w)
   \<and> (is_ok (parse_i64 raw) \<longleftrightarrow> length raw = 8) \<and> (is_ok (parse_u64 raw) \<longleftrightarrow> length raw = 8)
   \<and> (is_ok (parse_timestamp raw) \<longleftrightarrow> length raw = 8)"
  by (simp add: parse_u64_def parse_i64_def parse_timestamp_def from_to_le_bytes)

end
