(* ===== verification/Cache.thy ===== *)
theory Cache
  imports Attribute
begin

text \<open>
  \<^verbatim>\<open>src/kuadrant/cache.rs\<close>: the attribute cache of one request.  The radix trie is a map from
  printed paths; the mutex is the flag \<open>poisoned\<close>, on which \<^verbatim>\<open>lock\<close> fails.  The closure that
  fetches a value only reads the host, so it is its result.  The locale \<open>read_through\<close> is what
  readers rely on: a value, once there, is there for the rest of the request.
\<close>

record attribute_cache =
  inner :: "(string \<times> cached_value) list"
  poisoned :: bool

definition attribute_cache_new :: attribute_cache where
  "attribute_cache_new = \<lparr>inner = [], poisoned = False\<rparr>"

definition poison_error :: attribute_error where
  "poison_error = Retrieval ''cache mutex poisoned''"

definition cache_get :: "attribute_cache \<Rightarrow> path \<Rightarrow> (cached_value option, attribute_error) result" where
  "cache_get c p = (if poisoned c then Err poison_error else Ok (map_of (inner c) (path_display p)))"

definition cache_insert ::
  "path \<Rightarrow> cached_value \<Rightarrow> attribute_cache \<Rightarrow> (unit, attribute_error) result \<times> attribute_cache"
where
  "cache_insert p val c =
     (if poisoned c then (Err poison_error, c)
      else (Ok (), c\<lparr>inner := AList.update (path_display p) val (inner c)\<rparr>))"

text \<open>\<^verbatim>\<open>Ok(AttributeState::Available(T::from_cached(&cached)?))\<close>\<close>

definition available_as ::
  "(cached_value \<Rightarrow> ('a option, attribute_error) result) \<Rightarrow> cached_value
     \<Rightarrow> ('a option attribute_state, attribute_error) result"
where
  "available_as conv v = (case conv v of Ok x \<Rightarrow> Ok (Available x) | Err e \<Rightarrow> Err e)"

definition get_or_insert_with ::
  "(cached_value \<Rightarrow> ('a option, attribute_error) result) \<Rightarrow> path \<Rightarrow> (cached_value, attribute_error) result
     \<Rightarrow> attribute_cache \<Rightarrow> ('a option attribute_state, attribute_error) result \<times> attribute_cache"
where
  "get_or_insert_with conv p f c =
     (case cache_get c p of
        Ok (Some cached) \<Rightarrow> (available_as conv cached, c)
      | _ \<Rightarrow>
          (case f of
             Ok cached_value \<Rightarrow> (available_as conv cached_value, snd (cache_insert p cached_value c))
           | Err (NotAvailable _) \<Rightarrow> (Ok Pending, c)
           | Err e \<Rightarrow> (Err e, c)))"

definition populate ::
  "path \<Rightarrow> (cached_value, attribute_error) result \<Rightarrow> attribute_cache
     \<Rightarrow> (unit, attribute_error) result \<times> attribute_cache"
where
  "populate p f c =
     (case cache_get c p of
        Err e \<Rightarrow> (Err e, c)
      | Ok (Some _) \<Rightarrow> (Ok (), c)
      | Ok None \<Rightarrow>
          (case f of
             Ok cached_value \<Rightarrow> cache_insert p cached_value c
           | Err (NotAvailable _) \<Rightarrow> (Ok (), c)
           | Err e \<Rightarrow> (Err e, c)))"

section \<open>The read-through interface\<close>

locale read_through =
  fixes lookup :: "'c \<Rightarrow> 'k \<Rightarrow> 'v option"
    and read :: "'k \<Rightarrow> 'v option \<Rightarrow> 'c \<Rightarrow> 'c"
  assumes lookup_read:
    "lookup (read k f c) = (if lookup c k = None \<and> f \<noteq> None then (lookup c)(k := f) else lookup c)
     \<or> lookup (read k f c) = lookup c"
begin

lemma read_keeps: "lookup c k = Some v \<Longrightarrow> lookup (read k' f c) k = Some v"
  using lookup_read [of k' f c] by (auto split: if_splits)

text \<open>Any sequence of reads, each with its own fetch result.\<close>

lemma reads_keep: "lookup c k = Some v \<Longrightarrow> lookup (fold (\<lambda>(k, f). read k f) rs c) k = Some v"
  by (induction rs arbitrary: c) (auto simp: read_keeps)

text \<open>What is in the cache after some reads was there or was fetched by one of them.\<close>

lemma reads_origin:
  "lookup (fold (\<lambda>(k, f). read k f) rs c) k = Some v \<Longrightarrow> lookup c k = Some v \<or> (k, Some v) \<in> set rs"
proof (induction rs arbitrary: c)
  case (Cons r rs)
  obtain k' f where r: "r = (k', f)" by force
  with Cons have "lookup (read k' f c) k = Some v \<or> (k, Some v) \<in> set rs" by simp
  with lookup_read [of k' f c] r show ?case by (auto split: if_splits)
qed simp

end

text \<open>The two reading operations of the cache, as one step on keys and fetched values.\<close>

definition cache_lookup :: "attribute_cache \<Rightarrow> string \<Rightarrow> cached_value option" where
  "cache_lookup c = (if poisoned c then Map.empty else map_of (inner c))"

definition cache_fill :: "string \<Rightarrow> cached_value option \<Rightarrow> attribute_cache \<Rightarrow> attribute_cache" where
  "cache_fill k f c =
     (case (cache_lookup c k, f) of
        (None, Some v) \<Rightarrow> if poisoned c then c else c\<lparr>inner := AList.update k v (inner c)\<rparr>
      | _ \<Rightarrow> c)"

interpretation attribute_reads: read_through cache_lookup cache_fill
  by unfold_locales (auto simp: cache_fill_def cache_lookup_def fun_upd_def split: option.splits)

definition fetched :: "(cached_value, attribute_error) result \<Rightarrow> cached_value option" where
  "fetched f = (case f of Ok v \<Rightarrow> Some v | Err _ \<Rightarrow> None)"

lemma get_or_insert_with_fill:
  "snd (get_or_insert_with conv p f c) = cache_fill (path_display p) (fetched f) c"
  by (auto simp: get_or_insert_with_def cache_get_def cache_insert_def cache_fill_def cache_lookup_def
      fetched_def split: option.splits result.splits attribute_error.splits)

lemma populate_fill: "snd (populate p f c) = cache_fill (path_display p) (fetched f) c"
  by (auto simp: populate_def cache_get_def cache_insert_def cache_fill_def cache_lookup_def
      fetched_def split: option.splits result.splits attribute_error.splits)

lemma get_or_insert_with_hit:
  "cache_lookup c (path_display p) = Some v \<Longrightarrow> get_or_insert_with conv p f c = (available_as conv v, c)"
  by (auto simp: get_or_insert_with_def cache_get_def cache_lookup_def split: if_splits)

lemma get_or_insert_with_pending:
  "fst (get_or_insert_with conv p f c) = Ok Pending \<longleftrightarrow>
     cache_lookup c (path_display p) = None \<and> (\<exists>msg. f = Err (NotAvailable msg))"
  by (auto simp: get_or_insert_with_def cache_get_def cache_lookup_def available_as_def
      split: option.splits result.splits attribute_error.splits)

datatype cache_read =
    Read_attribute path "(cached_value, attribute_error) result"
  | Read_populate path "(cached_value, attribute_error) result"

fun run_read :: "cache_read \<Rightarrow> attribute_cache \<Rightarrow> attribute_cache" where
  "run_read (Read_attribute p f) c = snd (get_or_insert_with (\<lambda>_. Ok None :: (unit option, _) result) p f c)"
| "run_read (Read_populate p f) c = snd (populate p f c)"

fun read_key :: "cache_read \<Rightarrow> string \<times> cached_value option" where
  "read_key (Read_attribute p f) = (path_display p, fetched f)"
| "read_key (Read_populate p f) = (path_display p, fetched f)"

lemma run_reads: "fold run_read rs c = fold (\<lambda>(k, f). cache_fill k f) (map read_key rs) c"
proof (induction rs arbitrary: c)
  case (Cons r rs)
  then show ?case by (cases r) (simp_all add: get_or_insert_with_fill populate_fill)
qed simp



end
