(* ===== verification/Host.thy ===== *)
theory Host
  imports Attribute
begin

text \<open>
  The host interface: \<^verbatim>\<open>src/kuadrant/resolver/\<close> (the trait \<^verbatim>\<open>AttributeResolver\<close> as
  \<^verbatim>\<open>ProxyWasmHost\<close> implements it) and \<^verbatim>\<open>src/metrics/mod.rs\<close>.  The proxy itself is not code of
  the repository: its host calls are the record \<open>hostcalls\<close>, an argument of every definition
  that reaches the host, over a host state of any type \<open>'h\<close>.  Calls that only read take the
  state, calls with an effect return it changed.  \<open>hc_random_uuid\<close> stands for the random
  source behind \<^verbatim>\<open>Uuid::new_v4\<close>; the last four fields stand for the \<^verbatim>\<open>tracing\<close> library, which
  keeps the stack of entered spans (leaving one yields the spans that have ended).
\<close>

datatype status = BadArgument | Other_status nat

datatype map_type = HttpRequestHeaders | HttpResponseHeaders

datatype buffer_type = HttpResponseBody | GrpcReceiveBuffer | PluginConfiguration

datatype service_error =
    Dispatch string
  | Decode string
  | Service_Retrieval string

text \<open>An OpenTelemetry context is an opaque handle; \<^verbatim>\<open>Context::new()\<close> is handle 0.  A finished
  span (\<^verbatim>\<open>SpanData\<close>) is a handle too.\<close>

datatype otel_context = Otel_context nat

type_synonym span_data = nat

datatype log_level = Level_Trace | Level_Debug | Level_Info | Level_Warn | Level_Error | Level_Critical

record 'h hostcalls =
  hc_get_property :: "string list \<Rightarrow> 'h \<Rightarrow> (bytes option, status) result"
  hc_get_map :: "map_type \<Rightarrow> 'h \<Rightarrow> ((string \<times> string) list, status) result"
  hc_get_map_value :: "map_type \<Rightarrow> string \<Rightarrow> 'h \<Rightarrow> (string option, status) result"
  hc_set_property :: "string list \<Rightarrow> bytes \<Rightarrow> 'h \<Rightarrow> (unit, status) result \<times> 'h"
  hc_set_map :: "map_type \<Rightarrow> (string \<times> string) list \<Rightarrow> 'h \<Rightarrow> (unit, status) result \<times> 'h"
  hc_get_buffer :: "buffer_type \<Rightarrow> nat \<Rightarrow> nat \<Rightarrow> 'h \<Rightarrow> (bytes option, status) result"
  hc_dispatch_grpc_call ::
    "string \<Rightarrow> string \<Rightarrow> string \<Rightarrow> (string \<times> bytes) list \<Rightarrow> bytes \<Rightarrow> nat \<Rightarrow> 'h \<Rightarrow> (u32, status) result \<times> 'h"
  hc_send_http_response ::
    "u32 \<Rightarrow> (string \<times> string) list \<Rightarrow> bytes option \<Rightarrow> 'h \<Rightarrow> (unit, status) result \<times> 'h"
  hc_increment_metric :: "u32 \<Rightarrow> int \<Rightarrow> 'h \<Rightarrow> 'h"
  hc_define_metric :: "string \<Rightarrow> (u32, status) result"
  hc_resume_http_request :: "'h \<Rightarrow> 'h"
  hc_resume_http_response :: "'h \<Rightarrow> 'h"
  hc_set_tick_period :: "nat \<Rightarrow> 'h \<Rightarrow> (unit, status) result \<times> 'h"
  hc_random_uuid :: "'h \<Rightarrow> string"
  hc_span_enabled :: "'h \<Rightarrow> bool"
  hc_enter_span :: "otel_context \<Rightarrow> 'h \<Rightarrow> 'h"
  hc_exit_span :: "'h \<Rightarrow> span_data list \<times> 'h"
  hc_current_span :: "'h \<Rightarrow> otel_context"
  hc_get_log_level :: "'h \<Rightarrow> (log_level, status) result"

section \<open>ProxyWasmHost\<close>

definition host_get_attribute ::
  "'h hostcalls \<Rightarrow> path \<Rightarrow> 'h \<Rightarrow> (bytes option, attribute_error) result"
where
  "host_get_attribute H p h =
     (case hc_get_property H (tokens p) h of
        Ok d \<Rightarrow> Ok d
      | Err BadArgument \<Rightarrow>
          Err (NotAvailable (''Property `'' @ path_display p @ ''` not available in current request phase''))
      | Err _ \<Rightarrow> Err (Retrieval (''failed to get property: `'' @ path_display p @ ''`'')))"

definition host_get_attribute_map ::
  "'h hostcalls \<Rightarrow> map_type \<Rightarrow> 'h \<Rightarrow> ((string \<times> string) list, attribute_error) result"
where
  "host_get_attribute_map H mt h =
     (case hc_get_map H mt h of
        Ok m \<Rightarrow> if m = [] then Err (NotAvailable ''Map not available in current phase'') else Ok m
      | Err _ \<Rightarrow> Err (Retrieval ''Error getting host map''))"

definition host_get_attribute_map_value ::
  "'h hostcalls \<Rightarrow> map_type \<Rightarrow> string \<Rightarrow> 'h \<Rightarrow> (string option, attribute_error) result"
where
  "host_get_attribute_map_value H mt key h =
     (case hc_get_map_value H mt key h of
        Ok v \<Rightarrow> Ok v
      | Err BadArgument \<Rightarrow> Err (NotAvailable ''Map not available in current phase'')
      | Err _ \<Rightarrow> Err (Retrieval ''Error getting map value''))"

definition host_set_attribute ::
  "'h hostcalls \<Rightarrow> path \<Rightarrow> bytes \<Rightarrow> 'h \<Rightarrow> (unit, attribute_error) result \<times> 'h"
where
  "host_set_attribute H p val h =
     (case hc_set_property H (tokens p) val h of
        (Ok _, h') \<Rightarrow> (Ok (), h')
      | (Err _, h') \<Rightarrow> (Err (Set_err (''Failed to set property `'' @ path_display p @ ''`'')), h'))"

definition host_set_attribute_map ::
  "'h hostcalls \<Rightarrow> map_type \<Rightarrow> (string \<times> string) list \<Rightarrow> 'h \<Rightarrow> (unit, attribute_error) result \<times> 'h"
where
  "host_set_attribute_map H mt val h =
     (case hc_set_map H mt val h of
        (Ok _, h') \<Rightarrow> (Ok (), h')
      | (Err BadArgument, h') \<Rightarrow> (Err (NotAvailable ''Map not available in current phase''), h')
      | (Err _, h') \<Rightarrow> (Err (Set_err ''Error setting map''), h'))"

definition host_get_http_response_body ::
  "'h hostcalls \<Rightarrow> nat \<Rightarrow> nat \<Rightarrow> 'h \<Rightarrow> (bytes option, attribute_error) result"
where
  "host_get_http_response_body H start max_size h =
     (case hc_get_buffer H HttpResponseBody start max_size h of
        Ok bs \<Rightarrow> Ok bs
      | Err BadArgument \<Rightarrow> Err (NotAvailable ''response.body'')
      | Err _ \<Rightarrow> Err (Retrieval ''Error getting http response body buffer''))"

definition host_dispatch_grpc_call ::
  "'h hostcalls \<Rightarrow> string \<Rightarrow> string \<Rightarrow> string \<Rightarrow> (string \<times> bytes) list \<Rightarrow> bytes \<Rightarrow> nat \<Rightarrow> 'h
     \<Rightarrow> (u32, service_error) result \<times> 'h"
where
  "host_dispatch_grpc_call H upstream service method hs message timeout h =
     (case hc_dispatch_grpc_call H upstream service method hs message timeout h of
        (Ok token_id, h') \<Rightarrow> (Ok token_id, h')
      | (Err _, h') \<Rightarrow> (Err (Dispatch ''dispatch failed''), h'))"

definition host_get_grpc_response ::
  "'h hostcalls \<Rightarrow> nat \<Rightarrow> 'h \<Rightarrow> (bytes, service_error) result"
where
  "host_get_grpc_response H response_size h =
     (if response_size = 0 then Err (Service_Retrieval ''Received response with size 0'')
      else (case hc_get_buffer H GrpcReceiveBuffer 0 response_size h of
              Err _ \<Rightarrow> Err (Service_Retrieval ''Failed to get gRPC response'')
            | Ok None \<Rightarrow> Err (Service_Retrieval ''No gRPC response body available'')
            | Ok (Some bs) \<Rightarrow> Ok bs))"

definition host_send_http_reply ::
  "'h hostcalls \<Rightarrow> u32 \<Rightarrow> (string \<times> string) list \<Rightarrow> bytes option \<Rightarrow> 'h
     \<Rightarrow> (unit, service_error) result \<times> 'h"
where
  "host_send_http_reply H status_code hs body h =
     (case hc_send_http_response H status_code hs body h of
        (Ok _, h') \<Rightarrow> (Ok (), h')
      | (Err _, h') \<Rightarrow> (Err (Dispatch ''Failed to send HTTP reply''), h'))"

section \<open>Metrics\<close>

datatype counter = Counter "u32 option"

definition metric_names :: "string list" where
  "metric_names = [''kuadrant.configs'', ''kuadrant.hits'', ''kuadrant.misses'',
     ''kuadrant.allowed'', ''kuadrant.denied'', ''kuadrant.errors'']"

text \<open>\<^verbatim>\<open>impl Default for Metrics\<close> on the wasm target: one counter per metric the host defines.\<close>

fun define_metrics :: "'h hostcalls \<Rightarrow> string list \<Rightarrow> (string \<times> counter) list \<Rightarrow> (string \<times> counter) list" where
  "define_metrics H [] counters = counters"
| "define_metrics H (metric # rest) counters =
     define_metrics H rest
       (case hc_define_metric H metric of
          Ok i \<Rightarrow> bt_insert metric (Counter (Some i)) counters
        | Err _ \<Rightarrow> counters)"

definition metrics_default :: "'h hostcalls \<Rightarrow> (string \<times> counter) list" where
  "metrics_default H = define_metrics H metric_names []"

definition get_counter :: "(string \<times> counter) list \<Rightarrow> string \<Rightarrow> counter" where
  "get_counter counters name = (case map_of counters name of Some c \<Rightarrow> c | None \<Rightarrow> Counter None)"

definition counter_inc_by :: "'h hostcalls \<Rightarrow> counter \<Rightarrow> int \<Rightarrow> 'h \<Rightarrow> 'h" where
  "counter_inc_by H c offset h =
     (case c of Counter (Some i) \<Rightarrow> hc_increment_metric H i offset h | Counter None \<Rightarrow> h)"

definition metric_increment :: "'h hostcalls \<Rightarrow> string \<Rightarrow> 'h \<Rightarrow> 'h" where
  "metric_increment H name h = counter_inc_by H (get_counter (metrics_default H) name) 1 h"

lemma define_metrics_lookup:
  "bt_ok counters \<Longrightarrow>
     map_of (define_metrics H ms counters) name =
       (if name \<in> set ms \<and> is_ok (hc_define_metric H name)
        then (case hc_define_metric H name of Ok i \<Rightarrow> Some (Counter (Some i)) | Err _ \<Rightarrow> None)
        else map_of counters name)"
proof (induction H ms counters rule: define_metrics.induct)
  case (2 H metric rest counters)
  then have "bt_ok (case hc_define_metric H metric of
      Ok i \<Rightarrow> bt_insert metric (Counter (Some i)) counters | Err _ \<Rightarrow> counters)"
    by (simp add: btree_map.invar_insert split: result.split)
  from "2.IH" [OF this] "2.prems" show ?case
    by (auto simp: btree_map.lookup_insert split: result.splits)
qed simp

text \<open>Incrementing a metric reaches exactly the counter the host defined under its name; a
  metric the host refused, or an unknown name, changes nothing.\<close>

theorem metric_increment_spec:
  "metric_increment H name h =
     (if name \<in> set metric_names
      then (case hc_define_metric H name of Ok i \<Rightarrow> hc_increment_metric H i 1 h | Err _ \<Rightarrow> h)
      else h)"
  using define_metrics_lookup [OF btree_map.invar_empty, of H metric_names name]
  by (auto simp: metric_increment_def counter_inc_by_def get_counter_def metrics_default_def
           split: result.splits)

end
