(* ===== verification/Cel_Types.thy ===== *)
theory Cel_Types
  imports Host
begin

text \<open>
  \<^verbatim>\<open>src/data/cel.rs\<close>, the part that needs no request: the data the CEL interpreter works on,
  \<^verbatim>\<open>Attribute\<close>, \<^verbatim>\<open>Expression\<close> and \<^verbatim>\<open>Predicate\<close>, and the analysis of a parsed expression
  (\<^verbatim>\<open>properties\<close>, \<^verbatim>\<open>new_expression\<close>).

  The interpreter, its parser, \<^verbatim>\<open>serde_json\<close>, \<^verbatim>\<open>urlencoding\<close> and the OpenTelemetry propagator
  are libraries: their data appear with the constructors the sources match on, their functions
  are the fields of the record \<open>lib\<close>, an argument of every definition that calls them.
  The two representations of a CEL value in the library (\<^verbatim>\<open>Value\<close> and the \<^verbatim>\<open>Val\<close> objects) are
  one type here, with a constructor for each class of object the sources tell apart.  \<^verbatim>\<open>i64\<close>,
  \<^verbatim>\<open>u64\<close> and \<^verbatim>\<open>f64\<close> are their 64 bits, a timestamp its count of nanoseconds.
\<close>

section \<open>Data of the libraries\<close>

datatype cel_key = KInt u64 | KUint u64 | KBool bool | KString string

datatype cel_value =
    VNull
  | VBool bool
  | VInt u64
  | VUInt u64
  | VFloat u64
  | VString string
  | VBytes bytes
  | VTimestamp int
  | VList "cel_value list"
  | VMap "(cel_key \<times> cel_value) list"
  | VStruct string "(string \<times> cel_value) list"
  | VOther

datatype exec_error =
    FunctionError string string
  | UnexpectedType string string
  | Other_exec_error

datatype value_type =
    T_List | T_Map | T_Function | T_Int | T_UInt | T_Float | T_String | T_Bytes | T_Bool
  | T_Duration | T_Timestamp | T_Null | T_Opaque | T_Struct

datatype cel_literal = LString string | LOther

datatype cel_expr =
    ECall "cel_expr option" string "cel_expr list"
  | ESelect cel_expr string
  | EIdent string
  | EList "cel_expr list"
  | EMap "cel_entry list"
  | EStruct string "cel_entry list"
  | EComprehension cel_expr cel_expr cel_expr cel_expr cel_expr
  | ELiteral cel_literal
  | EUnspecified
and cel_entry =
    MapEntry cel_expr cel_expr
  | StructField string cel_expr

datatype json =
    JNull
  | JBool bool
  | JPosInt u64
  | JNegInt u64
  | JFloat u64
  | JString string
  | JArray "json list"
  | JObject "(string \<times> json) list"

text \<open>The struct definitions an environment of the interpreter knows, and the Rust functions
  the sources register in a context.\<close>

datatype cel_type =
    BOOL_TYPE | INT_TYPE | UINT_TYPE | DOUBLE_TYPE | STRING_TYPE | BYTES_TYPE | TIMESTAMP_TYPE
  | LIST_TYPE | MAP_TYPE | Struct_type string

record struct_def =
  sd_name :: string
  sd_fields :: "(string \<times> cel_type) list"
  sd_defaults :: "(string \<times> cel_value) list"

type_synonym cel_env = "(string \<times> struct_def) list"

datatype cel_fun =
    Fn_char_at | Fn_index_of | Fn_join | Fn_last_index_of | Fn_lower_ascii | Fn_upper_ascii
  | Fn_trim | Fn_replace | Fn_split | Fn_substring
  | Fn_decode_query_string | Fn_response_body_json | Fn_request_body_json

record cel_context =
  cc_env :: "cel_env option"
  cc_variables :: "(string \<times> cel_value) list"
  cc_functions :: "(string \<times> cel_fun) list"

definition cel_context_default :: cel_context where
  "cel_context_default = \<lparr>cc_env = None, cc_variables = [], cc_functions = []\<rparr>"

definition add_variable :: "string \<Rightarrow> cel_value \<Rightarrow> cel_context \<Rightarrow> cel_context" where
  "add_variable x v c = c\<lparr>cc_variables := AList.update x v (cc_variables c)\<rparr>"

definition add_function :: "string \<Rightarrow> cel_fun \<Rightarrow> cel_context \<Rightarrow> cel_context" where
  "add_function x f c = c\<lparr>cc_functions := AList.update x f (cc_functions c)\<rparr>"

lemma add_variable_simps [simp, frame_simps]:
  "map_of (cc_variables (add_variable x v c)) = (map_of (cc_variables c))(x \<mapsto> v)"
  "cc_functions (add_variable x v c) = cc_functions c"
  "cc_env (add_variable x v c) = cc_env c"
  by (simp_all add: add_variable_def)

lemma add_function_simps [simp, frame_simps]:
  "cc_variables (add_function x f c) = cc_variables c"
  "map_of (cc_functions (add_function x f c)) = (map_of (cc_functions c))(x \<mapsto> f)"
  "cc_env (add_function x f c) = cc_env c"
  by (simp_all add: add_function_def)

text \<open>Protobuf descriptors and dynamic messages.  A message descriptor is a name in its pool;
  a dynamic message is its descriptor's name with the fields that are set.\<close>

datatype proto_kind =
    PK_Double | PK_Float | PK_Int32 | PK_Int64 | PK_Uint32 | PK_Uint64 | PK_Sint32 | PK_Sint64
  | PK_Fixed32 | PK_Fixed64 | PK_Sfixed32 | PK_Sfixed64 | PK_Bool | PK_String | PK_Bytes
  | PK_Message string | PK_Enum string

record field_desc =
  fd_name :: string
  fd_kind :: proto_kind
  fd_repeated :: bool
  fd_optional :: bool
  fd_oneof :: bool

record message_desc =
  md_fields :: "field_desc list"
  md_map_entry :: bool

record pool =
  pool_messages :: "(string \<times> message_desc) list"
  pool_enums :: "(string \<times> u32 list) list"
  pool_services :: "(string \<times> (string \<times> string \<times> string) list) list"

datatype map_key = MK_Bool bool | MK_I32 u32 | MK_I64 u64 | MK_U32 u32 | MK_U64 u64 | MK_String string

datatype proto_value =
    PBool bool | PI32 u32 | PI64 u64 | PU32 u32 | PU64 u64 | PF32 u32 | PF64 u64
  | PString string | PBytes bytes | PEnumNumber u32
  | PMessage string "(string \<times> proto_value) list"
  | PList "proto_value list"
  | PMap "(map_key \<times> proto_value) list"

datatype prost_value =
    PV_Null | PV_Number u64 | PV_String string | PV_Bool bool
  | PV_Struct "(string \<times> prost_value) list"
  | PV_List "prost_value list"

text \<open>An export of spans.  The protobuf forms of a span and of an instrumentation scope are handles
  like the spans themselves.\<close>

record proto_resource =
  pr_attributes :: "(string \<times> string) list"
  pr_dropped_attributes_count :: u32

record scope_spans =
  ss_scope :: "nat option"
  ss_spans :: "nat list"
  ss_schema_url :: string

record resource_spans =
  rs_resource :: "proto_resource option"
  rs_scope_spans :: "scope_spans list"
  rs_schema_url :: string

record lib =
  cel_parse :: "string \<Rightarrow> (cel_expr, string) result"
  cel_resolve :: "cel_expr \<Rightarrow> cel_context \<Rightarrow> (cel_value, exec_error) result"
  json_from_slice :: "bytes \<Rightarrow> (json, string) result"
  url_decode :: "string \<Rightarrow> string option"
  otel_extract :: "(string \<times> string) list \<Rightarrow> otel_context"
  otel_inject :: "otel_context \<Rightarrow> (string \<times> string) list"
  f64_of_i64 :: "u64 \<Rightarrow> u64"
  f64_of_u64 :: "u64 \<Rightarrow> u64"
  f32_of_f64 :: "u64 \<Rightarrow> u32"
  f64_of_f32 :: "u32 \<Rightarrow> u64"
  utf8_lossy :: "bytes \<Rightarrow> string"
  chrono_from_timestamp :: "int \<Rightarrow> nat \<Rightarrow> int option"
  encode_prost_value :: "prost_value \<Rightarrow> bytes"
  encode_prost_struct :: "(string \<times> prost_value) list \<Rightarrow> bytes"
  encode_message :: "pool \<Rightarrow> proto_value \<Rightarrow> (bytes, string) result"
  decode_message :: "pool \<Rightarrow> string \<Rightarrow> bytes \<Rightarrow> ((string \<times> proto_value) list, string) result"
  hash_bytes :: "bytes \<Rightarrow> u64"
  pool_of_fds :: "bytes \<Rightarrow> (pool, string) result"
  encode_descriptors_request :: "(string \<times> string) list \<Rightarrow> (bytes, string) result"
  decode_descriptors_response :: "bytes \<Rightarrow> ((string \<times> string \<times> bytes) list, string) result"
  ratelimit_descriptors :: bytes
  auth_descriptors :: bytes
  encode_export_request :: "resource_spans list \<Rightarrow> bytes"
  span_to_proto :: "span_data \<Rightarrow> nat"
  scope_to_proto :: "span_data \<Rightarrow> nat"
  otel_resource :: "string \<Rightarrow> (string \<times> string) list \<Rightarrow> (string \<times> string) list"
  shim_name :: string
  shim_version :: string
  shim_profile :: string
  shim_git_hash :: string
  json_pointer :: "string \<Rightarrow> json \<Rightarrow> json option"
  char_is_alphabetic :: "string \<Rightarrow> bool"

section \<open>Attributes, expressions, predicates\<close>

record attribute =
  attr_path :: path
  attr_cel_type :: "value_type option"

record expression =
  expr_attributes :: "attribute list"
  expr_request_body_values :: "string list"
  expr_response_body_values :: "string list"
  expr_expression :: cel_expr
  expr_extended :: bool
  expr_needs_grpc :: bool
  expr_source :: string

datatype predicate = Predicate (pred_expression: expression)

datatype cel_error = Property attribute_error | Resolve exec_error

datatype evaluation_error = EvaluationError expression string

definition HOST_PROPERTY_ROOTS :: "string list" where
  "HOST_PROPERTY_ROOTS = [''request'', ''response'', ''source'', ''destination'', ''connection'',
     ''ratelimit'', ''filter_state'', ''metadata'']"

definition is_host_property_root :: "string \<Rightarrow> bool" where
  "is_host_property_root root = (root \<in> set HOST_PROPERTY_ROOTS)"

definition new_well_known_attribute_map :: "(path \<times> value_type) list" where
  "new_well_known_attribute_map = map (\<lambda>(p, t). (path_from p, t))
    [(''request.time'', T_Timestamp), (''request.id'', T_String), (''request.protocol'', T_String),
     (''request.scheme'', T_String), (''request.host'', T_String), (''request.method'', T_String),
     (''request.path'', T_String), (''request.url_path'', T_String), (''request.query'', T_String),
     (''request.referer'', T_String), (''request.size'', T_Int), (''request.useragent'', T_String),
     (''request.body'', T_String), (''source.address'', T_String),
     (''source.remote_address'', T_String), (''source.port'', T_Int), (''source.service'', T_String),
     (''source.principal'', T_String), (''source.certificate'', T_String),
     (''destination.address'', T_String), (''destination.port'', T_Int),
     (''destination.service'', T_String), (''destination.principal'', T_String),
     (''destination.certificate'', T_String), (''connection.requested_server_name'', T_String),
     (''connection.tls_session.sni'', T_String), (''connection.tls_version'', T_String),
     (''connection.subject_local_certificate'', T_String),
     (''connection.subject_peer_certificate'', T_String),
     (''connection.dns_san_local_certificate'', T_String),
     (''connection.dns_san_peer_certificate'', T_String),
     (''connection.uri_san_local_certificate'', T_String),
     (''connection.uri_san_peer_certificate'', T_String),
     (''connection.sha256_peer_certificate_digest'', T_String),
     (''ratelimit.domain'', T_String), (''connection.id'', T_UInt),
     (''ratelimit.hits_addend'', T_Int), (''request.headers'', T_Map),
     (''request.context_extensions'', T_Map), (''source.labels'', T_Map),
     (''destination.labels'', T_Map), (''filter_state'', T_Map), (''connection.mtls'', T_Bool),
     (''request.raw_body'', T_Bytes)]"

definition known_attribute_for :: "path \<Rightarrow> attribute option" where
  "known_attribute_for p =
     map_option (\<lambda>t. \<lparr>attr_path = p, attr_cel_type = Some t\<rparr>) (map_of new_well_known_attribute_map p)"

section \<open>Analysis of a parsed expression\<close>

definition RESPONSE_BODY_JSON_FN :: string where "RESPONSE_BODY_JSON_FN = ''responseBodyJSON''"
definition REQUEST_BODY_JSON_FN :: string where "REQUEST_BODY_JSON_FN = ''requestBodyJSON''"
definition RESPONSE_BODY_JSON_DATA :: string where "RESPONSE_BODY_JSON_DATA = ''@responseBodyJSON''"
definition REQUEST_BODY_JSON_DATA :: string where "REQUEST_BODY_JSON_DATA = ''@requestBodyJSON''"

text \<open>The four vectors \<^verbatim>\<open>properties\<close> writes to.\<close>

record props =
  p_all :: "string list list"
  p_request :: "string list"
  p_response :: "string list"
  p_path :: "string list"

text \<open>The literal argument of a call of one of the two body functions.\<close>

definition props_call :: "cel_expr option \<Rightarrow> string \<Rightarrow> cel_expr list \<Rightarrow> props \<Rightarrow> props" where
  "props_call target func_name args s =
     (if target = None \<and> func_name = RESPONSE_BODY_JSON_FN \<and> length args = 1 then
        (case args of
           [ELiteral (LString prop)] \<Rightarrow> s\<lparr>p_response := p_response s @ [prop]\<rparr>
         | _ \<Rightarrow> s)
      else if target = None \<and> func_name = REQUEST_BODY_JSON_FN \<and> length args = 1 then
        (case args of
           [ELiteral (LString prop)] \<Rightarrow> s\<lparr>p_request := p_request s @ [prop]\<rparr>
         | _ \<Rightarrow> s)
      else s)"

fun properties :: "cel_expr \<Rightarrow> props \<Rightarrow> props"
and properties_list :: "cel_expr list \<Rightarrow> props \<Rightarrow> props"
and properties_map_entries :: "cel_entry list \<Rightarrow> props \<Rightarrow> props"
and properties_struct_entries :: "cel_entry list \<Rightarrow> props \<Rightarrow> props"
where
  "properties (ECall target func_name args) s =
     (let s = props_call target func_name args s;
          s = (case target of
                 Some t \<Rightarrow> properties t s
               | None \<Rightarrow> s\<lparr>p_path := []\<rparr>)
      in properties_list args s)"
| "properties (ESelect operand field) s = properties operand (s\<lparr>p_path := field # p_path s\<rparr>)"
| "properties (EIdent name) s =
     (if p_path s \<noteq> []
      then s\<lparr>p_all := p_all s @ [name # p_path s], p_path := []\<rparr>
      else s)"
| "properties (EList elements) s = properties_list elements s"
| "properties (EMap entries) s = properties_map_entries entries s"
| "properties (EStruct _ entries) s = properties_struct_entries entries s"
| "properties (EComprehension iter_range accu_init loop_cond loop_step res) s =
     properties res (properties loop_step (properties loop_cond
       (properties accu_init (properties iter_range s))))"
| "properties (ELiteral _) s = s"
| "properties EUnspecified s = s"
| "properties_list [] s = s"
| "properties_list (e # es) s = properties_list es (properties e s)"
| "properties_map_entries [] s = s"
| "properties_map_entries (MapEntry k v # es) s =
     properties_map_entries es (properties v (properties k s))"
| "properties_map_entries (StructField _ v # es) s = properties_map_entries es (properties v s)"
| "properties_struct_entries [] s = s"
| "properties_struct_entries (MapEntry _ _ # es) s = properties_struct_entries es s"
| "properties_struct_entries (StructField _ v # es) s = properties_struct_entries es (properties v s)"

definition is_grpc_tokens :: "string list \<Rightarrow> bool" where
  "is_grpc_tokens toks = (length toks \<ge> 2 \<and> toks ! 0 = ''request'' \<and> toks ! 1 = ''grpc'')"

definition attribute_of_tokens :: "string list \<Rightarrow> attribute option" where
  "attribute_of_tokens toks =
     (if is_grpc_tokens toks then None
      else Some (case known_attribute_for (Path toks) of
                   Some a \<Rightarrow> a
                 | None \<Rightarrow> \<lparr>attr_path = Path toks, attr_cel_type = None\<rparr>))"

definition new_expression :: "lib \<Rightarrow> string \<Rightarrow> bool \<Rightarrow> (expression, string) result" where
  "new_expression L source extended =
     (case cel_parse L source of
        Err e \<Rightarrow> Err e
      | Ok ast \<Rightarrow>
          let s = properties ast \<lparr>p_all = [], p_request = [], p_response = [], p_path = []\<rparr>;
              attributes = List.map_filter attribute_of_tokens (p_all s)
          in Ok \<lparr>expr_attributes = sort_key (\<lambda>a. length (tokens (attr_path a))) attributes,
                 expr_request_body_values = p_request s,
                 expr_response_body_values = p_response s,
                 expr_expression = ast,
                 expr_extended = extended,
                 expr_needs_grpc = list_ex is_grpc_tokens (p_all s),
                 expr_source = source\<rparr>)"

definition expression_new :: "lib \<Rightarrow> string \<Rightarrow> (expression, string) result" where
  "expression_new L source = new_expression L source False"

definition predicate_new :: "lib \<Rightarrow> string \<Rightarrow> (predicate, string) result" where
  "predicate_new L source =
     (case expression_new L source of Err e \<Rightarrow> Err e | Ok e \<Rightarrow> Ok (Predicate e))"


section \<open>What the analysis finds\<close>

text \<open>The subexpressions the analysis visits, in the order it visits them: all of them but the
  keyed entries of a struct literal.\<close>

fun sub_exprs :: "cel_expr \<Rightarrow> cel_expr list"
and sub_exprs_list :: "cel_expr list \<Rightarrow> cel_expr list"
and sub_exprs_entries :: "bool \<Rightarrow> cel_entry list \<Rightarrow> cel_expr list"
where
  "sub_exprs (ECall target f args) =
     ECall target f args # (case target of Some t \<Rightarrow> sub_exprs t | None \<Rightarrow> []) @ sub_exprs_list args"
| "sub_exprs (ESelect e f) = ESelect e f # sub_exprs e"
| "sub_exprs (EIdent x) = [EIdent x]"
| "sub_exprs (EList es) = EList es # sub_exprs_list es"
| "sub_exprs (EMap es) = EMap es # sub_exprs_entries True es"
| "sub_exprs (EStruct n es) = EStruct n es # sub_exprs_entries False es"
| "sub_exprs (EComprehension a b c d e) =
     EComprehension a b c d e # sub_exprs a @ sub_exprs b @ sub_exprs c @ sub_exprs d @ sub_exprs e"
| "sub_exprs (ELiteral l) = [ELiteral l]"
| "sub_exprs EUnspecified = [EUnspecified]"
| "sub_exprs_list [] = []"
| "sub_exprs_list (e # es) = sub_exprs e @ sub_exprs_list es"
| "sub_exprs_entries keyed [] = []"
| "sub_exprs_entries keyed (MapEntry k v # es) =
     (if keyed then sub_exprs k @ sub_exprs v else []) @ sub_exprs_entries keyed es"
| "sub_exprs_entries keyed (StructField _ v # es) = sub_exprs v @ sub_exprs_entries keyed es"

definition body_literal :: "string \<Rightarrow> cel_expr \<Rightarrow> string list" where
  "body_literal fn e =
     (case e of
        ECall None f [ELiteral (LString prop)] \<Rightarrow> if f = fn then [prop] else []
      | _ \<Rightarrow> [])"

lemma props_call_simps:
  "p_response (props_call t f args s) =
     p_response s @ body_literal RESPONSE_BODY_JSON_FN (ECall t f args)"
  "p_request (props_call t f args s) =
     p_request s @ body_literal REQUEST_BODY_JSON_FN (ECall t f args)"
  "p_all (props_call t f args s) = p_all s"
  "p_path (props_call t f args s) = p_path s"
  by (auto simp: props_call_def body_literal_def RESPONSE_BODY_JSON_FN_def REQUEST_BODY_JSON_FN_def
           split: option.split list.split cel_expr.split cel_literal.split)

lemma body_literal_other [simp]:
  "body_literal fn (ESelect e f) = []" "body_literal fn (EIdent x) = []"
  "body_literal fn (EList es) = []" "body_literal fn (EMap ms) = []"
  "body_literal fn (EStruct n ms) = []" "body_literal fn (EComprehension a b c d e) = []"
  "body_literal fn (ELiteral l) = []" "body_literal fn EUnspecified = []"
  by (simp_all add: body_literal_def)

lemma properties_response:
  "p_response (properties e s) =
     p_response s @ concat (map (body_literal RESPONSE_BODY_JSON_FN) (sub_exprs e))"
  "p_response (properties_list es s) =
     p_response s @ concat (map (body_literal RESPONSE_BODY_JSON_FN) (sub_exprs_list es))"
  "p_response (properties_map_entries ms s) =
     p_response s @ concat (map (body_literal RESPONSE_BODY_JSON_FN) (sub_exprs_entries True ms))"
  "p_response (properties_struct_entries ms s) =
     p_response s @ concat (map (body_literal RESPONSE_BODY_JSON_FN) (sub_exprs_entries False ms))"
  by (induction e s and es s and ms s and ms s
        rule: properties_properties_list_properties_map_entries_properties_struct_entries.induct)
     (auto simp: props_call_simps Let_def split: option.splits)

lemma properties_request:
  "p_request (properties e s) =
     p_request s @ concat (map (body_literal REQUEST_BODY_JSON_FN) (sub_exprs e))"
  "p_request (properties_list es s) =
     p_request s @ concat (map (body_literal REQUEST_BODY_JSON_FN) (sub_exprs_list es))"
  "p_request (properties_map_entries ms s) =
     p_request s @ concat (map (body_literal REQUEST_BODY_JSON_FN) (sub_exprs_entries True ms))"
  "p_request (properties_struct_entries ms s) =
     p_request s @ concat (map (body_literal REQUEST_BODY_JSON_FN) (sub_exprs_entries False ms))"
  by (induction e s and es s and ms s and ms s
        rule: properties_properties_list_properties_map_entries_properties_struct_entries.induct)
     (auto simp: props_call_simps Let_def split: option.splits)

abbreviation two_tokens :: "props \<Rightarrow> bool" where
  "two_tokens s \<equiv> list_all (\<lambda>t. length t \<ge> 2) (p_all s)"

lemma properties_two_tokens:
  "two_tokens s \<Longrightarrow> two_tokens (properties e s)"
  "two_tokens s \<Longrightarrow> two_tokens (properties_list es s)"
  "two_tokens s \<Longrightarrow> two_tokens (properties_map_entries ms s)"
  "two_tokens s \<Longrightarrow> two_tokens (properties_struct_entries ms s)"
proof (induction e s and es s and ms s and ms s
        rule: properties_properties_list_properties_map_entries_properties_struct_entries.induct)
  case (3 name s)
  then show ?case by (cases "p_path s") auto
qed (auto simp: props_call_simps Let_def split: option.splits)

lemma path_of_known: "known_attribute_for p = Some a \<Longrightarrow> attr_path a = p"
  by (auto simp: known_attribute_for_def)

lemma attribute_of_tokens_path:
  "attribute_of_tokens t = Some a \<longleftrightarrow>
     \<not> is_grpc_tokens t \<and> a = (case known_attribute_for (Path t) of
        Some a \<Rightarrow> a | None \<Rightarrow> \<lparr>attr_path = Path t, attr_cel_type = None\<rparr>)"
  by (auto simp: attribute_of_tokens_def)

lemma attribute_of_tokens_Some: "attribute_of_tokens t = Some a \<Longrightarrow> attr_path a = Path t"
  by (auto simp: attribute_of_tokens_def path_of_known split: if_splits option.splits)

lemma expression_attributes_sorted:
  assumes "new_expression L src ext = Ok e"
  shows "sorted (map (\<lambda>a. length (tokens (attr_path a))) (expr_attributes e))
    \<and> (\<forall>a \<in> set (expr_attributes e). length (tokens (attr_path a)) \<ge> 2
         \<and> \<not> is_grpc_tokens (tokens (attr_path a))
         \<and> attr_cel_type a = map_of new_well_known_attribute_map (attr_path a))"
proof -
  from assms obtain ast where ast: "cel_parse L src = Ok ast"
    by (auto simp: new_expression_def split: result.splits)
  define s where "s = properties ast \<lparr>p_all = [], p_request = [], p_response = [], p_path = []\<rparr>"
  have two: "\<forall>t \<in> set (p_all s). length t \<ge> 2"
    using properties_two_tokens(1) [of "\<lparr>p_all = [], p_request = [], p_response = [], p_path = []\<rparr>" ast]
    by (simp add: s_def list_all_iff)
  have attrs: "expr_attributes e =
      sort_key (\<lambda>a. length (tokens (attr_path a))) (List.map_filter attribute_of_tokens (p_all s))"
    using assms ast by (auto simp: new_expression_def s_def Let_def)
  have "length (tokens (attr_path a)) \<ge> 2 \<and> \<not> is_grpc_tokens (tokens (attr_path a))
         \<and> attr_cel_type a = map_of new_well_known_attribute_map (attr_path a)"
    if "a \<in> set (expr_attributes e)" for a
  proof -
    from that obtain t where t: "t \<in> set (p_all s)" and a: "attribute_of_tokens t = Some a"
      by (auto simp: attrs List.map_filter_def)
    have "attr_cel_type a = map_of new_well_known_attribute_map (Path t)"
      using a by (auto simp: attribute_of_tokens_path known_attribute_for_def split: option.splits)
    with attribute_of_tokens_Some [OF a] a two t show ?thesis
      by (auto simp: attribute_of_tokens_path)
  qed
  then show ?thesis by (simp add: attrs)
qed

section \<open>Properties\<close>

text \<open>A parsed expression lists the attributes it reads shortest path first, so that a
  prefix is installed before its extensions; every path has at least two tokens, none is a
  \<^verbatim>\<open>request.grpc\<close> path, and a path of the table carries the type of the table.\<close>

theorem new_expression_attributes:
  assumes "new_expression L src ext = Ok e"
  shows "sorted (map (\<lambda>a. length (tokens (attr_path a))) (expr_attributes e))
    \<and> (\<forall>a \<in> set (expr_attributes e). length (tokens (attr_path a)) \<ge> 2
         \<and> \<not> is_grpc_tokens (tokens (attr_path a))
         \<and> attr_cel_type a = map_of new_well_known_attribute_map (attr_path a))"
  by (rule expression_attributes_sorted [OF assms])

text \<open>A parser for one text, enough to run the analysis on.\<close>

definition demo_lib :: "cel_expr \<Rightarrow> lib" where
  "demo_lib e = \<lparr>cel_parse = (\<lambda>_. Ok e), cel_resolve = (\<lambda>_ _. Ok (VBool True)),
     json_from_slice = (\<lambda>_. Err []), url_decode = Some, otel_extract = (\<lambda>_. Otel_context 0),
     otel_inject = (\<lambda>_. []), f64_of_i64 = id, f64_of_u64 = id, f32_of_f64 = ucast,
     f64_of_f32 = ucast, utf8_lossy = id,
     chrono_from_timestamp = (\<lambda>s n. if n < 1000000000 then Some (s * 1000000000 + int n) else None),
     encode_prost_value = (\<lambda>_. []), encode_prost_struct = (\<lambda>_. []),
     encode_message = (\<lambda>_ _. Ok []), decode_message = (\<lambda>_ _ _. Ok []),
     hash_bytes = (\<lambda>bs. word_of_nat (horner_sum of_char 256 bs)),
     pool_of_fds = (\<lambda>bs. Ok \<lparr>pool_messages = [], pool_enums = [], pool_services = [(bs, [])]\<rparr>),
     encode_descriptors_request = (\<lambda>_. Ok []),
     decode_descriptors_response = (\<lambda>bs. Ok [(''cluster'', bs, bs)]),
     ratelimit_descriptors = ''rl'', auth_descriptors = ''auth'',
     encode_export_request = (\<lambda>_. []), span_to_proto = id, scope_to_proto = (\<lambda>_. 0),
     otel_resource = (\<lambda>n as. (''service.name'', n) # as), shim_name = ''wasm-shim'', shim_version = ''0'',
     shim_profile = ''release'', shim_git_hash = ''0'', json_pointer = (\<lambda>_ j. Some j),
     char_is_alphabetic = (\<lambda>c. c \<noteq> [] \<and> hd c \<in> set (map char_of ([65..<91] @ [97..<123 :: nat])))\<rparr>"

definition demo_expr :: cel_expr where
  "demo_expr = ECall None ''_&&_''
     [ECall None ''_==_'' [ESelect (ESelect (ESelect (EIdent ''auth'') ''identity'') ''sub'') ''x'',
        ECall None ''responseBodyJSON'' [ELiteral (LString ''/model'')]],
      ESelect (EIdent ''source'') ''port'']"

theorem new_expression_attributes_witness:
  "\<exists>e. new_expression (demo_lib demo_expr) ''-'' False = Ok e
     \<and> map (\<lambda>a. tokens (attr_path a)) (expr_attributes e)
         = [[''source'', ''port''], [''auth'', ''identity'', ''sub'', ''x'']]
     \<and> sorted (map (\<lambda>a. length (tokens (attr_path a))) (expr_attributes e))"
proof -
  obtain e where e: "new_expression (demo_lib demo_expr) ''-'' False = Ok e"
    by (simp add: new_expression_def demo_lib_def Let_def)
  then have "map (\<lambda>a. tokens (attr_path a)) (expr_attributes e)
      = [[''source'', ''port''], [''auth'', ''identity'', ''sub'', ''x'']]"
    by (auto simp: new_expression_def demo_lib_def demo_expr_def Let_def props_call_def
       RESPONSE_BODY_JSON_FN_def REQUEST_BODY_JSON_FN_def List.map_filter_def attribute_of_tokens_def
       is_grpc_tokens_def path_of_known split: option.splits)
  with e new_expression_attributes [OF e] show ?thesis by (intro exI [of _ e]) simp
qed

text \<open>The body values an expression depends on are the literals its calls of
  \<^verbatim>\<open>responseBodyJSON\<close> and \<^verbatim>\<open>requestBodyJSON\<close> name, in source order, at any depth.\<close>

theorem new_expression_body_values:
  assumes "new_expression L src ext = Ok e"
  shows "expr_response_body_values e =
           concat (map (body_literal RESPONSE_BODY_JSON_FN) (sub_exprs (expr_expression e)))
       \<and> expr_request_body_values e =
           concat (map (body_literal REQUEST_BODY_JSON_FN) (sub_exprs (expr_expression e)))"
  using assms
  by (auto simp: new_expression_def Let_def properties_response(1) properties_request(1)
           split: result.splits)

theorem new_expression_body_values_witness:
  "\<exists>e. new_expression (demo_lib demo_expr) ''-'' False = Ok e
     \<and> expr_response_body_values e = [''/model''] \<and> expr_request_body_values e = []"
proof -
  obtain e where e: "new_expression (demo_lib demo_expr) ''-'' False = Ok e"
    and "expr_expression e = demo_expr"
    by (simp add: new_expression_def demo_lib_def Let_def)
  with new_expression_body_values [OF e] show ?thesis
    by (simp add: demo_expr_def body_literal_def RESPONSE_BODY_JSON_FN_def REQUEST_BODY_JSON_FN_def)
qed

end
