(* ===== verification/Descriptors.thy ===== *)
theory Descriptors
  imports Cel_Types
begin

text \<open>
  \<^verbatim>\<open>src/filter/descriptor_manager.rs\<close>: the protobuf descriptors of the services, from the two
  sets built into the module or fetched from the descriptor service.  Each expected service is
  \<open>Embedded\<close>, \<open>Missing\<close>, \<open>Pending\<close> on the call with a token, or \<open>Resolved\<close>; pools are shared by
  the hash of their bytes.  \<^verbatim>\<open>Rc<DescriptorManager>\<close> with its \<^verbatim>\<open>RefCell\<close>s is a record passed
  along.
\<close>

datatype descriptor_key = DescriptorKey (dk_cluster: string) (dk_service: string)

datatype descriptor_state =
    Embedded u64
  | Missing
  | Pending_desc u32
  | Resolved u64

record descriptor_manager =
  dm_pools :: "(u64 \<times> pool) list"
  dm_embedded :: "(string \<times> u64) list"
  dm_descriptors :: "(descriptor_key \<times> descriptor_state) list"
  dm_service :: "string option"

datatype descriptor_error = Descriptor_NotAvailable string string

definition DESCRIPTOR_FETCH_TIMEOUT :: nat where "DESCRIPTOR_FETCH_TIMEOUT = 1000000000"

definition RATELIMIT_SERVICE :: string where
  "RATELIMIT_SERVICE = ''envoy.service.ratelimit.v3.RateLimitService''"
definition KUADRANT_RATELIMIT_SERVICE :: string where
  "KUADRANT_RATELIMIT_SERVICE = ''kuadrant.service.ratelimit.v1.RateLimitService''"
definition AUTH_SERVICE :: string where
  "AUTH_SERVICE = ''envoy.service.auth.v3.Authorization''"

text \<open>\<^verbatim>\<open>entry(k).or_insert(v)\<close>\<close>

definition or_insert :: "'k \<Rightarrow> 'v \<Rightarrow> ('k \<times> 'v) list \<Rightarrow> ('k \<times> 'v) list" where
  "or_insert k v m = (if map_of m k = None then AList.update k v m else m)"

lemma map_of_or_insert [simp]:
  "map_of (or_insert k v m) = (if map_of m k = None then (map_of m)(k \<mapsto> v) else map_of m)"
  by (simp add: or_insert_def)

lemma distinct_or_insert: "distinct (map fst m) \<Longrightarrow> distinct (map fst (or_insert k v m))"
  by (simp add: or_insert_def distinct_update)

definition register_embedded ::
  "lib \<Rightarrow> string \<Rightarrow> bytes \<Rightarrow> pool \<Rightarrow> descriptor_manager \<Rightarrow> descriptor_manager"
where
  "register_embedded L service fds_bytes p m =
     (let content_hash = hash_bytes L fds_bytes in
      m\<lparr>dm_pools := or_insert content_hash p (dm_pools m),
        dm_embedded := AList.update service content_hash (dm_embedded m)\<rparr>)"

definition descriptor_manager_default :: "lib \<Rightarrow> descriptor_manager" where
  "descriptor_manager_default L =
     (let manager = \<lparr>dm_pools = [], dm_embedded = [], dm_descriptors = [], dm_service = None\<rparr>;
          manager =
            (case pool_of_fds L (ratelimit_descriptors L) of
               Ok p \<Rightarrow>
                 register_embedded L KUADRANT_RATELIMIT_SERVICE (ratelimit_descriptors L) p
                   (register_embedded L RATELIMIT_SERVICE (ratelimit_descriptors L) p manager)
             | Err _ \<Rightarrow> manager)
      in (case pool_of_fds L (auth_descriptors L) of
            Ok p \<Rightarrow> register_embedded L AUTH_SERVICE (auth_descriptors L) p manager
          | Err _ \<Rightarrow> manager))"

definition set_descriptor_service :: "string \<Rightarrow> descriptor_manager \<Rightarrow> descriptor_manager" where
  "set_descriptor_service service m =
     (if dm_service m \<noteq> Some service then m\<lparr>dm_service := Some service\<rparr> else m)"

definition add_expected :: "descriptor_key \<Rightarrow> descriptor_manager \<Rightarrow> descriptor_manager" where
  "add_expected key m =
     (let initial_state =
            (case map_of (dm_embedded m) (dk_service key) of Some h \<Rightarrow> Embedded h | None \<Rightarrow> Missing)
      in m\<lparr>dm_descriptors := or_insert key initial_state (dm_descriptors m)\<rparr>)"

definition has_expected :: "descriptor_manager \<Rightarrow> bool" where
  "has_expected m =
     list_ex (\<lambda>(_, state). case state of Embedded _ \<Rightarrow> False | _ \<Rightarrow> True) (dm_descriptors m)"

definition tick_period :: nat where "tick_period = DESCRIPTOR_FETCH_TIMEOUT * 2"

definition get_pool :: "descriptor_manager \<Rightarrow> string \<Rightarrow> string \<Rightarrow> (pool, descriptor_error) result" where
  "get_pool m cluster service =
     ok_or (Descriptor_NotAvailable cluster service)
       (case map_of (dm_descriptors m) (DescriptorKey cluster service) of
          Some (Embedded h) \<Rightarrow> map_of (dm_pools m) h
        | Some (Resolved h) \<Rightarrow> map_of (dm_pools m) h
        | _ \<Rightarrow> None)"

definition insert_pool_from_bytes ::
  "lib \<Rightarrow> descriptor_key \<Rightarrow> bytes \<Rightarrow> pool \<Rightarrow> descriptor_manager \<Rightarrow> descriptor_manager"
where
  "insert_pool_from_bytes L key fds_bytes p m =
     (case map_of (dm_descriptors m) key of
        Some (Embedded _) \<Rightarrow> m
      | _ \<Rightarrow>
          let content_hash = hash_bytes L fds_bytes in
          m\<lparr>dm_pools := or_insert content_hash p (dm_pools m),
            dm_descriptors := AList.update key (Resolved content_hash) (dm_descriptors m)\<rparr>)"

definition get_missing :: "descriptor_manager \<Rightarrow> descriptor_key list" where
  "get_missing m = map fst (filter (\<lambda>(_, state). state = Missing) (dm_descriptors m))"

definition set_states ::
  "descriptor_state \<Rightarrow> descriptor_key list \<Rightarrow> descriptor_manager \<Rightarrow> descriptor_manager"
where
  "set_states st keys m = m\<lparr>dm_descriptors := fold (\<lambda>k. AList.update k st) keys (dm_descriptors m)\<rparr>"

definition fetch_missing ::
  "lib \<Rightarrow> 'h hostcalls \<Rightarrow> descriptor_manager \<Rightarrow> 'h \<Rightarrow> (unit, string) result \<times> descriptor_manager \<times> 'h"
where
  "fetch_missing L H m h =
     (let missing = get_missing m in
      if missing = [] then (Ok (), m, h)
      else case dm_service m of
        None \<Rightarrow> (Err ''descriptor service not configured'', m, h)
      | Some descriptor_service \<Rightarrow>
          (case encode_descriptors_request L (map (\<lambda>k. (dk_cluster k, dk_service k)) missing) of
             Err _ \<Rightarrow> (Err ''could not encode descriptor request'', m, h)
           | Ok request_bytes \<Rightarrow>
               (case hc_dispatch_grpc_call H descriptor_service ''kuadrant.v1.DescriptorService''
                       ''GetServiceDescriptors'' [] request_bytes DESCRIPTOR_FETCH_TIMEOUT h of
                  (Err _, h') \<Rightarrow> (Err ''could not dispatch descriptor fetch'', m, h')
                | (Ok token, h') \<Rightarrow> (Ok (), set_states (Pending_desc token) missing m, h'))))"

definition reset_pending :: "u32 \<Rightarrow> descriptor_manager \<Rightarrow> descriptor_manager" where
  "reset_pending token_id m =
     m\<lparr>dm_descriptors :=
         map (\<lambda>(k, state). (k, if state = Pending_desc token_id then Missing else state)) (dm_descriptors m)\<rparr>"

text \<open>What the closure of \<^verbatim>\<open>handle_response\<close> does with one descriptor: the manager, and the
  error if there is one.\<close>

definition handle_descriptor ::
  "lib \<Rightarrow> string \<times> string \<times> bytes \<Rightarrow> descriptor_manager \<Rightarrow> descriptor_manager \<times> string option"
where
  "handle_descriptor L d m =
     (case d of (cluster, service, fds_bytes) \<Rightarrow>
        (case pool_of_fds L fds_bytes of
           Err _ \<Rightarrow> (m, Some ''could not build DescriptorPool'')
         | Ok p \<Rightarrow>
             if map_of (pool_services p) service \<noteq> None
             then (insert_pool_from_bytes L (DescriptorKey cluster service) fds_bytes p m, None)
             else (m, Some ''DescriptorPool does not contain service'')))"

fun handle_descriptors ::
  "lib \<Rightarrow> (string \<times> string \<times> bytes) list \<Rightarrow> descriptor_manager \<Rightarrow> descriptor_manager \<times> string list"
where
  "handle_descriptors L [] m = (m, [])"
| "handle_descriptors L (d # ds) m =
     (case handle_descriptor L d m of
        (m', err) \<Rightarrow>
          (case handle_descriptors L ds m' of
             (m'', errs) \<Rightarrow> (m'', (case err of Some e \<Rightarrow> [e] | None \<Rightarrow> []) @ errs)))"

definition handle_response ::
  "lib \<Rightarrow> u32 \<Rightarrow> bytes \<Rightarrow> descriptor_manager \<Rightarrow> (unit, string) result \<times> descriptor_manager"
where
  "handle_response L token_id response_bytes m =
     (if \<not> list_ex (\<lambda>(_, state). state = Pending_desc token_id) (dm_descriptors m)
      then (Err ''Received descriptor response for unknown token'', m)
      else case decode_descriptors_response L response_bytes of
        Err _ \<Rightarrow> (Err ''could not decode descriptor response'', m)
      | Ok ds \<Rightarrow>
          (case handle_descriptors L ds m of
             (m', errors) \<Rightarrow>
               (if errors \<noteq> [] then Err ''Failed to process descriptor(s)'' else Ok (), m')))"


section \<open>The life of a manager\<close>

text \<open>What the root context does with its manager: expect services and name the descriptor
  service when a configuration is compiled, fetch what is missing on a tick, and on the answer
  to a call handle it (when its status is good) and then free the entries that still wait.\<close>

inductive dm_step ::
  "lib \<Rightarrow> 'h hostcalls \<Rightarrow> descriptor_manager \<times> 'h \<Rightarrow> descriptor_manager \<times> 'h \<Rightarrow> bool"
  for L :: lib and H :: "'h hostcalls"
where
  expect: "dm_step L H (m, h) (add_expected k m, h)"
| service: "dm_step L H (m, h) (set_descriptor_service s m, h)"
| fetch: "fetch_missing L H m h = (r, m', h') \<Longrightarrow> dm_step L H (m, h) (m', h')"
| response: "handle_response L t bs m = (r, m') \<Longrightarrow> dm_step L H (m, h) (reset_pending t m', h)"
| failure: "dm_step L H (m, h) (reset_pending t m, h)"

inductive_cases dm_stepE: "dm_step L H s s'"

abbreviation dm_reachable :: "lib \<Rightarrow> 'h hostcalls \<Rightarrow> 'h \<Rightarrow> descriptor_manager \<times> 'h \<Rightarrow> bool" where
  "dm_reachable L H h0 s \<equiv> (dm_step L H)\<^sup>*\<^sup>* (descriptor_manager_default L, h0) s"

fun state_hash :: "descriptor_state \<Rightarrow> u64 option" where
  "state_hash (Embedded h) = Some h"
| "state_hash (Resolved h) = Some h"
| "state_hash _ = None"

definition has_pool :: "descriptor_manager \<Rightarrow> u64 \<Rightarrow> bool" where
  "has_pool m h = (map_of (dm_pools m) h \<noteq> None)"

definition state_of :: "descriptor_manager \<Rightarrow> descriptor_key \<Rightarrow> descriptor_state option" where
  "state_of m = map_of (dm_descriptors m)"

definition pools_present :: "descriptor_manager \<Rightarrow> bool" where
  "pools_present m =
     ((\<forall>k h. Option.bind (state_of m k) state_hash = Some h \<longrightarrow> has_pool m h)
      \<and> (\<forall>s h. map_of (dm_embedded m) s = Some h \<longrightarrow> has_pool m h))"

definition dm_ok :: "descriptor_manager \<Rightarrow> bool" where
  "dm_ok m = (distinct (map fst (dm_descriptors m)) \<and> pools_present m)"

definition available :: "descriptor_manager \<Rightarrow> descriptor_key \<Rightarrow> bool" where
  "available m k = (Option.bind (state_of m k) state_hash \<noteq> None)"

text \<open>How one operation may change the manager: descriptions of services only move forward or
  back to \<open>Missing\<close>, pools and the embedded table are never lost.\<close>

definition dm_forward :: "descriptor_manager \<Rightarrow> descriptor_manager \<Rightarrow> bool" where
  "dm_forward m m' =
     ((\<forall>h. has_pool m h \<longrightarrow> map_of (dm_pools m') h = map_of (dm_pools m) h)
      \<and> dm_embedded m' = dm_embedded m
      \<and> (\<forall>k h. state_of m k = Some (Embedded h) \<longrightarrow> state_of m' k = Some (Embedded h))
      \<and> (\<forall>k. available m k \<longrightarrow> available m' k))"

lemma dm_forward_refl [simp]: "dm_forward m m" by (simp add: dm_forward_def)

lemma dm_forward_trans: "dm_forward a b \<Longrightarrow> dm_forward b c \<Longrightarrow> dm_forward a c"
  by (simp add: dm_forward_def has_pool_def)

lemma dm_ok_default: "dm_ok (descriptor_manager_default L)"
  by (auto simp: descriptor_manager_default_def dm_ok_def pools_present_def state_of_def
      register_embedded_def has_pool_def Let_def split: result.splits if_splits)

lemma state_of_add_expected:
  "state_of (add_expected k m) =
     (if state_of m k = None
      then (state_of m)(k \<mapsto> (case map_of (dm_embedded m) (dk_service k) of Some h \<Rightarrow> Embedded h | None \<Rightarrow> Missing))
      else state_of m)"
  "dm_pools (add_expected k m) = dm_pools m" "dm_embedded (add_expected k m) = dm_embedded m"
  by (simp_all add: add_expected_def state_of_def Let_def)

lemma add_expected_ok:
  assumes "dm_ok m"
  shows "dm_ok (add_expected k m) \<and> dm_forward m (add_expected k m)"
proof -
  have "distinct (map fst (dm_descriptors (add_expected k m)))"
    using assms by (simp add: add_expected_def dm_ok_def Let_def distinct_or_insert)
  moreover have "pools_present (add_expected k m)"
    using assms by (auto simp: dm_ok_def pools_present_def has_pool_def state_of_add_expected
        split: option.splits)
  moreover have "dm_forward m (add_expected k m)"
    by (auto simp: dm_forward_def state_of_add_expected available_def)
  ultimately show ?thesis by (simp add: dm_ok_def)
qed

lemma set_descriptor_service_ok:
  "dm_ok m \<Longrightarrow> dm_ok (set_descriptor_service s m) \<and> dm_forward m (set_descriptor_service s m)"
  by (simp add: set_descriptor_service_def dm_ok_def dm_forward_def pools_present_def has_pool_def
      state_of_def available_def)

lemma insert_pool_lookup:
  "state_of (insert_pool_from_bytes L k bs p m) =
     (if \<exists>h. state_of m k = Some (Embedded h) then state_of m
      else (state_of m)(k \<mapsto> Resolved (hash_bytes L bs)))"
  "map_of (dm_pools (insert_pool_from_bytes L k bs p m)) =
     (if \<exists>h. state_of m k = Some (Embedded h) then map_of (dm_pools m)
      else if has_pool m (hash_bytes L bs) then map_of (dm_pools m)
      else (map_of (dm_pools m))(hash_bytes L bs \<mapsto> p))"
  "dm_embedded (insert_pool_from_bytes L k bs p m) = dm_embedded m"
  by (auto simp: insert_pool_from_bytes_def state_of_def Let_def has_pool_def
      split: option.splits descriptor_state.splits)

lemma insert_pool_ok:
  assumes "dm_ok m"
  shows "dm_ok (insert_pool_from_bytes L k bs p m) \<and> dm_forward m (insert_pool_from_bytes L k bs p m)"
proof -
  let ?m = "insert_pool_from_bytes L k bs p m"
  have "distinct (map fst (dm_descriptors ?m))"
    using assms by (simp add: insert_pool_from_bytes_def dm_ok_def Let_def distinct_update
        split: option.splits descriptor_state.splits)
  moreover have "pools_present ?m"
    using assms by (auto simp: dm_ok_def pools_present_def has_pool_def insert_pool_lookup split: if_splits)
  moreover have "dm_forward m ?m"
    by (auto simp: dm_forward_def insert_pool_lookup available_def has_pool_def)
  ultimately show ?thesis by (simp add: dm_ok_def)
qed

lemma handle_descriptors_ok:
  "dm_ok m \<Longrightarrow> handle_descriptors L ds m = (m', errs) \<Longrightarrow> dm_ok m' \<and> dm_forward m m'"
proof (induction L ds m arbitrary: m' errs rule: handle_descriptors.induct)
  case (2 L d ds m)
  obtain m1 err where d: "handle_descriptor L d m = (m1, err)" by force
  then have "dm_ok m1 \<and> dm_forward m m1"
    using "2.prems"(1) insert_pool_ok
    by (auto simp: handle_descriptor_def split: prod.splits result.splits if_splits)
  with 2 d show ?case by (auto split: prod.splits intro: dm_forward_trans)
qed simp

lemma handle_response_ok:
  "dm_ok m \<Longrightarrow> handle_response L t bs m = (r, m') \<Longrightarrow> dm_ok m' \<and> dm_forward m m'"
  by (auto simp: handle_response_def split: if_splits result.splits prod.splits
      dest: handle_descriptors_ok)

lemma state_of_reset:
  "state_of (reset_pending t m) k =
     map_option (\<lambda>s. if s = Pending_desc t then Missing else s) (state_of m k)"
  by (simp add: state_of_def reset_pending_def map_of_map)

lemma reset_pending_ok: "dm_ok m \<Longrightarrow> dm_ok (reset_pending t m) \<and> dm_forward m (reset_pending t m)"
proof -
  assume ok: "dm_ok m"
  have "map fst (dm_descriptors (reset_pending t m)) = map fst (dm_descriptors m)"
    by (auto simp: reset_pending_def)
  moreover have "Option.bind (state_of (reset_pending t m) k) state_hash = Option.bind (state_of m k) state_hash" for k
    by (cases "state_of m k") (auto simp: state_of_reset)
  moreover have "dm_pools (reset_pending t m) = dm_pools m" "dm_embedded (reset_pending t m) = dm_embedded m"
    by (simp_all add: reset_pending_def)
  ultimately show ?thesis
    using ok by (simp add: dm_ok_def dm_forward_def pools_present_def available_def has_pool_def state_of_reset)
qed

lemma set_states_lookup:
  "map_of (fold (\<lambda>k. AList.update k st) keys d) k = (if k \<in> set keys then Some st else map_of d k)"
  by (induction keys arbitrary: d) auto

lemma distinct_set_states:
  "distinct (map fst d) \<Longrightarrow> distinct (map fst (fold (\<lambda>k. AList.update k st) keys d))"
  by (induction keys arbitrary: d) (auto simp: distinct_update)

lemma get_missing_iff: "dm_ok m \<Longrightarrow> k \<in> set (get_missing m) \<longleftrightarrow> state_of m k = Some Missing"
  by (auto simp: get_missing_def state_of_def dm_ok_def image_iff)

lemma state_of_fetched:
  "dm_ok m \<Longrightarrow> state_of (set_states (Pending_desc t) (get_missing m) m) k =
     (if state_of m k = Some Missing then Some (Pending_desc t) else state_of m k)"
  using get_missing_iff [of m k] by (simp add: state_of_def set_states_def set_states_lookup)

lemma fetched_ok:
  assumes "dm_ok m"
  shows "dm_ok (set_states (Pending_desc t) (get_missing m) m)
         \<and> dm_forward m (set_states (Pending_desc t) (get_missing m) m)"
proof -
  let ?m = "set_states (Pending_desc t) (get_missing m) m"
  have st: "state_of ?m k = (if state_of m k = Some Missing then Some (Pending_desc t) else state_of m k)" for k
    by (rule state_of_fetched [OF assms])
  have same: "dm_pools ?m = dm_pools m" "dm_embedded ?m = dm_embedded m"
    by (simp_all add: set_states_def)
  have "distinct (map fst (dm_descriptors ?m))"
    using assms by (simp add: set_states_def dm_ok_def distinct_set_states)
  then have "dm_ok ?m"
    using assms st same by (auto simp: dm_ok_def pools_present_def has_pool_def split: if_splits)
  then show ?thesis by (auto simp: dm_forward_def available_def has_pool_def st same)
qed

lemma fetch_missing_ok:
  "dm_ok m \<Longrightarrow> fetch_missing L H m h = (r, m', h') \<Longrightarrow> dm_ok m' \<and> dm_forward m m'"
  by (auto simp: fetch_missing_def Let_def fetched_ok
      split: if_splits option.splits result.splits prod.splits)

lemma dm_step_ok: "dm_step L H s s' \<Longrightarrow> dm_ok (fst s) \<Longrightarrow> dm_ok (fst s') \<and> dm_forward (fst s) (fst s')"
proof (induction rule: dm_step.induct)
  case (response t bs m r m' h)
  with handle_response_ok [of m L t bs r m'] reset_pending_ok [of m' t] show ?case
    by (auto intro: dm_forward_trans)
qed (auto simp: add_expected_ok set_descriptor_service_ok reset_pending_ok dest: fetch_missing_ok)

interpretation manager: progress_system "dm_step L H" "\<lambda>s. dm_ok (fst s)" "\<lambda>s s'. dm_forward (fst s) (fst s')"
  for L :: lib and H :: "'h hostcalls"
  by unfold_locales (auto dest: dm_step_ok intro: dm_forward_trans)

lemmas dm_steps_ok = manager.run_progress

lemma get_pool_available:
  assumes "dm_ok m"
  shows "is_ok (get_pool m c s) \<longleftrightarrow> available m (DescriptorKey c s)"
proof (cases "state_of m (DescriptorKey c s)")
  case None
  then show ?thesis by (simp add: get_pool_def ok_or_def available_def state_of_def)
next
  case (Some st)
  have "has_pool m h" if "state_hash st = Some h" for h
  proof -
    have "Option.bind (state_of m (DescriptorKey c s)) state_hash = Some h" using Some that by simp
    with assms show ?thesis unfolding dm_ok_def pools_present_def by blast
  qed
  with Some show ?thesis
    by (cases st) (auto simp: get_pool_def ok_or_def available_def state_of_def has_pool_def)
qed

section \<open>Properties\<close>

text \<open>From the start of the VM on, the descriptors of a service can be had exactly when the
  service is embedded or resolved, and once they can be had they can be had for ever: neither a
  failed fetch, nor a response, nor a new configuration takes them away.\<close>

theorem descriptor_pools_monotone:
  assumes "dm_reachable L H h0 (m, h)" and "(dm_step L H)\<^sup>*\<^sup>* (m, h) (m', h')"
  shows "(is_ok (get_pool m c s) \<longleftrightarrow> available m (DescriptorKey c s))
         \<and> (is_ok (get_pool m c s) \<longrightarrow> is_ok (get_pool m' c s))"
proof -
  from dm_steps_ok [OF assms(1)] have ok: "dm_ok m" by (simp add: dm_ok_default)
  from dm_steps_ok [OF assms(2)] ok have "dm_ok m'" "dm_forward m m'" by simp_all
  with ok show ?thesis by (simp add: get_pool_available dm_forward_def)
qed


text \<open>A host that answers every dispatch with token 7.\<close>

definition demo_host :: "unit hostcalls" where
  "demo_host = \<lparr>hc_get_property = (\<lambda>_ _. Ok None), hc_get_map = (\<lambda>_ _. Ok []),
     hc_get_map_value = (\<lambda>_ _ _. Ok None), hc_set_property = (\<lambda>_ _ h. (Ok (), h)),
     hc_set_map = (\<lambda>_ _ h. (Ok (), h)), hc_get_buffer = (\<lambda>_ _ _ _. Ok (Some [])),
     hc_dispatch_grpc_call = (\<lambda>_ _ _ _ _ _ h. (Ok 7, h)),
     hc_send_http_response = (\<lambda>_ _ _ h. (Ok (), h)), hc_increment_metric = (\<lambda>_ _ h. h),
     hc_define_metric = (\<lambda>_. Ok 0), hc_resume_http_request = id, hc_resume_http_response = id,
     hc_set_tick_period = (\<lambda>_ h. (Ok (), h)), hc_random_uuid = (\<lambda>_. ''uuid''),
     hc_span_enabled = (\<lambda>_. False), hc_enter_span = (\<lambda>_ h. h), hc_exit_span = (\<lambda>h. ([], h)),
     hc_current_span = (\<lambda>_. Otel_context 0),
     hc_get_log_level = (\<lambda>_. Ok Level_Info)\<rparr>"

definition demo_manager :: descriptor_manager where
  "demo_manager = set_descriptor_service ''descriptors''
     (add_expected (DescriptorKey ''cluster'' ''svc'') (descriptor_manager_default (demo_lib EUnspecified)))"

lemma demo_manager_reachable: "dm_reachable (demo_lib EUnspecified) demo_host () (demo_manager, ())"
  unfolding demo_manager_def
  by (meson dm_step.expect dm_step.service rtranclp.rtrancl_into_rtrancl rtranclp.rtrancl_refl)

lemma demo_manager_missing: "get_missing demo_manager = [DescriptorKey ''cluster'' ''svc'']"
  by (simp add: demo_manager_def descriptor_manager_default_def demo_lib_def register_embedded_def
      Let_def set_descriptor_service_def add_expected_def get_missing_def or_insert_def
      RATELIMIT_SERVICE_def KUADRANT_RATELIMIT_SERVICE_def AUTH_SERVICE_def)

lemma demo_fetch:
  "fetch_missing (demo_lib EUnspecified) demo_host demo_manager () =
     (Ok (), set_states (Pending_desc 7) (get_missing demo_manager) demo_manager, ())"
proof -
  have "dm_service demo_manager = Some ''descriptors''"
    by (simp add: demo_manager_def set_descriptor_service_def)
  then show ?thesis
    by (simp add: fetch_missing_def demo_manager_missing Let_def)
       (simp add: demo_lib_def demo_host_def)
qed


theorem descriptor_pools_monotone_witness:
  "is_ok (get_pool (reset_pending 7 (set_states (Pending_desc 7) (get_missing demo_manager) demo_manager)) ''c'' ''s'')
     \<longleftrightarrow> available (reset_pending 7 (set_states (Pending_desc 7) (get_missing demo_manager) demo_manager)) (DescriptorKey ''c'' ''s'')"
proof -
  from demo_fetch have "dm_reachable (demo_lib EUnspecified) demo_host ()
      (reset_pending 7 (set_states (Pending_desc 7) (get_missing demo_manager) demo_manager), ())"
    using demo_manager_reachable
    by (meson dm_step.fetch dm_step.failure rtranclp.rtrancl_into_rtrancl)
  from descriptor_pools_monotone [OF this rtranclp.rtrancl_refl] show ?thesis by blast
qed

end
