(* ===== verification/Span_Processor.thy ===== *)
theory Span_Processor
  imports Headers
begin

text \<open>
  \<^verbatim>\<open>src/tracing/processor.rs\<close>: the buffer of finished spans (a \<^verbatim>\<open>VecDeque\<close> behind a mutex whose
  poisoning the code ignores) and \<^verbatim>\<open>src/tracing/propagation.rs\<close>: the header extractor and injector.
\<close>

record 's span_processor =
  sp_buffer :: "'s list"
  sp_max_buffer_size :: nat

definition with_capacity :: "nat \<Rightarrow> 's span_processor" where
  "with_capacity n = \<lparr>sp_buffer = [], sp_max_buffer_size = n\<rparr>"

definition span_processor_new :: "'s span_processor" where
  "span_processor_new = with_capacity 100"

definition take_pending_spans :: "'s span_processor \<Rightarrow> 's list \<times> 's span_processor" where
  "take_pending_spans p = (sp_buffer p, p\<lparr>sp_buffer := []\<rparr>)"

definition pending_count :: "'s span_processor \<Rightarrow> nat" where
  "pending_count p = length (sp_buffer p)"

definition has_pending_spans :: "'s span_processor \<Rightarrow> bool" where
  "has_pending_spans p = (sp_buffer p \<noteq> [])"

definition span_processor_clear :: "'s span_processor \<Rightarrow> 's span_processor" where
  "span_processor_clear p = p\<lparr>sp_buffer := []\<rparr>"

definition on_end :: "'s \<Rightarrow> 's span_processor \<Rightarrow> 's span_processor" where
  "on_end span p =
     (let buffer = (if length (sp_buffer p) \<ge> sp_max_buffer_size p then tl (sp_buffer p) else sp_buffer p)
      in p\<lparr>sp_buffer := buffer @ [span]\<rparr>)"

definition shutdown :: "'s span_processor \<Rightarrow> 's span_processor" where
  "shutdown p = span_processor_clear p"

definition extractor_new :: "headers \<Rightarrow> (string \<times> string) list" where
  "extractor_new hs = headers_to_hash_map hs"

definition extractor_get :: "(string \<times> string) list \<Rightarrow> string \<Rightarrow> string option" where
  "extractor_get m key = map_of m key"

definition extractor_keys :: "(string \<times> string) list \<Rightarrow> string list" where
  "extractor_keys m = map fst m"

text \<open>\<^verbatim>\<open>Injector::set\<close>: empty values are not sent.\<close>

definition injector_set :: "string \<Rightarrow> string \<Rightarrow> (string \<times> bytes) list \<Rightarrow> (string \<times> bytes) list" where
  "injector_set key val hs = (if val \<noteq> [] then hs @ [(key, val)] else hs)"

section \<open>Properties\<close>

lemma on_end_buffer:
  "sp_buffer (on_end s p) =
     (if length (sp_buffer p) \<ge> sp_max_buffer_size p then tl (sp_buffer p) else sp_buffer p) @ [s]"
  "sp_max_buffer_size (on_end s p) = sp_max_buffer_size p"
  by (simp_all add: on_end_def Let_def)

lemma fold_on_end:
  "sp_buffer (fold on_end spans (with_capacity n)) = drop (length spans - max 1 n) spans
   \<and> sp_max_buffer_size (fold on_end spans (with_capacity n)) = n"
proof (induction spans rule: rev_induct)
  case (snoc s spans)
  let ?p = "fold on_end spans (with_capacity n)"
  from snoc have b: "sp_buffer ?p = drop (length spans - max 1 n) spans"
    and m: "sp_max_buffer_size ?p = n" by simp_all
  show ?case
  proof (cases "length spans < max 1 n")
    case True
    then have "sp_buffer ?p = spans" using b by simp
    with True m show ?thesis by (cases spans) (auto simp: on_end_buffer)
  next
    case False
    then have len: "length (sp_buffer ?p) = max 1 n" using b by simp
    have "tl (sp_buffer ?p) = drop (Suc (length spans) - max 1 n) spans"
    proof -
      have "Suc (length spans) - max 1 n = Suc (length spans - max 1 n)" using False by linarith
      then show ?thesis using b by (simp add: drop_Suc tl_drop)
    qed
    with False m len show ?thesis by (simp add: on_end_buffer)
  qed
qed (simp add: with_capacity_def)

text \<open>C40: whatever spans end, the buffer holds the most recent ones, oldest first, at most as
  many as its capacity (and one even when the capacity is 0); taking them empties it.\<close>

theorem span_buffer_keeps_latest:
  "sp_buffer (fold on_end spans (with_capacity n)) = drop (length spans - max 1 n) spans
   \<and> take_pending_spans (fold on_end spans (with_capacity n))
       = (drop (length spans - max 1 n) spans, with_capacity n)"
  using fold_on_end [of spans n] by (simp add: take_pending_spans_def with_capacity_def)

end
