(* ===== verification/Observability.thy ===== *)
theory Observability
  imports Host
begin

text \<open>
  \<^verbatim>\<open>src/tracing/mod.rs\<close> and \<^verbatim>\<open>src/tracing/log_layer.rs\<close>: which spans are exported, which events are
  logged and as what.  The two
  \<^verbatim>\<open>OnceLock\<close>s with the handles of the filters are a record; a filter a handle was never set for is
  \<open>None\<close>.  Reloading a filter succeeds: it fails only when the subscriber is gone, and the global
  one stays for the life of the module.
\<close>

datatype level_filter = LF_OFF | LF_ERROR | LF_WARN | LF_INFO | LF_DEBUG | LF_TRACE

record filter_handles =
  otel_filter_handle :: "level_filter option option"
  log_filter_handle :: "level_filter option"

definition no_handles :: filter_handles where
  "no_handles = \<lparr>otel_filter_handle = None, log_filter_handle = None\<rparr>"

definition proxy_log_level_to_filter :: "log_level \<Rightarrow> level_filter" where
  "proxy_log_level_to_filter level =
     (case level of
        Level_Trace \<Rightarrow> LF_TRACE
      | Level_Debug \<Rightarrow> LF_DEBUG
      | Level_Info \<Rightarrow> LF_INFO
      | Level_Warn \<Rightarrow> LF_WARN
      | Level_Error \<Rightarrow> LF_ERROR
      | Level_Critical \<Rightarrow> LF_ERROR)"

definition update_log_level :: "'h hostcalls \<Rightarrow> 'h \<Rightarrow> filter_handles \<Rightarrow> filter_handles" where
  "update_log_level H h s =
     (case log_filter_handle s of
        None \<Rightarrow> s
      | Some _ \<Rightarrow>
          (case hc_get_log_level H h of
             Ok level \<Rightarrow> s\<lparr>log_filter_handle := Some (proxy_log_level_to_filter level)\<rparr>
           | Err _ \<Rightarrow> s))"

text \<open>The level of the spans that are exported.\<close>

definition otel_level :: "string option \<Rightarrow> level_filter" where
  "otel_level level =
     (if level = Some ''TRACE'' then LF_TRACE
      else if level = Some ''DEBUG'' then LF_DEBUG
      else if level = Some ''INFO'' then LF_INFO
      else if level = Some ''WARN'' then LF_WARN
      else if level = Some ''ERROR'' then LF_ERROR
      else if level = Some ''OFF'' then LF_OFF
      else LF_WARN)"

definition init_observability ::
  "'h hostcalls \<Rightarrow> bool \<Rightarrow> string option \<Rightarrow> 'h \<Rightarrow> filter_handles \<Rightarrow> filter_handles"
where
  "init_observability H use_tracing level h s =
     (let otel_filter = (if use_tracing then Some (otel_level level) else None) in
      case otel_filter_handle s of
        Some _ \<Rightarrow> update_log_level H h (s\<lparr>otel_filter_handle := Some otel_filter\<rparr>)
      | None \<Rightarrow>
          s\<lparr>otel_filter_handle := Some otel_filter,
            log_filter_handle := Some (case hc_get_log_level H h of
                Ok level \<Rightarrow> proxy_log_level_to_filter level
              | Err _ \<Rightarrow> LF_WARN)\<rparr>)"

section \<open>Filters over time\<close>

text \<open>The two handles are set together.\<close>

definition handles_ok :: "filter_handles \<Rightarrow> bool" where
  "handles_ok s \<longleftrightarrow> (otel_filter_handle s = None) = (log_filter_handle s = None)"

lemma no_handles_ok [simp]: "handles_ok no_handles"
  by (simp add: handles_ok_def no_handles_def)

lemma update_log_level_handles [simp]:
  "otel_filter_handle (update_log_level H h s) = otel_filter_handle s"
  "handles_ok s \<Longrightarrow> handles_ok (update_log_level H h s)"
  by (auto simp: update_log_level_def handles_ok_def split: option.split result.split)

lemma init_observability_handles:
  "handles_ok s \<Longrightarrow> handles_ok (init_observability H b level h s)"
  "otel_filter_handle (init_observability H b level h s) = Some (if b then Some (otel_level level) else None)"
  by (auto simp: init_observability_def update_log_level_def handles_ok_def Let_def split: option.split result.split)

text \<open>Once the filters are installed the host's level decides what is logged, and what it was
  before does while the host does not tell.\<close>

lemma log_filter_follows_host:
  assumes "handles_ok s"
  shows "log_filter_handle (init_observability H b level h s) =
      Some (case hc_get_log_level H h of
              Ok l \<Rightarrow> proxy_log_level_to_filter l
            | Err _ \<Rightarrow> (case log_filter_handle s of Some f \<Rightarrow> f | None \<Rightarrow> LF_WARN))"
  using assms
  by (auto simp: init_observability_def update_log_level_def handles_ok_def Let_def split: option.split result.split)

section \<open>What is logged of an event\<close>

text \<open>An event of the \<^verbatim>\<open>tracing\<close> library has a level and fields, each with the text its value is
  printed as.\<close>

datatype trace_level = TL_ERROR | TL_WARN | TL_INFO | TL_DEBUG | TL_TRACE

record trace_event =
  te_level :: trace_level
  te_fields :: "(string \<times> string) list"

definition message_visitor_record :: "string \<times> string \<Rightarrow> string \<Rightarrow> string" where
  "message_visitor_record field visitor = (if fst field = ''message'' then snd field else visitor)"

definition log_layer_on_event :: "trace_event \<Rightarrow> log_level \<times> string" where
  "log_layer_on_event e =
     (let message = fold message_visitor_record (te_fields e) [] in
      case te_level e of
        TL_ERROR \<Rightarrow> (Level_Error, message)
      | TL_WARN \<Rightarrow> (Level_Warn, message)
      | TL_INFO \<Rightarrow> (Level_Info, message)
      | TL_DEBUG \<Rightarrow> (Level_Debug, message)
      | TL_TRACE \<Rightarrow> (Level_Trace, message))"

text \<open>The line logged is the last \<^verbatim>\<open>message\<close> field; the other fields are lost, and an event with no
  message logs an empty line.\<close>

lemma log_layer_message:
  "snd (log_layer_on_event e) =
     (case filter (\<lambda>(name, _). name = ''message'') (te_fields e) of [] \<Rightarrow> [] | x # xs \<Rightarrow> snd (last (x # xs)))"
proof -
  have "fold message_visitor_record fs v =
      (case filter (\<lambda>(name, _). name = ''message'') fs of [] \<Rightarrow> v | x # xs \<Rightarrow> snd (last (x # xs)))" for fs v
    by (induction fs arbitrary: v) (auto simp: message_visitor_record_def split: list.split)
  then show ?thesis by (simp add: log_layer_on_event_def Let_def split: trace_level.split)
qed

end
