(* ===== verification/Context.thy ===== *)
theory Context
  imports Cache Descriptors Span_Processor Observability
begin

text \<open>
  \<^verbatim>\<open>src/kuadrant/context.rs\<close>: \<^verbatim>\<open>ReqRespCtx\<close>, the state of one request.  Its methods take
  \<^verbatim>\<open>&self\<close> and change the cache and the request id behind it, so here they return the context.
  What the program reaches from a context through shared references, the host, the descriptor
  manager, the CEL environments the services have built, the span buffer and the filters of spans
  and events, is the record \<open>world\<close> in the field \<open>backend\<close>.
\<close>

record 'h world =
  w_host :: 'h
  w_descriptors :: descriptor_manager
  w_cel_envs :: "(nat \<times> cel_env) list"
  w_spans :: "span_data span_processor"
  w_filters :: filter_handles

record tracing_context =
  tc_otel_context :: otel_context
  tc_request_span_guard :: bool
  tc_action_set_name :: "string option"
  tc_hostname :: "string option"

record tracker =
  tr_id :: "string option"
  tr_downstream_identifier :: "string option"

datatype barrier = Barrier (count: u32)

type_synonym request_data = "(string \<times> string) \<times> expression"

record 'h req_resp_ctx =
  backend :: "'h world"
  cache :: attribute_cache
  request_data :: "request_data list option"
  request_body_size :: nat
  request_end_of_stream :: bool
  response_body_size :: nat
  response_end_of_stream :: bool
  grpc_response_data :: "(u32 \<times> nat) option"
  tracing :: tracing_context
  tracker :: tracker
  request_body_values :: "(string \<times> cel_value) list"
  response_body_values :: "(string \<times> cel_value) list"
  stored_values :: "(string \<times> cel_value) list"
  barrier :: barrier

abbreviation ctx_host :: "'h req_resp_ctx \<Rightarrow> 'h" where
  "ctx_host ctx \<equiv> w_host (backend ctx)"

definition set_host :: "'h \<Rightarrow> 'h req_resp_ctx \<Rightarrow> 'h req_resp_ctx" where
  "set_host h ctx = ctx\<lparr>backend := (backend ctx)\<lparr>w_host := h\<rparr>\<rparr>"

definition req_resp_ctx_new :: "'h world \<Rightarrow> 'h req_resp_ctx" where
  "req_resp_ctx_new w = \<lparr>backend = w, cache = attribute_cache_new, request_data = None,
     request_body_size = 0, request_end_of_stream = False,
     response_body_size = 0, response_end_of_stream = False,
     grpc_response_data = None,
     tracing = \<lparr>tc_otel_context = Otel_context 0, tc_request_span_guard = False,
                tc_action_set_name = None, tc_hostname = None\<rparr>,
     tracker = \<lparr>tr_id = None, tr_downstream_identifier = None\<rparr>,
     request_body_values = [], response_body_values = [], stored_values = [],
     barrier = Barrier 0\<rparr>"

definition with_request_data :: "request_data list \<Rightarrow> 'h req_resp_ctx \<Rightarrow> 'h req_resp_ctx" where
  "with_request_data d ctx = ctx\<lparr>request_data := Some d\<rparr>"

section \<open>Barrier\<close>

text \<open>\<^verbatim>\<open>+= 1\<close> on a \<^verbatim>\<open>u32\<close> wraps in the release profile the module is shipped in.\<close>

definition barrier_raise :: "barrier \<Rightarrow> barrier" where
  "barrier_raise b = Barrier (count b + 1)"

definition barrier_lower :: "barrier \<Rightarrow> barrier" where
  "barrier_lower b = (if count b = 0 then b else Barrier (count b - 1))"

definition is_tripped :: "barrier \<Rightarrow> bool" where
  "is_tripped b = (count b > 0)"

section \<open>Reading attributes\<close>

definition remote_address :: "'h hostcalls \<Rightarrow> 'h \<Rightarrow> (bytes option, attribute_error) result" where
  "remote_address H h =
     (case host_get_attribute H (path_from ''source.address'') h of
        Ok (Some host_vec) \<Rightarrow>
          if utf8_valid host_vec then Ok (Some (hd (split_on (CHR '':'') host_vec)))
          else Err (Parse ''source.address not valid UTF-8'')
      | Ok None \<Rightarrow> Ok None
      | Err e \<Rightarrow> Err e)"

definition fetch_attribute :: "'h hostcalls \<Rightarrow> path \<Rightarrow> 'h \<Rightarrow> (cached_value, attribute_error) result" where
  "fetch_attribute H p h =
     (if tokens p = [''request'', ''headers''] then
        (case host_get_attribute_map H HttpRequestHeaders h of
           Ok vec \<Rightarrow> Ok (Cached_Headers vec)
         | Err (NotAvailable msg) \<Rightarrow> Err (Retrieval msg)
         | Err e \<Rightarrow> Err e)
      else if tokens p = [''response'', ''headers''] then
        (case host_get_attribute_map H HttpResponseHeaders h of
           Ok vec \<Rightarrow> Ok (Cached_Headers vec)
         | Err e \<Rightarrow> Err e)
      else if tokens p = [''source'', ''remote_address''] then
        (case remote_address H h of Ok bs \<Rightarrow> Ok (Cached_Bytes bs) | Err e \<Rightarrow> Err e)
      else if tokens p \<noteq> [] \<and> hd (tokens p) = ''auth'' then
        (case host_get_attribute H (wasm_prop (tokens p)) h of
           Ok bs \<Rightarrow> Ok (Cached_Bytes bs) | Err e \<Rightarrow> Err e)
      else
        (case host_get_attribute H p h of Ok bs \<Rightarrow> Ok (Cached_Bytes bs) | Err e \<Rightarrow> Err e))"

definition get_attribute_ref ::
  "'h hostcalls \<Rightarrow> (cached_value \<Rightarrow> ('a option, attribute_error) result) \<Rightarrow> path \<Rightarrow> 'h req_resp_ctx
     \<Rightarrow> ('a option attribute_state, attribute_error) result \<times> 'h req_resp_ctx"
where
  "get_attribute_ref H conv p ctx =
     (case get_or_insert_with conv p (fetch_attribute H p (ctx_host ctx)) (cache ctx) of
        (r, c) \<Rightarrow> (r, ctx\<lparr>cache := c\<rparr>))"

definition get_attribute ::
  "'h hostcalls \<Rightarrow> (cached_value \<Rightarrow> ('a option, attribute_error) result) \<Rightarrow> string \<Rightarrow> 'h req_resp_ctx
     \<Rightarrow> ('a option attribute_state, attribute_error) result \<times> 'h req_resp_ctx"
where
  "get_attribute H conv p ctx = get_attribute_ref H conv (path_from p) ctx"

definition get_request_header :: "'h hostcalls \<Rightarrow> string \<Rightarrow> 'h req_resp_ctx \<Rightarrow> string option" where
  "get_request_header H key ctx =
     (case host_get_attribute_map_value H HttpRequestHeaders key (ctx_host ctx) of
        Ok v \<Rightarrow> v | Err _ \<Rightarrow> None)"

definition ensure_attribute :: "'h hostcalls \<Rightarrow> path \<Rightarrow> 'h req_resp_ctx \<Rightarrow> 'h req_resp_ctx" where
  "ensure_attribute H p ctx =
     ctx\<lparr>cache := snd (populate p (fetch_attribute H p (ctx_host ctx)) (cache ctx))\<rparr>"

definition ensure_attributes :: "'h hostcalls \<Rightarrow> path list \<Rightarrow> 'h req_resp_ctx \<Rightarrow> 'h req_resp_ctx" where
  "ensure_attributes H paths ctx = fold (ensure_attribute H) paths ctx"

section \<open>Writing attributes\<close>

definition store_attribute_bytes ::
  "'h hostcalls \<Rightarrow> path \<Rightarrow> bytes \<Rightarrow> 'h req_resp_ctx \<Rightarrow> (unit, attribute_error) result \<times> 'h req_resp_ctx"
where
  "store_attribute_bytes H p val ctx =
     (let escaped_path = join [backslash, dot] (tokens p);
          host_path = ''kuadrant'' @ [backslash, dot] @ escaped_path
      in (case host_set_attribute H (path_from host_path) val (ctx_host ctx) of
            (Err e, h) \<Rightarrow> (Err e, set_host h ctx)
          | (Ok _, h) \<Rightarrow>
              (case cache_insert p (Cached_Bytes (Some val)) (cache ctx) of
                 (r, c) \<Rightarrow> (r, (set_host h ctx)\<lparr>cache := c\<rparr>))))"

definition store_attribute_headers ::
  "'h hostcalls \<Rightarrow> path \<Rightarrow> headers \<Rightarrow> 'h req_resp_ctx \<Rightarrow> (unit, attribute_error) result \<times> 'h req_resp_ctx"
where
  "store_attribute_headers H p val ctx =
     (if tokens p = [''request'', ''headers''] then
        (case host_set_attribute_map H HttpRequestHeaders val (ctx_host ctx) of
           (Ok _, h) \<Rightarrow>
             (case cache_insert p (Cached_Headers val) (cache ctx) of
                (r, c) \<Rightarrow> (r, (set_host h ctx)\<lparr>cache := c\<rparr>))
         | (Err (NotAvailable msg), h) \<Rightarrow> (Err (Set_err msg), set_host h ctx)
         | (Err e, h) \<Rightarrow> (Err e, set_host h ctx))
      else if tokens p = [''response'', ''headers''] then
        (case host_set_attribute_map H HttpResponseHeaders val (ctx_host ctx) of
           (Ok _, h) \<Rightarrow>
             (case cache_insert p (Cached_Headers val) (cache ctx) of
                (r, c) \<Rightarrow> (r, (set_host h ctx)\<lparr>cache := c\<rparr>))
         | (Err e, h) \<Rightarrow> (Err e, set_host h ctx))
      else (Err (Set_err ''Headers can only be set on request.headers or response.headers''), ctx))"

definition as_state :: "(unit, attribute_error) result \<Rightarrow> (unit attribute_state, attribute_error) result" where
  "as_state r = (case r of Ok _ \<Rightarrow> Ok (Available ()) | Err (NotAvailable _) \<Rightarrow> Ok Pending | Err e \<Rightarrow> Err e)"

definition set_attribute ::
  "'h hostcalls \<Rightarrow> string \<Rightarrow> bytes \<Rightarrow> 'h req_resp_ctx
     \<Rightarrow> (unit attribute_state, attribute_error) result \<times> 'h req_resp_ctx"
where
  "set_attribute H attribute_path val ctx =
     (case store_attribute_bytes H (path_from attribute_path) val ctx of (r, ctx') \<Rightarrow> (as_state r, ctx'))"

definition set_attribute_map ::
  "'h hostcalls \<Rightarrow> path \<Rightarrow> headers \<Rightarrow> 'h req_resp_ctx
     \<Rightarrow> (unit attribute_state, attribute_error) result \<times> 'h req_resp_ctx"
where
  "set_attribute_map H p val ctx =
     (case store_attribute_headers H p val ctx of (r, ctx') \<Rightarrow> (as_state r, ctx'))"

section \<open>Body sizes, gRPC response slot, body values, stored values\<close>

definition set_current_request_body_buffer_size :: "nat \<Rightarrow> bool \<Rightarrow> 'h req_resp_ctx \<Rightarrow> 'h req_resp_ctx" where
  "set_current_request_body_buffer_size body_size end_of_stream ctx =
     ctx\<lparr>request_body_size := body_size, request_end_of_stream := end_of_stream\<rparr>"

definition set_current_response_body_buffer_size :: "nat \<Rightarrow> bool \<Rightarrow> 'h req_resp_ctx \<Rightarrow> 'h req_resp_ctx" where
  "set_current_response_body_buffer_size body_size end_of_stream ctx =
     ctx\<lparr>response_body_size := body_size, response_end_of_stream := end_of_stream\<rparr>"

definition set_grpc_response_data ::
  "u32 \<Rightarrow> nat \<Rightarrow> 'h req_resp_ctx \<Rightarrow> (unit, service_error) result \<times> 'h req_resp_ctx"
where
  "set_grpc_response_data status_code response_size ctx =
     (if grpc_response_data ctx \<noteq> None
      then (Err (Service_Retrieval ''gRPC response data already set''), ctx)
      else (Ok (), ctx\<lparr>grpc_response_data := Some (status_code, response_size)\<rparr>))"

definition get_grpc_response_data ::
  "'h req_resp_ctx \<Rightarrow> (u32 \<times> nat, service_error) result \<times> 'h req_resp_ctx"
where
  "get_grpc_response_data ctx =
     (ok_or (Service_Retrieval ''No gRPC response data available'') (grpc_response_data ctx),
      ctx\<lparr>grpc_response_data := None\<rparr>)"

definition is_end_of_stream :: "'h req_resp_ctx \<Rightarrow> bool" where
  "is_end_of_stream ctx = response_end_of_stream ctx"

definition get_http_response_body ::
  "'h hostcalls \<Rightarrow> nat \<Rightarrow> nat \<Rightarrow> 'h req_resp_ctx \<Rightarrow> (bytes option attribute_state, attribute_error) result"
where
  "get_http_response_body H start body_size ctx =
     (case host_get_http_response_body H start body_size (ctx_host ctx) of
        Ok maybe_bytes \<Rightarrow> Ok (Available maybe_bytes)
      | Err (NotAvailable _) \<Rightarrow> Ok Pending
      | Err e \<Rightarrow> Err e)"

definition set_request_body_value :: "string \<Rightarrow> cel_value \<Rightarrow> 'h req_resp_ctx \<Rightarrow> 'h req_resp_ctx" where
  "set_request_body_value k v ctx = ctx\<lparr>request_body_values := AList.update k v (request_body_values ctx)\<rparr>"

definition get_request_body_value :: "'h req_resp_ctx \<Rightarrow> string \<Rightarrow> cel_value option" where
  "get_request_body_value ctx k = map_of (request_body_values ctx) k"

definition set_response_body_value :: "string \<Rightarrow> cel_value \<Rightarrow> 'h req_resp_ctx \<Rightarrow> 'h req_resp_ctx" where
  "set_response_body_value k v ctx = ctx\<lparr>response_body_values := AList.update k v (response_body_values ctx)\<rparr>"

definition get_response_body_value :: "'h req_resp_ctx \<Rightarrow> string \<Rightarrow> cel_value option" where
  "get_response_body_value ctx k = map_of (response_body_values ctx) k"

definition store_value :: "string \<Rightarrow> cel_value \<Rightarrow> 'h req_resp_ctx \<Rightarrow> 'h req_resp_ctx" where
  "store_value p v ctx = ctx\<lparr>stored_values := bt_insert p v (stored_values ctx)\<rparr>"

definition get_stored_value :: "'h req_resp_ctx \<Rightarrow> string \<Rightarrow> cel_value option" where
  "get_stored_value ctx p = map_of (stored_values ctx) p"

definition stored_value_paths :: "'h req_resp_ctx \<Rightarrow> string list" where
  "stored_value_paths ctx = map fst (stored_values ctx)"

text \<open>\<^verbatim>\<open>range(prefix..).next()\<close>: the first entry whose key is not below the prefix.\<close>

definition has_stored_prefix :: "'h req_resp_ctx \<Rightarrow> string \<Rightarrow> bool" where
  "has_stored_prefix ctx pre =
     (case dropWhile (\<lambda>(k, _). k < pre) (stored_values ctx) of
        [] \<Rightarrow> False
      | (k, _) # _ \<Rightarrow> prefix pre k)"

section \<open>Request id and tracing\<close>

definition X_REQUEST_ID_HEADER :: string where "X_REQUEST_ID_HEADER = ''x-request-id''"

definition request_id :: "'h hostcalls \<Rightarrow> 'h req_resp_ctx \<Rightarrow> string \<times> 'h req_resp_ctx" where
  "request_id H ctx =
     (case tr_id (tracker ctx) of
        Some i \<Rightarrow> (i, ctx)
      | None \<Rightarrow>
          (case get_attribute H headers_from_cached ''request.headers'' ctx of
             (r, ctx') \<Rightarrow>
               let i = (case r of
                          Ok (Available (Some hs)) \<Rightarrow>
                            (case headers_get hs X_REQUEST_ID_HEADER of
                               Some header_id \<Rightarrow> header_id
                             | None \<Rightarrow> hc_random_uuid H (ctx_host ctx))
                        | _ \<Rightarrow> hc_random_uuid H (ctx_host ctx))
               in (i, ctx'\<lparr>tracker := (tracker ctx')\<lparr>tr_id := Some i\<rparr>\<rparr>)))"

definition set_public_tracker_id :: "string \<Rightarrow> 'h req_resp_ctx \<Rightarrow> 'h req_resp_ctx" where
  "set_public_tracker_id i ctx = ctx\<lparr>tracker := (tracker ctx)\<lparr>tr_downstream_identifier := Some i\<rparr>\<rparr>"

definition public_tracker :: "'h hostcalls \<Rightarrow> 'h req_resp_ctx \<Rightarrow> (string \<times> string) option \<times> 'h req_resp_ctx" where
  "public_tracker H ctx =
     (case tr_downstream_identifier (tracker ctx) of
        None \<Rightarrow> (None, ctx)
      | Some i \<Rightarrow> (case request_id H ctx of (rid, ctx') \<Rightarrow> (Some (i, rid), ctx')))"

definition extract_trace_context :: "lib \<Rightarrow> 'h hostcalls \<Rightarrow> 'h req_resp_ctx \<Rightarrow> 'h req_resp_ctx" where
  "extract_trace_context L H ctx =
     (case get_attribute H headers_from_cached ''request.headers'' ctx of
        (Ok (Available (Some hs)), ctx') \<Rightarrow>
          ctx'\<lparr>tracing := (tracing ctx')\<lparr>tc_otel_context := otel_extract L (headers_to_hash_map hs)\<rparr>\<rparr>
      | (_, ctx') \<Rightarrow> ctx')"

definition enter_request_span :: "'h hostcalls \<Rightarrow> 'h req_resp_ctx \<Rightarrow> 'h req_resp_ctx" where
  "enter_request_span H ctx =
     (if hc_span_enabled H (ctx_host ctx) then
        (case request_id H ctx of
           (_, ctx') \<Rightarrow>
             (set_host (hc_enter_span H (tc_otel_context (tracing ctx')) (ctx_host ctx')) ctx')
               \<lparr>tracing := (tracing ctx')\<lparr>tc_request_span_guard := True\<rparr>\<rparr>)
      else ctx)"

definition end_request_span :: "'h hostcalls \<Rightarrow> 'h req_resp_ctx \<Rightarrow> 'h req_resp_ctx" where
  "end_request_span H ctx =
     (if tc_request_span_guard (tracing ctx) then
        (case hc_exit_span H (ctx_host ctx) of
           (ended, h) \<Rightarrow>
             ctx\<lparr>backend := (backend ctx)\<lparr>w_host := h, w_spans := fold on_end ended (w_spans (backend ctx))\<rparr>,
                 tracing := (tracing ctx)\<lparr>tc_request_span_guard := False\<rparr>\<rparr>)
      else ctx)"

definition set_action_set_name :: "string \<Rightarrow> 'h req_resp_ctx \<Rightarrow> 'h req_resp_ctx" where
  "set_action_set_name n ctx = ctx\<lparr>tracing := (tracing ctx)\<lparr>tc_action_set_name := Some n\<rparr>\<rparr>"

definition set_hostname :: "string \<Rightarrow> 'h req_resp_ctx \<Rightarrow> 'h req_resp_ctx" where
  "set_hostname n ctx = ctx\<lparr>tracing := (tracing ctx)\<lparr>tc_hostname := Some n\<rparr>\<rparr>"

definition get_tracing_headers :: "lib \<Rightarrow> 'h hostcalls \<Rightarrow> 'h req_resp_ctx \<Rightarrow> (string \<times> bytes) list" where
  "get_tracing_headers L H ctx =
     (let context = (if tc_request_span_guard (tracing ctx) then hc_current_span H (ctx_host ctx)
                     else tc_otel_context (tracing ctx))
      in fold (\<lambda>(k, v). injector_set k v) (otel_inject L context) [])"

section \<open>Calls to the host\<close>

definition ctx_dispatch_grpc_call ::
  "lib \<Rightarrow> 'h hostcalls \<Rightarrow> string \<Rightarrow> string \<Rightarrow> string \<Rightarrow> bytes \<Rightarrow> nat \<Rightarrow> 'h req_resp_ctx
     \<Rightarrow> (u32, service_error) result \<times> 'h req_resp_ctx"
where
  "ctx_dispatch_grpc_call L H upstream service method message timeout ctx =
     (let tracing_headers = get_tracing_headers L H ctx in
      case request_id H ctx of
        (rid, ctx') \<Rightarrow>
          (case host_dispatch_grpc_call H upstream service method
                  (tracing_headers @ [(X_REQUEST_ID_HEADER, rid)]) message timeout (ctx_host ctx') of
             (r, h) \<Rightarrow> (r, set_host h ctx')))"

definition ctx_get_grpc_response :: "'h hostcalls \<Rightarrow> nat \<Rightarrow> 'h req_resp_ctx \<Rightarrow> (bytes, service_error) result" where
  "ctx_get_grpc_response H response_size ctx = host_get_grpc_response H response_size (ctx_host ctx)"

definition ctx_send_http_reply ::
  "'h hostcalls \<Rightarrow> u32 \<Rightarrow> (string \<times> string) list \<Rightarrow> bytes option \<Rightarrow> 'h req_resp_ctx
     \<Rightarrow> (unit, service_error) result \<times> 'h req_resp_ctx"
where
  "ctx_send_http_reply H status_code hs body ctx =
     (case host_send_http_reply H status_code hs body (ctx_host ctx) of (r, h) \<Rightarrow> (r, set_host h ctx))"


section \<open>What operations leave alone\<close>

text \<open>Most operations of a context do not touch what controls the pipeline: the barrier, the
  slot for a gRPC response and the state of the response stream; nor what streams share with the root
  context, the descriptors and the filters.\<close>

definition same_control :: "'h req_resp_ctx \<Rightarrow> 'h req_resp_ctx \<Rightarrow> bool" where
  "same_control ctx ctx' =
     (barrier ctx' = barrier ctx \<and> grpc_response_data ctx' = grpc_response_data ctx
      \<and> response_end_of_stream ctx' = response_end_of_stream ctx
      \<and> response_body_size ctx' = response_body_size ctx
      \<and> w_descriptors (backend ctx') = w_descriptors (backend ctx)
      \<and> w_filters (backend ctx') = w_filters (backend ctx))"

lemma same_control_refl [simp, intro]: "same_control ctx ctx"
  by (simp add: same_control_def)

lemma same_control_trans [trans]: "same_control a b \<Longrightarrow> same_control b c \<Longrightarrow> same_control a c"
  by (simp add: same_control_def)

lemma same_controlD:
  "same_control ctx ctx' \<Longrightarrow> barrier ctx' = barrier ctx"
  "same_control ctx ctx' \<Longrightarrow> grpc_response_data ctx' = grpc_response_data ctx"
  "same_control ctx ctx' \<Longrightarrow> response_end_of_stream ctx' = response_end_of_stream ctx"
  by (simp_all add: same_control_def)

lemma same_control_upd [frame_simps, simp]:
  "same_control ctx (ctx'\<lparr>cache := c\<rparr>) = same_control ctx ctx'"
  "same_control ctx (ctx'\<lparr>tracker := t\<rparr>) = same_control ctx ctx'"
  "same_control ctx (ctx'\<lparr>tracing := tr\<rparr>) = same_control ctx ctx'"
  "w_descriptors w = w_descriptors (backend ctx') \<Longrightarrow> w_filters w = w_filters (backend ctx') \<Longrightarrow>
     same_control ctx (ctx'\<lparr>backend := w\<rparr>) = same_control ctx ctx'"
  "same_control ctx (ctx'\<lparr>stored_values := s\<rparr>) = same_control ctx ctx'"
  "same_control ctx (ctx'\<lparr>response_body_values := v\<rparr>) = same_control ctx ctx'"
  "same_control ctx (ctx'\<lparr>request_body_values := v\<rparr>) = same_control ctx ctx'"
  "same_control ctx (set_host h ctx') = same_control ctx ctx'"
  by (simp_all add: same_control_def set_host_def)

lemma get_attribute_ref_control: "get_attribute_ref H conv p ctx = (r, ctx') \<Longrightarrow> same_control ctx ctx'"
  by (auto simp: get_attribute_ref_def split: prod.splits)

lemma ensure_attributes_control: "same_control ctx (ensure_attributes H ps ctx)"
proof (induction ps arbitrary: ctx)
  case (Cons p ps)
  have "same_control ctx (ensure_attribute H p ctx)" by (simp add: ensure_attribute_def)
  with Cons [of "ensure_attribute H p ctx"] show ?case
    by (auto simp: ensure_attributes_def intro: same_control_trans)
qed (simp add: ensure_attributes_def)

lemma request_id_control: "request_id H ctx = (i, ctx') \<Longrightarrow> same_control ctx ctx'"
  by (auto simp: request_id_def get_attribute_def Let_def split: option.splits prod.splits
      dest: get_attribute_ref_control)

lemma public_tracker_control: "public_tracker H ctx = (i, ctx') \<Longrightarrow> same_control ctx ctx'"
  by (auto simp: public_tracker_def split: option.splits prod.splits dest: request_id_control)

lemma store_attribute_control:
  "store_attribute_bytes H p bs ctx = (r, ctx') \<Longrightarrow> same_control ctx ctx'"
  "store_attribute_headers H p hs ctx = (r, ctx') \<Longrightarrow> same_control ctx ctx'"
  by (auto simp: store_attribute_bytes_def store_attribute_headers_def Let_def
      split: prod.splits result.splits attribute_error.splits if_splits)

lemma set_attribute_control:
  "set_attribute H p bs ctx = (u, ctx') \<Longrightarrow> same_control ctx ctx'"
  "set_attribute_map H q hs ctx = (u, ctx') \<Longrightarrow> same_control ctx ctx'"
  by (auto simp: set_attribute_def set_attribute_map_def split: prod.splits dest: store_attribute_control)

lemma ctx_dispatch_control:
  "ctx_dispatch_grpc_call L H u s m msg t ctx = (r, ctx') \<Longrightarrow> same_control ctx ctx'"
  by (auto simp: ctx_dispatch_grpc_call_def Let_def split: prod.splits dest: request_id_control)

lemma ctx_send_http_reply_control:
  "ctx_send_http_reply H st hs b ctx = (r, ctx') \<Longrightarrow> same_control ctx ctx'"
  by (auto simp: ctx_send_http_reply_def split: prod.splits)

lemma enter_request_span_control: "same_control ctx (enter_request_span H ctx)"
  by (auto simp: enter_request_span_def split: prod.splits dest: request_id_control)

lemma end_request_span_control: "same_control ctx (end_request_span H ctx)"
  by (auto simp: end_request_span_def split: prod.splits)

lemmas control_rules = get_attribute_ref_control request_id_control public_tracker_control
  store_attribute_control set_attribute_control ctx_dispatch_control ctx_send_http_reply_control

section \<open>Facts\<close>

lemma barrier_raise_lower: "count b + 1 \<noteq> 0 \<Longrightarrow> barrier_lower (barrier_raise b) = b"
  by (cases b) (simp add: barrier_lower_def barrier_raise_def)

lemma prefix_less_eq: "prefix pre k \<Longrightarrow> pre \<le> k" for pre k :: string
proof (induction pre arbitrary: k)
  case (Cons a pre)
  then show ?case by (cases k) auto
qed simp

lemma less_not_prefix: "prefix pre k \<Longrightarrow> pre \<le> x \<Longrightarrow> x \<le> k \<Longrightarrow> prefix pre x" for pre x k :: string
proof (induction pre arbitrary: k x)
  case (Cons a pre)
  from Cons.prems(1) obtain k' where "k = a # k'" "prefix pre k'" by (cases k) auto
  with Cons show ?case by (cases x) auto
qed simp

lemma dropWhile_sorted_keys:
  fixes pre k :: string
  assumes "sorted_wrt (<) (map fst m)" and "prefix pre k" and "(k, v) \<in> set m"
  shows "case dropWhile (\<lambda>(k, _). k < pre) m of [] \<Rightarrow> False | (k, _) # _ \<Rightarrow> prefix pre k"
  using assms
proof (induction m)
  case (Cons e m)
  obtain k1 v1 where e: "e = (k1, v1)" by force
  show ?case
  proof (cases "k1 < pre")
    case True
    with prefix_less_eq [OF Cons.prems(2)] Cons.prems(3) e have "(k, v) \<in> set m" by auto
    with Cons True e show ?thesis by simp
  next
    case False
    have "k1 \<le> k"
    proof (cases "(k, v) = e")
      case False
      with Cons.prems(1,3) e have "k1 < k" by (force simp: rev_image_eqI)
      then show ?thesis by simp
    qed (simp add: e)
    with False less_not_prefix [OF Cons.prems(2), of k1] show ?thesis by (simp add: e)
  qed
qed simp

section \<open>Properties\<close>

text \<open>The ordered-map shortcut is right: a stored value has a path with the given prefix
  exactly when the first key not below the prefix starts with it.\<close>

theorem has_stored_prefix_iff:
  assumes "bt_ok (stored_values ctx)"
  shows "has_stored_prefix ctx pre \<longleftrightarrow> (\<exists>p \<in> set (stored_value_paths ctx). prefix pre p)"
proof
  assume "has_stored_prefix ctx pre"
  then obtain k v rest where "dropWhile (\<lambda>(k, _). k < pre) (stored_values ctx) = (k, v) # rest"
    and "prefix pre k"
    by (auto simp: has_stored_prefix_def split: list.splits)
  moreover from this have "(k, v) \<in> set (stored_values ctx)"
    by (metis list.set_intros(1) set_dropWhileD)
  ultimately show "\<exists>p \<in> set (stored_value_paths ctx). prefix pre p"
    by (force simp: stored_value_paths_def)
next
  assume "\<exists>p \<in> set (stored_value_paths ctx). prefix pre p"
  then obtain k v where "(k, v) \<in> set (stored_values ctx)" "prefix pre k"
    by (auto simp: stored_value_paths_def)
  with dropWhile_sorted_keys assms show "has_stored_prefix ctx pre"
    by (fastforce simp: has_stored_prefix_def bt_ok_def)
qed

definition demo_world :: "unit world" where
  "demo_world = \<lparr>w_host = (), w_descriptors = descriptor_manager_default (demo_lib EUnspecified),
     w_cel_envs = [], w_spans = span_processor_new, w_filters = no_handles\<rparr>"

theorem has_stored_prefix_iff_witness:
  "has_stored_prefix (store_value ''auth.identity.sub'' VNull (store_value ''a'' VNull (req_resp_ctx_new demo_world)))
     ''auth.''
   \<longleftrightarrow> (\<exists>p \<in> set (stored_value_paths (store_value ''auth.identity.sub'' VNull
          (store_value ''a'' VNull (req_resp_ctx_new demo_world)))). prefix ''auth.'' p)"
  by (rule has_stored_prefix_iff)
     (simp add: store_value_def req_resp_ctx_new_def btree_map.invar_insert btree_map.invar_empty
       del: bt_insert.simps)

text \<open>The request id is chosen once: it is the \<^verbatim>\<open>x-request-id\<close> header of the request when
  there is one and a fresh id otherwise, and every later use of the context, a dispatched call
  included, sees the same id whatever has become of the headers.\<close>

theorem request_id_stable:
  assumes "request_id H ctx = (i, ctx')"
  shows "request_id H ctx' = (i, ctx')
    \<and> (\<forall>j. tr_id (tracker ctx) = Some j \<longrightarrow> i = j)
    \<and> (\<forall>hs rid. tr_id (tracker ctx) = None
         \<and> fst (get_attribute H headers_from_cached ''request.headers'' ctx) = Ok (Available (Some hs))
         \<and> headers_get hs X_REQUEST_ID_HEADER = Some rid \<longrightarrow> i = rid)
    \<and> ctx_dispatch_grpc_call L H u s m msg t ctx' =
        (let (r, h) = host_dispatch_grpc_call H u s m
            (get_tracing_headers L H ctx' @ [(X_REQUEST_ID_HEADER, i)]) msg t (ctx_host ctx')
         in (r, set_host h ctx'))"
proof -
  have i: "tr_id (tracker ctx') = Some i"
    using assms by (auto simp: request_id_def Let_def split: option.splits prod.splits)
  then have "request_id H ctx' = (i, ctx')" by (simp add: request_id_def)
  moreover from this have "ctx_dispatch_grpc_call L H u s m msg t ctx' =
        (let (r, h) = host_dispatch_grpc_call H u s m
            (get_tracing_headers L H ctx' @ [(X_REQUEST_ID_HEADER, i)]) msg t (ctx_host ctx')
         in (r, set_host h ctx'))"
    by (simp add: ctx_dispatch_grpc_call_def Let_def)
  moreover have "\<forall>hs rid. tr_id (tracker ctx) = None
         \<and> fst (get_attribute H headers_from_cached ''request.headers'' ctx) = Ok (Available (Some hs))
         \<and> headers_get hs X_REQUEST_ID_HEADER = Some rid \<longrightarrow> i = rid"
    using assms by (auto simp: request_id_def Let_def split: prod.splits)
  moreover have "\<forall>j. tr_id (tracker ctx) = Some j \<longrightarrow> i = j"
    using assms by (auto simp: request_id_def)
  ultimately show ?thesis by blast
qed

theorem request_id_stable_witness:
  "\<exists>ctx'. request_id demo_host (req_resp_ctx_new demo_world) = (''uuid'', ctx')
     \<and> request_id demo_host ctx' = (''uuid'', ctx')"
proof -
  obtain i ctx' where r: "request_id demo_host (req_resp_ctx_new demo_world) = (i, ctx')" by force
  have "fetch_attribute demo_host (path_from ''request.headers'') () =
      Err (Retrieval ''Map not available in current phase'')"
    by (simp add: fetch_attribute_def path_from_def host_get_attribute_map_def demo_host_def)
  then have "i = ''uuid''"
    using r by (auto simp: request_id_def req_resp_ctx_new_def get_attribute_def get_attribute_ref_def
        get_or_insert_with_def cache_get_def attribute_cache_new_def demo_world_def Let_def)
       (simp add: demo_host_def)
  with r request_id_stable [OF r] show ?thesis by blast
qed

text \<open>The slot for a gRPC response holds at most one response: a second one is refused and
  does not overwrite the first, and taking the response empties the slot.\<close>

lemma grpc_response_slot:
  "set_grpc_response_data st n ctx =
     (if grpc_response_data ctx = None then (Ok (), ctx\<lparr>grpc_response_data := Some (st, n)\<rparr>)
      else (Err (Service_Retrieval ''gRPC response data already set''), ctx))
   \<and> (grpc_response_data ctx = None \<longrightarrow>
        get_grpc_response_data (snd (set_grpc_response_data st n ctx)) = (Ok (st, n), ctx))
   \<and> grpc_response_data (snd (get_grpc_response_data ctx)) = None"
proof -
  have "ctx\<lparr>grpc_response_data := None\<rparr> = ctx" if "grpc_response_data ctx = None"
    using that by simp
  then show ?thesis by (simp add: set_grpc_response_data_def get_grpc_response_data_def ok_or_def)
qed

end
