(* ===== verification/Cel_Eval.thy ===== *)
theory Cel_Eval
  imports Context
begin

text \<open>
  \<^verbatim>\<open>src/data/cel.rs\<close>, evaluation in a request: typed reads of attributes, the tree of
  attributes an expression needs (\<^verbatim>\<open>AttributeMap\<close>), \<^verbatim>\<open>Expression::eval\<close>, predicates, and the
  functions the program adds to CEL.  Evaluation changes two things, the request context (its
  cache) and the CEL context it fills with variables; both are returned.
\<close>

section \<open>JSON\<close>

fun json_value_to_cel :: "json \<Rightarrow> cel_value" where
  "json_value_to_cel JNull = VNull"
| "json_value_to_cel (JBool b) = VBool b"
| "json_value_to_cel (JPosInt n) = VUInt n"
| "json_value_to_cel (JNegInt n) = VInt n"
| "json_value_to_cel (JFloat f) = VFloat f"
| "json_value_to_cel (JString s) = VString s"
| "json_value_to_cel (JArray arr) = VList (map json_value_to_cel arr)"
| "json_value_to_cel (JObject obj) = VMap (map (\<lambda>(k, v). (KString k, json_value_to_cel v)) obj)"

definition json_to_cel :: "lib \<Rightarrow> string \<Rightarrow> cel_value" where
  "json_to_cel L s = (case json_from_slice L s of Ok j \<Rightarrow> json_value_to_cel j | Err _ \<Rightarrow> VString s)"

section \<open>Reading an attribute\<close>

definition or_null :: "('a \<Rightarrow> cel_value) \<Rightarrow> 'a option \<Rightarrow> cel_value" where
  "or_null f x = (case x of Some a \<Rightarrow> f a | None \<Rightarrow> VNull)"

definition typed_get ::
  "'h hostcalls \<Rightarrow> (cached_value \<Rightarrow> ('a option, attribute_error) result) \<Rightarrow> ('a \<Rightarrow> cel_value) \<Rightarrow> path
     \<Rightarrow> 'h req_resp_ctx \<Rightarrow> (cel_value attribute_state, attribute_error) result \<times> 'h req_resp_ctx"
where
  "typed_get H conv f p ctx =
     (case get_attribute_ref H conv p ctx of
        (Ok s, ctx') \<Rightarrow> (Ok (attribute_state_map (or_null f) s), ctx')
      | (Err e, ctx') \<Rightarrow> (Err e, ctx'))"

text \<open>\<^verbatim>\<open>Attribute::get\<close>.  The last branch is the \<^verbatim>\<open>todo!\<close> of the source, a panic; no attribute of
  the table has such a type (\<open>known_types_supported\<close>).\<close>

definition attribute_get ::
  "lib \<Rightarrow> 'h hostcalls \<Rightarrow> attribute \<Rightarrow> 'h req_resp_ctx
     \<Rightarrow> (cel_value attribute_state, attribute_error) result \<times> 'h req_resp_ctx"
where
  "attribute_get L H a ctx =
     (let p = attr_path a in
      case attr_cel_type a of
        Some T_String \<Rightarrow> typed_get H (from_cached parse_string) VString p ctx
      | Some T_Int \<Rightarrow> typed_get H (from_cached parse_i64) VInt p ctx
      | Some T_UInt \<Rightarrow> typed_get H (from_cached parse_u64) VUInt p ctx
      | Some T_Float \<Rightarrow> typed_get H (from_cached parse_f64) VFloat p ctx
      | Some T_Bool \<Rightarrow> typed_get H (from_cached parse_bool) VBool p ctx
      | Some T_Bytes \<Rightarrow> typed_get H (from_cached parse_bytes) VBytes p ctx
      | Some T_Timestamp \<Rightarrow> typed_get H (from_cached parse_timestamp) VTimestamp p ctx
      | Some T_Map \<Rightarrow>
          typed_get H headers_from_cached
            (\<lambda>hs. VMap (map (\<lambda>(k, v). (KString k, VString v)) (headers_to_hash_map hs))) p ctx
      | None \<Rightarrow> typed_get H (from_cached parse_string) (json_to_cel L) p ctx
      | Some _ \<Rightarrow> (Err (Parse ''not yet implemented: Need support''), ctx))"

lemma known_types_supported:
  "known_attribute_for p = Some a \<Longrightarrow>
     attr_cel_type a \<in> Some ` {T_String, T_Int, T_UInt, T_Float, T_Bool, T_Bytes, T_Timestamp, T_Map}"
proof -
  assume "known_attribute_for p = Some a"
  then obtain t where t: "(p, t) \<in> set new_well_known_attribute_map" "attr_cel_type a = Some t"
    by (auto simp: known_attribute_for_def dest!: map_of_SomeD)
  have "snd ` set new_well_known_attribute_map
      \<subseteq> {T_String, T_Int, T_UInt, T_Float, T_Bool, T_Bytes, T_Timestamp, T_Map}"
    by (simp add: new_well_known_attribute_map_def)
  with t show ?thesis by force
qed

section \<open>The tree of attributes\<close>

datatype token = Node "(string \<times> token) list" | Value_token attribute

fun insert_attribute :: "string list \<Rightarrow> attribute \<Rightarrow> (string \<times> token) list \<Rightarrow> (string \<times> token) list" where
  "insert_attribute [] a node = node"
| "insert_attribute [t] a node = AList.update t (Value_token a) node"
| "insert_attribute (t # ts) a node =
     (case map_of node t of
        None \<Rightarrow> AList.update t (Node (insert_attribute ts a [])) node
      | Some (Node n) \<Rightarrow> AList.update t (Node (insert_attribute ts a n)) node
      | Some (Value_token _) \<Rightarrow> node)"

definition attribute_map_new :: "attribute list \<Rightarrow> (string \<times> token) list" where
  "attribute_map_new attrs = fold (\<lambda>a. insert_attribute (tokens (attr_path a)) a) attrs []"

type_synonym cel_map = "(cel_key \<times> cel_value) list"

definition current_path :: "string \<Rightarrow> string \<Rightarrow> string" where
  "current_path path_prefix key = (if path_prefix = [] then key else path_prefix @ ''.'' @ key)"

text \<open>A root that is neither a host property nor stored is left out.\<close>

definition skip_root :: "string \<Rightarrow> string \<Rightarrow> 'h req_resp_ctx \<Rightarrow> bool" where
  "skip_root path_prefix key ctx =
     (path_prefix = [] \<and> \<not> is_host_property_root key \<and> \<not> has_stored_prefix ctx (key @ ''.''))"

fun map_to_value ::
  "lib \<Rightarrow> 'h hostcalls \<Rightarrow> (string \<times> token) list \<Rightarrow> string \<Rightarrow> cel_map \<Rightarrow> 'h req_resp_ctx
     \<Rightarrow> (cel_map attribute_state, attribute_error) result \<times> 'h req_resp_ctx"
where
  "map_to_value L H [] path_prefix out ctx = (Ok (Available out), ctx)"
| "map_to_value L H ((key, Value_token attr) # rest) path_prefix out ctx =
     (case get_stored_value ctx (current_path path_prefix key) of
        Some stored_val \<Rightarrow> map_to_value L H rest path_prefix (AList.update (KString key) stored_val out) ctx
      | None \<Rightarrow>
          if skip_root path_prefix key ctx then map_to_value L H rest path_prefix out ctx
          else
            (case attribute_get L H attr ctx of
               (Err e, ctx') \<Rightarrow> (Err e, ctx')
             | (Ok Pending, ctx') \<Rightarrow> (Ok Pending, ctx')
             | (Ok (Available v), ctx') \<Rightarrow>
                 map_to_value L H rest path_prefix (AList.update (KString key) v out) ctx'))"
| "map_to_value L H ((key, Node nested) # rest) path_prefix out ctx =
     (case get_stored_value ctx (current_path path_prefix key) of
        Some stored_val \<Rightarrow> map_to_value L H rest path_prefix (AList.update (KString key) stored_val out) ctx
      | None \<Rightarrow>
          if skip_root path_prefix key ctx then map_to_value L H rest path_prefix out ctx
          else
            (case map_to_value L H nested (current_path path_prefix key) [] ctx of
               (Err e, ctx') \<Rightarrow> (Err e, ctx')
             | (Ok Pending, ctx') \<Rightarrow> (Ok Pending, ctx')
             | (Ok (Available m), ctx') \<Rightarrow>
                 map_to_value L H rest path_prefix (AList.update (KString key) (VMap m) out) ctx'))"

definition build_data_map ::
  "lib \<Rightarrow> 'h hostcalls \<Rightarrow> expression \<Rightarrow> 'h req_resp_ctx
     \<Rightarrow> (cel_map attribute_state, attribute_error) result \<times> 'h req_resp_ctx"
where
  "build_data_map L H e ctx = map_to_value L H (attribute_map_new (expr_attributes e)) [] [] ctx"

section \<open>Evaluating an expression\<close>

definition host_paths :: "attribute list \<Rightarrow> path list" where
  "host_paths attrs =
     map attr_path (filter (\<lambda>a. case tokens (attr_path a) of [] \<Rightarrow> False | root # _ \<Rightarrow> is_host_property_root root) attrs)"

definition add_string_extensions :: "cel_context \<Rightarrow> cel_context" where
  "add_string_extensions c =
     fold (\<lambda>(x, f). add_function x f)
       [(''charAt'', Fn_char_at), (''indexOf'', Fn_index_of), (''join'', Fn_join),
        (''lastIndexOf'', Fn_last_index_of), (''lowerAscii'', Fn_lower_ascii),
        (''upperAscii'', Fn_upper_ascii), (''trim'', Fn_trim), (''replace'', Fn_replace),
        (''split'', Fn_split), (''substring'', Fn_substring)] c"

definition add_extended_capabilities :: "cel_context \<Rightarrow> cel_context" where
  "add_extended_capabilities c = add_function ''queryMap'' Fn_decode_query_string c"

definition resolve_grpc ::
  "'h hostcalls \<Rightarrow> 'h req_resp_ctx \<Rightarrow> cel_value option \<times> 'h req_resp_ctx"
where
  "resolve_grpc H ctx =
     (case get_request_header H ''content-type'' ctx of
        None \<Rightarrow> (None, ctx)
      | Some ct \<Rightarrow>
          if \<not> is_grpc_content_type ct then (None, ctx)
          else (case get_attribute H (from_cached parse_string) ''request.url_path'' ctx of
                  (r, ctx') \<Rightarrow>
                    ((case r of
                        Ok (Available (Some url_path)) \<Rightarrow>
                          (case parse_grpc_path url_path of
                             Some (s, m) \<Rightarrow>
                               Some (VMap [(KString ''service'', VString s), (KString ''method'', VString m)])
                           | None \<Rightarrow> None)
                      | _ \<Rightarrow> None), ctx')))"

definition or_null_value :: "cel_value option \<Rightarrow> cel_value" where
  "or_null_value x = (case x of Some v \<Rightarrow> v | None \<Rightarrow> VNull)"

text \<open>The variables of an evaluation, in the order the code adds them: \<^verbatim>\<open>request\<close>, the fixed
  bindings, the other roots of the data map, and stored values with no dot in their path.\<close>

definition bind_fixed :: "cel_map \<Rightarrow> cel_context \<Rightarrow> cel_context" where
  "bind_fixed m c =
     fold (\<lambda>b. add_variable b (or_null_value (map_of m (KString b))))
       [''metadata'', ''source'', ''destination'', ''auth''] c"

definition bind_other_roots :: "cel_map \<Rightarrow> cel_context \<Rightarrow> cel_context" where
  "bind_other_roots m c =
     fold (\<lambda>(k, v) c. case k of
             KString name \<Rightarrow>
               if k \<noteq> KString ''request'' \<and> \<not> is_host_property_root name then add_variable name v c else c
           | _ \<Rightarrow> c) m c"

definition bind_stored :: "cel_map \<Rightarrow> 'h req_resp_ctx \<Rightarrow> cel_context \<Rightarrow> cel_context" where
  "bind_stored m ctx c =
     fold (\<lambda>p c.
             if hd (split_on dot p) = p \<and> map_of m (KString p) = None then
               (case get_stored_value ctx p of Some v \<Rightarrow> add_variable p v c | None \<Rightarrow> c)
             else c) (stored_value_paths ctx) c"

fun body_value_map :: "(string \<Rightarrow> cel_value option) \<Rightarrow> string list \<Rightarrow> cel_map \<Rightarrow> cel_map option" where
  "body_value_map get [] m = Some m"
| "body_value_map get (field_key # rest) m =
     (case get field_key of
        Some v \<Rightarrow> body_value_map get rest (AList.update (KString field_key) v m)
      | None \<Rightarrow> None)"

text \<open>The part of \<^verbatim>\<open>eval\<close> after the data map is there.\<close>

definition eval_with_map ::
  "lib \<Rightarrow> expression \<Rightarrow> cel_value \<Rightarrow> cel_map \<Rightarrow> 'h req_resp_ctx \<Rightarrow> cel_context
     \<Rightarrow> (cel_value attribute_state, cel_error) result \<times> cel_context"
where
  "eval_with_map L e request_value m ctx c =
     (let c = bind_stored m ctx (bind_other_roots m (bind_fixed m (add_variable ''request'' request_value c))) in
      case body_value_map (get_response_body_value ctx) (expr_response_body_values e) [] of
        None \<Rightarrow> (Ok Pending, c)
      | Some response_json_map \<Rightarrow>
          let c = add_function RESPONSE_BODY_JSON_FN Fn_response_body_json
                    (add_variable RESPONSE_BODY_JSON_DATA (VMap response_json_map) c) in
          (case body_value_map (get_request_body_value ctx) (expr_request_body_values e) [] of
             None \<Rightarrow> (Ok Pending, c)
           | Some request_json_map \<Rightarrow>
               let c = add_function REQUEST_BODY_JSON_FN Fn_request_body_json
                         (add_variable REQUEST_BODY_JSON_DATA (VMap request_json_map) c)
               in (case cel_resolve L (expr_expression e) c of
                     Err err \<Rightarrow> (Err (Resolve err), c)
                   | Ok v \<Rightarrow> (Ok (Available v), c))))"

definition request_with_grpc ::
  "'h hostcalls \<Rightarrow> expression \<Rightarrow> cel_value \<Rightarrow> 'h req_resp_ctx \<Rightarrow> cel_value \<times> 'h req_resp_ctx"
where
  "request_with_grpc H e request_value ctx =
     (if expr_needs_grpc e then
        (let request_map = (case request_value of VMap m \<Rightarrow> m | _ \<Rightarrow> []) in
         case resolve_grpc H ctx of
           (Some grpc_map, ctx') \<Rightarrow> (VMap (AList.update (KString ''grpc'') grpc_map request_map), ctx')
         | (None, ctx') \<Rightarrow> (VMap request_map, ctx'))
      else (request_value, ctx))"

definition expression_eval ::
  "lib \<Rightarrow> 'h hostcalls \<Rightarrow> expression \<Rightarrow> 'h req_resp_ctx \<Rightarrow> cel_context
     \<Rightarrow> (cel_value attribute_state, cel_error) result \<times> 'h req_resp_ctx \<times> cel_context"
where
  "expression_eval L H e ctx cel_ctx =
     (let c = add_string_extensions cel_ctx;
          c = (if expr_extended e then add_extended_capabilities c else c);
          ctx = ensure_attributes H (host_paths (expr_attributes e)) ctx
      in case build_data_map L H e ctx of
           (Err err, ctx) \<Rightarrow> (Err (Property err), ctx, c)
         | (Ok Pending, ctx) \<Rightarrow> (Ok Pending, ctx, c)
         | (Ok (Available m), ctx) \<Rightarrow>
             (case request_with_grpc H e (or_null_value (map_of m (KString ''request''))) ctx of
                (request_value, ctx) \<Rightarrow>
                  (case eval_with_map L e request_value m ctx c of (r, c) \<Rightarrow> (r, ctx, c))))"

section \<open>Predicates\<close>

definition test_with_ctx ::
  "lib \<Rightarrow> 'h hostcalls \<Rightarrow> predicate \<Rightarrow> 'h req_resp_ctx \<Rightarrow> cel_context
     \<Rightarrow> (bool attribute_state, evaluation_error) result \<times> 'h req_resp_ctx \<times> cel_context"
where
  "test_with_ctx L H p ctx c =
     (case expression_eval L H (pred_expression p) ctx c of
        (Ok Pending, ctx', c') \<Rightarrow> (Ok Pending, ctx', c')
      | (Ok (Available (VBool b)), ctx', c') \<Rightarrow> (Ok (Available b), ctx', c')
      | (Ok (Available _), ctx', c') \<Rightarrow>
          (Err (EvaluationError (pred_expression p) ''Expected boolean value''), ctx', c')
      | (Err _, ctx', c') \<Rightarrow> (Err (EvaluationError (pred_expression p) ''CelError''), ctx', c'))"

definition predicate_test ::
  "lib \<Rightarrow> 'h hostcalls \<Rightarrow> predicate \<Rightarrow> 'h req_resp_ctx
     \<Rightarrow> (bool attribute_state, evaluation_error) result \<times> 'h req_resp_ctx"
where
  "predicate_test L H p ctx =
     (case test_with_ctx L H p ctx cel_context_default of (r, ctx', _) \<Rightarrow> (r, ctx'))"

fun predicates_loop ::
  "lib \<Rightarrow> 'h hostcalls \<Rightarrow> predicate list \<Rightarrow> 'h req_resp_ctx
     \<Rightarrow> (bool attribute_state, evaluation_error) result \<times> 'h req_resp_ctx"
where
  "predicates_loop L H [] ctx = (Ok (Available True), ctx)"
| "predicates_loop L H (p # ps) ctx =
     (case predicate_test L H p ctx of
        (Err e, ctx') \<Rightarrow> (Err e, ctx')
      | (Ok Pending, ctx') \<Rightarrow> (Ok Pending, ctx')
      | (Ok (Available False), ctx') \<Rightarrow> (Ok (Available False), ctx')
      | (Ok (Available True), ctx') \<Rightarrow> predicates_loop L H ps ctx')"

definition predicates_apply ::
  "lib \<Rightarrow> 'h hostcalls \<Rightarrow> predicate list \<Rightarrow> 'h req_resp_ctx
     \<Rightarrow> (bool attribute_state, evaluation_error) result \<times> 'h req_resp_ctx"
where
  "predicates_apply L H ps ctx =
     (if ps = [] then (Ok (Available True), ctx)
      else predicates_loop L H ps
             (ensure_attributes H (host_paths (concat (map (\<lambda>p. expr_attributes (pred_expression p)) ps))) ctx))"

section \<open>Functions added to CEL\<close>

definition value_to_key :: "cel_value \<Rightarrow> cel_key option" where
  "value_to_key v =
     (case v of
        VInt i \<Rightarrow> Some (KInt i) | VUInt u \<Rightarrow> Some (KUint u)
      | VString s \<Rightarrow> Some (KString s) | VBool b \<Rightarrow> Some (KBool b) | _ \<Rightarrow> None)"

definition body_json :: "string \<Rightarrow> string \<Rightarrow> cel_context \<Rightarrow> cel_value \<Rightarrow> (cel_value, exec_error) result" where
  "body_json fn data c arg =
     (case value_to_key arg of
        None \<Rightarrow> Err (UnexpectedType '''' ''Key'')
      | Some key \<Rightarrow>
          (case map_of (cc_variables c) data of
             Some (VMap m) \<Rightarrow> Ok (or_null_value (map_of m key))
           | Some _ \<Rightarrow> Err (FunctionError fn ''Bad internal state!'')
           | None \<Rightarrow> Err (FunctionError fn (''Variable '' @ data @ '' not found''))))"

definition response_body_json :: "cel_context \<Rightarrow> cel_value \<Rightarrow> (cel_value, exec_error) result" where
  "response_body_json = body_json RESPONSE_BODY_JSON_FN RESPONSE_BODY_JSON_DATA"

definition request_body_json :: "cel_context \<Rightarrow> cel_value \<Rightarrow> (cel_value, exec_error) result" where
  "request_body_json = body_json REQUEST_BODY_JSON_FN REQUEST_BODY_JSON_DATA"

text \<open>A \<^verbatim>\<open>key=value\<close> part of a query string, decoded (undecodable text is kept as it is).\<close>

definition query_pair :: "lib \<Rightarrow> string \<Rightarrow> string \<times> string" where
  "query_pair L part =
     (let kv = split_on (CHR ''='') part;
          dec = (\<lambda>s. case url_decode L s of Some d \<Rightarrow> d | None \<Rightarrow> s)
      in (dec (kv ! 0), dec (if length kv > 1 then kv ! 1 else [])))"

definition query_insert :: "bool \<Rightarrow> string \<times> string \<Rightarrow> cel_map \<Rightarrow> cel_map" where
  "query_insert allow_repeats kv m =
     (let key = KString (fst kv); new_v = VString (snd kv) in
      case map_of m key of
        Some old \<Rightarrow>
          if allow_repeats then
            (case old of
               VList vs \<Rightarrow> AList.update key (VList (vs @ [new_v])) m
             | v \<Rightarrow> AList.update key (VList [v, new_v]) m)
          else m
      | None \<Rightarrow> AList.update key new_v m)"

definition allow_repeats :: "cel_value list \<Rightarrow> bool" where
  "allow_repeats args = (case args of [_, VBool b] \<Rightarrow> b | _ \<Rightarrow> False)"

definition decode_query_string :: "lib \<Rightarrow> string \<Rightarrow> cel_value list \<Rightarrow> (cel_value, exec_error) result" where
  "decode_query_string L s args =
     Ok (VMap (fold (query_insert (allow_repeats args)) (map (query_pair L) (split_on (CHR ''&'') s)) []))"


section \<open>Evaluation only reads\<close>

definition reads_only :: "'h req_resp_ctx \<Rightarrow> 'h req_resp_ctx \<Rightarrow> bool" where
  "reads_only ctx ctx' = (\<exists>rs. ctx' = ctx\<lparr>cache := fold run_read rs (cache ctx)\<rparr>)"

lemma reads_only_refl [simp, intro]: "reads_only ctx ctx"
  unfolding reads_only_def by (rule exI [of _ "[]"]) simp

lemma reads_only_trans [trans]: "reads_only a b \<Longrightarrow> reads_only b c \<Longrightarrow> reads_only a c"
  unfolding reads_only_def
proof (elim exE)
  fix rs rs'
  assume "b = a\<lparr>cache := fold run_read rs (cache a)\<rparr>" "c = b\<lparr>cache := fold run_read rs' (cache b)\<rparr>"
  then have "c = a\<lparr>cache := fold run_read (rs @ rs') (cache a)\<rparr>" by simp
  then show "\<exists>rs. c = a\<lparr>cache := fold run_read rs (cache a)\<rparr>" by blast
qed

lemma reads_only_control: "reads_only ctx ctx' \<Longrightarrow> same_control ctx ctx'"
  by (auto simp: reads_only_def)

lemma reads_only_fields:
  assumes "reads_only ctx ctx'"
  shows "stored_values ctx' = stored_values ctx" "backend ctx' = backend ctx"
    "response_body_values ctx' = response_body_values ctx"
    "request_body_values ctx' = request_body_values ctx"
  using assms by (auto simp: reads_only_def)

lemma get_attribute_ref_reads:
  "get_attribute_ref H conv p ctx = (r, ctx') \<Longrightarrow> reads_only ctx ctx'"
  unfolding reads_only_def
  by (rule exI [of _ "[Read_attribute p (fetch_attribute H p (ctx_host ctx))]"])
     (auto simp: get_attribute_ref_def get_or_insert_with_fill
       dest!: arg_cong [where f = snd] split: prod.splits)

lemma ensure_attributes_reads: "reads_only ctx (ensure_attributes H ps ctx)"
proof (induction ps arbitrary: ctx)
  case (Cons p ps)
  have "reads_only ctx (ensure_attribute H p ctx)"
    unfolding reads_only_def
    by (rule exI [of _ "[Read_populate p (fetch_attribute H p (ctx_host ctx))]"])
       (simp add: ensure_attribute_def)
  with Cons [of "ensure_attribute H p ctx"] show ?case
    by (auto simp: ensure_attributes_def intro: reads_only_trans)
qed (simp add: ensure_attributes_def)

lemma typed_get_reads: "typed_get H conv f p ctx = (r, ctx') \<Longrightarrow> reads_only ctx ctx'"
  by (auto simp: typed_get_def split: prod.splits result.splits dest: get_attribute_ref_reads)

lemma attribute_get_reads: "attribute_get L H a ctx = (r, ctx') \<Longrightarrow> reads_only ctx ctx'"
  by (auto simp: attribute_get_def Let_def split: option.splits value_type.splits dest: typed_get_reads)

lemma map_to_value_reads: "map_to_value L H m pre out ctx = (r, ctx') \<Longrightarrow> reads_only ctx ctx'"
proof (induction L H m pre out ctx arbitrary: r ctx' rule: map_to_value.induct)
  case (2 L H key attr rest pre out ctx)
  then show ?case
    by (auto split: option.splits if_splits prod.splits result.splits attribute_state.splits
        dest: attribute_get_reads intro: reads_only_trans)
next
  case (3 L H key nested rest pre out ctx)
  then show ?case
    by (auto split: option.splits if_splits prod.splits result.splits attribute_state.splits
        intro: reads_only_trans)
qed simp

lemma resolve_grpc_reads: "resolve_grpc H ctx = (r, ctx') \<Longrightarrow> reads_only ctx ctx'"
  by (auto simp: resolve_grpc_def get_attribute_def split: option.splits if_splits prod.splits
      dest: get_attribute_ref_reads)

lemma request_with_grpc_reads: "request_with_grpc H e v ctx = (r, ctx') \<Longrightarrow> reads_only ctx ctx'"
  by (auto simp: request_with_grpc_def Let_def split: if_splits prod.splits option.splits
      dest: resolve_grpc_reads)

lemma expression_eval_reads: "expression_eval L H e ctx c = (r, ctx', c') \<Longrightarrow> reads_only ctx ctx'"
proof -
  let ?ctx = "ensure_attributes H (host_paths (expr_attributes e)) ctx"
  assume ev: "expression_eval L H e ctx c = (r, ctx', c')"
  obtain d ctx1 where d: "build_data_map L H e ?ctx = (d, ctx1)" by force
  then have 1: "reads_only ?ctx ctx1" by (auto simp: build_data_map_def dest: map_to_value_reads)
  have "reads_only ctx1 ctx'"
    using ev d by (auto simp: expression_eval_def Let_def split: result.splits attribute_state.splits
        prod.splits dest: request_with_grpc_reads)
  with 1 ensure_attributes_reads [of ctx H] show ?thesis by (blast intro: reads_only_trans)
qed

lemma test_with_ctx_reads: "test_with_ctx L H p ctx c = (r, ctx', c') \<Longrightarrow> reads_only ctx ctx'"
  by (auto simp: test_with_ctx_def split: prod.splits result.splits attribute_state.splits
      cel_value.splits dest: expression_eval_reads)

lemma predicate_test_reads: "predicate_test L H p ctx = (r, ctx') \<Longrightarrow> reads_only ctx ctx'"
  by (auto simp: predicate_test_def split: prod.splits dest: test_with_ctx_reads)

lemma predicates_loop_reads: "predicates_loop L H ps ctx = (r, ctx') \<Longrightarrow> reads_only ctx ctx'"
proof (induction L H ps ctx arbitrary: r ctx' rule: predicates_loop.induct)
  case (2 L H p ps ctx)
  then show ?case
    by (auto split: prod.splits result.splits attribute_state.splits bool.splits
        dest: predicate_test_reads intro: reads_only_trans)
qed simp

lemma predicates_apply_reads: "predicates_apply L H ps ctx = (r, ctx') \<Longrightarrow> reads_only ctx ctx'"
  by (auto simp: predicates_apply_def split: if_splits dest: predicates_loop_reads
      intro: reads_only_trans [OF ensure_attributes_reads])

lemmas eval_reads = expression_eval_reads test_with_ctx_reads predicate_test_reads predicates_apply_reads

lemmas eval_control = eval_reads [THEN reads_only_control]

section \<open>Body values\<close>

lemma body_value_map_None: "body_value_map get ks m = None \<longleftrightarrow> (\<exists>k \<in> set ks. get k = None)"
  by (induction get ks m rule: body_value_map.induct) (auto split: option.splits)

lemma body_value_map_Some: "body_value_map get ks m = Some m' \<Longrightarrow> \<forall>k \<in> set ks. get k \<noteq> None"
  using body_value_map_None [of get ks m] by auto

lemma eval_with_map_Available:
  "eval_with_map L e rv m ctx c = (Ok (Available v), c') \<Longrightarrow>
     (\<forall>k \<in> set (expr_response_body_values e). get_response_body_value ctx k \<noteq> None)
     \<and> (\<forall>k \<in> set (expr_request_body_values e). get_request_body_value ctx k \<noteq> None)
     \<and> cel_resolve L (expr_expression e) c' = Ok v"
  by (auto simp: eval_with_map_def Let_def split: option.splits result.splits
      dest!: body_value_map_Some)

section \<open>The tree of attributes\<close>

text \<open>The attribute that resolves a path: the value token met on the way down.\<close>

fun walk :: "(string \<times> token) list \<Rightarrow> string list \<Rightarrow> attribute option" where
  "walk node [] = None"
| "walk node (t # ts) =
     (case map_of node t of
        None \<Rightarrow> None
      | Some (Value_token a) \<Rightarrow> Some a
      | Some (Node m) \<Rightarrow> walk m ts)"

fun lands_node :: "(string \<times> token) list \<Rightarrow> string list \<Rightarrow> bool" where
  "lands_node node [] = True"
| "lands_node node (t # ts) = (case map_of node t of Some (Node m) \<Rightarrow> lands_node m ts | _ \<Rightarrow> False)"

lemma walk_insert_same:
  "q \<noteq> [] \<Longrightarrow> walk (insert_attribute q a node) q = Some a \<or>
     (\<exists>b. walk node q = Some b \<and> walk (insert_attribute q a node) q = Some b)"
proof (induction q a node rule: insert_attribute.induct)
  case (3 t t' ts a node)
  show ?case
  proof (cases "map_of node t")
    case None
    with 3 show ?thesis by auto
  next
    case (Some tok)
    with 3 show ?thesis by (cases tok) auto
  qed
qed auto

lemma walk_insert_keeps:
  "walk node p = Some b \<Longrightarrow> \<not> lands_node node q \<Longrightarrow>
     walk (insert_attribute q a node) p = Some b
     \<or> (walk (insert_attribute q a node) p = Some a \<and> prefix q p)"
proof (induction q a node arbitrary: p rule: insert_attribute.induct)
  case (2 t a node)
  then show ?case by (cases p) (auto split: option.splits token.splits)
next
  case (3 t t' ts a node)
  then obtain u us where p: "p = u # us" by (cases p) auto
  show ?case
  proof (cases "map_of node t")
    case None
    with 3 p show ?thesis by auto
  next
    case (Some tok)
    show ?thesis
    proof (cases tok)
      case (Node n)
      with Some "3.prems"(2) have no: "\<not> lands_node n (t' # ts)" by simp
      have "walk n us = Some b \<Longrightarrow> walk (insert_attribute (t' # ts) a n) us = Some b
          \<or> walk (insert_attribute (t' # ts) a n) us = Some a \<and> prefix (t' # ts) us"
        by (rule "3.IH"(2) [OF Some Node _ no])
      with "3.prems"(1) Some Node p show ?thesis by (cases "u = t") simp_all
    qed (use Some 3 p in simp)
  qed
qed simp

lemma lands_node_insert:
  "lands_node (insert_attribute q a node) r \<Longrightarrow> lands_node node r \<or> strict_prefix r q"
proof (induction q a node arbitrary: r rule: insert_attribute.induct)
  case (2 t a node)
  then show ?case by (cases r) (auto split: if_splits)
next
  case (3 t t' ts a node)
  show ?case
  proof (cases r)
    case (Cons u us)
    show ?thesis
    proof (cases "map_of node t")
      case None
      have "lands_node [] us \<longleftrightarrow> us = []" by (cases us) auto
      with None Cons "3.IH"(1) [OF None, of us] "3.prems" show ?thesis
        by (cases "u = t") auto
    next
      case (Some tok)
      with 3 Cons show ?thesis by (cases tok) (auto split: if_splits)
    qed
  qed simp
qed simp

definition tree_covers :: "attribute list \<Rightarrow> (string \<times> token) list \<Rightarrow> bool" where
  "tree_covers as tree =
     ((\<forall>a \<in> set as. \<exists>b \<in> set as. walk tree (tokens (attr_path a)) = Some b
          \<and> prefix (tokens (attr_path b)) (tokens (attr_path a)))
      \<and> (\<forall>r. r \<noteq> [] \<and> lands_node tree r \<longrightarrow> (\<exists>a \<in> set as. strict_prefix r (tokens (attr_path a)))))"

lemma walk_prefix_shorter:
  assumes "tree_covers as tree" and "\<forall>a \<in> set as. length (tokens (attr_path a)) \<le> length q" and "q \<noteq> []"
  shows "\<not> lands_node tree q"
  using assms prefix_length_less unfolding tree_covers_def by fastforce

lemma walk_origin:
  "walk (insert_attribute q a node) p = Some b \<Longrightarrow> (b = a \<and> prefix q p) \<or> walk node p = Some b"
proof (induction q a node arbitrary: p rule: insert_attribute.induct)
  case (2 t a node)
  then show ?case by (cases p) (auto split: option.splits token.splits if_splits)
next
  case (3 t t' ts a node)
  then obtain u us where p: "p = u # us" by (cases p) auto
  show ?case
  proof (cases "map_of node t")
    case None
    have "walk [] us = None" by (cases us) auto
    with None p "3.IH"(1) [OF None, of us] "3.prems" show ?thesis
      by (cases "u = t") auto
  next
    case (Some tok)
    with 3 p show ?thesis by (cases tok) (auto split: option.splits token.splits if_splits)
  qed
qed simp

lemma tree_covers_insert:
  assumes "tree_covers as tree" and "q = tokens (attr_path a)" and "q \<noteq> []"
    and "\<forall>b \<in> set as. length (tokens (attr_path b)) \<le> length q"
    and prefixes: "\<And>p b. walk tree p = Some b \<Longrightarrow> b \<in> set as \<and> prefix (tokens (attr_path b)) p"
  shows "tree_covers (as @ [a]) (insert_attribute q a tree)"
proof -
  have no: "\<not> lands_node tree q" using walk_prefix_shorter assms(1,3,4) by blast
  have "\<exists>b \<in> set (as @ [a]). walk (insert_attribute q a tree) (tokens (attr_path x)) = Some b
          \<and> prefix (tokens (attr_path b)) (tokens (attr_path x))" if "x \<in> set (as @ [a])" for x
  proof (cases "x \<in> set as")
    case True
    then obtain b where "b \<in> set as" "walk tree (tokens (attr_path x)) = Some b"
        "prefix (tokens (attr_path b)) (tokens (attr_path x))"
      using assms(1) unfolding tree_covers_def by blast
    with walk_insert_keeps [OF this(2) no, of a] show ?thesis
      using assms(2) by auto
  next
    case False
    with that have "x = a" by simp
    with walk_insert_same [OF assms(3), of a tree] assms(2) prefixes show ?thesis by fastforce
  qed
  moreover have "\<exists>b \<in> set (as @ [a]). strict_prefix r (tokens (attr_path b))"
    if "r \<noteq> []" "lands_node (insert_attribute q a tree) r" for r
    using lands_node_insert [OF that(2)] that(1) assms(1,2) unfolding tree_covers_def by auto
  ultimately show ?thesis unfolding tree_covers_def by blast
qed

lemma attribute_tree:
  assumes "sorted (map (\<lambda>a. length (tokens (attr_path a))) as)"
    and "\<forall>a \<in> set as. tokens (attr_path a) \<noteq> []"
  shows "tree_covers as (attribute_map_new as)
    \<and> (\<forall>p b. walk (attribute_map_new as) p = Some b \<longrightarrow> b \<in> set as \<and> prefix (tokens (attr_path b)) p)"
  using assms
proof (induction as rule: rev_induct)
  case Nil
  have "walk [] p = None" for p by (cases p) auto
  moreover have "lands_node [] r \<longleftrightarrow> r = []" for r by (cases r) auto
  ultimately show ?case by (simp add: attribute_map_new_def tree_covers_def)
next
  case (snoc a as)
  let ?q = "tokens (attr_path a)"
  have new: "attribute_map_new (as @ [a]) = insert_attribute ?q a (attribute_map_new as)"
    by (simp add: attribute_map_new_def)
  have IH: "tree_covers as (attribute_map_new as)"
    "\<And>p b. walk (attribute_map_new as) p = Some b \<Longrightarrow> b \<in> set as \<and> prefix (tokens (attr_path b)) p"
    using snoc by (auto simp: sorted_append)
  moreover have "\<forall>b \<in> set as. length (tokens (attr_path b)) \<le> length ?q"
    using snoc.prems(1) by (auto simp: sorted_append)
  ultimately have "tree_covers (as @ [a]) (attribute_map_new (as @ [a]))"
    unfolding new using snoc.prems(2) by (intro tree_covers_insert) auto
  moreover have "b \<in> set (as @ [a]) \<and> prefix (tokens (attr_path b)) p"
    if "walk (attribute_map_new (as @ [a])) p = Some b" for p b
    using walk_origin [of ?q a "attribute_map_new as" p b] that IH(2) [of p b] unfolding new by auto
  ultimately show ?case by blast
qed

section \<open>Query strings\<close>

definition values_of :: "string \<Rightarrow> (string \<times> string) list \<Rightarrow> string list" where
  "values_of k kvs = map snd (filter (\<lambda>kv. fst kv = k) kvs)"

definition query_value :: "bool \<Rightarrow> string list \<Rightarrow> cel_value option" where
  "query_value repeats vs =
     (case vs of
        [] \<Rightarrow> None
      | [v] \<Rightarrow> Some (VString v)
      | v # _ \<Rightarrow> Some (if repeats then VList (map VString vs) else VString v))"

lemma query_value_snoc:
  "query_value repeats (vs @ [v]) =
     (case query_value repeats vs of
        None \<Rightarrow> Some (VString v)
      | Some old \<Rightarrow>
          Some (if repeats then (case old of VList ws \<Rightarrow> VList (ws @ [VString v]) | w \<Rightarrow> VList [w, VString v])
                else old))"
  by (cases vs rule: remdups_adj.cases) (auto simp: query_value_def)

lemma query_fold:
  "map_of (fold (query_insert repeats) kvs []) =
     (\<lambda>k. case k of KString s \<Rightarrow> query_value repeats (values_of s kvs) | _ \<Rightarrow> None)"
proof (induction kvs rule: rev_induct)
  case Nil
  show ?case by (auto simp: values_of_def query_value_def fun_eq_iff split: cel_key.splits)
next
  case (snoc kv kvs)
  have v: "values_of s (kvs @ [kv]) = (if fst kv = s then values_of s kvs @ [snd kv] else values_of s kvs)" for s
    by (simp add: values_of_def)
  show ?case
    using snoc
    by (auto simp: query_insert_def Let_def fun_eq_iff v query_value_snoc
        split: cel_key.splits option.splits cel_value.splits)
qed

section \<open>Properties\<close>







text \<open>\<^verbatim>\<open>queryMap\<close> maps every parameter name of the query to its first value, or, when asked
  for repeats, to the list of its values in order; names and values are percent-decoded and
  names that do not occur are absent.\<close>

theorem decode_query_string_spec:
  "\<exists>m. decode_query_string L s args = Ok (VMap m)
     \<and> (\<forall>k. map_of m (KString k) =
          query_value (allow_repeats args) (values_of k (map (query_pair L) (split_on (CHR ''&'') s))))"
  by (simp add: decode_query_string_def query_fold)

end
