(* ===== verification/Converters.thy ===== *)
theory Converters
  imports Cel_Types
begin

text \<open>
  \<^verbatim>\<open>src/services/dynamic/converters.rs\<close>: between CEL values and protobuf.  Descriptors and
  dynamic messages belong to a library (\<open>Cel_Types\<close>); a pool is an argument.  The text of an
  error that shows a value (\<^verbatim>\<open>got\<close>) is left out.
\<close>

datatype conversion_error =
    TypeMismatch string string
  | UnsupportedFieldType string string
  | NotAStruct
  | Stack_overflow

section \<open>Descriptors\<close>

definition desc_of :: "pool \<Rightarrow> string \<Rightarrow> message_desc" where
  "desc_of P n = (case map_of (pool_messages P) n of
     Some d \<Rightarrow> d | None \<Rightarrow> \<lparr>md_fields = [], md_map_entry = False\<rparr>)"

definition get_field_by_name :: "pool \<Rightarrow> string \<Rightarrow> string \<Rightarrow> field_desc option" where
  "get_field_by_name P n x = find (\<lambda>f. fd_name f = x) (md_fields (desc_of P n))"

definition is_map_field :: "pool \<Rightarrow> field_desc \<Rightarrow> bool" where
  "is_map_field P field =
     (fd_repeated field
      \<and> (case fd_kind field of PK_Message n \<Rightarrow> md_map_entry (desc_of P n) | _ \<Rightarrow> False))"

text \<open>\<^verbatim>\<open>supports_presence\<close>, \<^verbatim>\<open>has_field\<close> and \<^verbatim>\<open>get_field\<close> of the protobuf library.\<close>

definition supports_presence :: "field_desc \<Rightarrow> bool" where
  "supports_presence f =
     (fd_oneof f \<or> fd_optional f
      \<or> (\<not> fd_repeated f \<and> (case fd_kind f of PK_Message _ \<Rightarrow> True | _ \<Rightarrow> False)))"

definition default_value :: "pool \<Rightarrow> field_desc \<Rightarrow> proto_value" where
  "default_value P f =
     (if is_map_field P f then PMap []
      else if fd_repeated f then PList []
      else case fd_kind f of
        PK_Double \<Rightarrow> PF64 0 | PK_Float \<Rightarrow> PF32 0
      | PK_Int32 \<Rightarrow> PI32 0 | PK_Sint32 \<Rightarrow> PI32 0 | PK_Sfixed32 \<Rightarrow> PI32 0
      | PK_Int64 \<Rightarrow> PI64 0 | PK_Sint64 \<Rightarrow> PI64 0 | PK_Sfixed64 \<Rightarrow> PI64 0
      | PK_Uint32 \<Rightarrow> PU32 0 | PK_Fixed32 \<Rightarrow> PU32 0
      | PK_Uint64 \<Rightarrow> PU64 0 | PK_Fixed64 \<Rightarrow> PU64 0
      | PK_Bool \<Rightarrow> PBool False | PK_String \<Rightarrow> PString [] | PK_Bytes \<Rightarrow> PBytes []
      | PK_Enum e \<Rightarrow> PEnumNumber (case map_of (pool_enums P) e of Some (n # _) \<Rightarrow> n | _ \<Rightarrow> 0)
      | PK_Message n \<Rightarrow> PMessage n [])"

definition has_field :: "pool \<Rightarrow> (string \<times> proto_value) list \<Rightarrow> field_desc \<Rightarrow> bool" where
  "has_field P fs f =
     (case map_of fs (fd_name f) of
        None \<Rightarrow> False
      | Some v \<Rightarrow> supports_presence f \<or> v \<noteq> default_value P f)"

section \<open>Struct definitions\<close>

definition protobuf_kind_to_cel_type :: "proto_kind \<Rightarrow> (cel_type, conversion_error) result" where
  "protobuf_kind_to_cel_type kind =
     (case kind of
        PK_Bool \<Rightarrow> Ok BOOL_TYPE
      | PK_Int32 \<Rightarrow> Ok INT_TYPE | PK_Int64 \<Rightarrow> Ok INT_TYPE | PK_Sint32 \<Rightarrow> Ok INT_TYPE
      | PK_Sint64 \<Rightarrow> Ok INT_TYPE | PK_Sfixed32 \<Rightarrow> Ok INT_TYPE | PK_Sfixed64 \<Rightarrow> Ok INT_TYPE
      | PK_Uint32 \<Rightarrow> Ok UINT_TYPE | PK_Uint64 \<Rightarrow> Ok UINT_TYPE
      | PK_Fixed32 \<Rightarrow> Ok UINT_TYPE | PK_Fixed64 \<Rightarrow> Ok UINT_TYPE
      | PK_Float \<Rightarrow> Ok DOUBLE_TYPE | PK_Double \<Rightarrow> Ok DOUBLE_TYPE
      | PK_String \<Rightarrow> Ok STRING_TYPE
      | PK_Bytes \<Rightarrow> Ok BYTES_TYPE
      | PK_Message n \<Rightarrow>
          if n = ''google.protobuf.Timestamp'' then Ok TIMESTAMP_TYPE else Ok (Struct_type n)
      | PK_Enum _ \<Rightarrow> Ok INT_TYPE)"

definition add_field :: "string \<Rightarrow> cel_type \<Rightarrow> struct_def \<Rightarrow> struct_def" where
  "add_field x t d = d\<lparr>sd_fields := AList.update x t (sd_fields d)\<rparr>"

definition add_field_with_default :: "string \<Rightarrow> cel_type \<Rightarrow> cel_value \<Rightarrow> struct_def \<Rightarrow> struct_def" where
  "add_field_with_default x t v d =
     d\<lparr>sd_fields := AList.update x t (sd_fields d), sd_defaults := AList.update x v (sd_defaults d)\<rparr>"

definition struct_def_new :: "string \<Rightarrow> struct_def" where
  "struct_def_new n = \<lparr>sd_name = n, sd_fields = [], sd_defaults = []\<rparr>"

fun struct_def_fields :: "pool \<Rightarrow> field_desc list \<Rightarrow> struct_def \<Rightarrow> (struct_def, conversion_error) result" where
  "struct_def_fields P [] d = Ok d"
| "struct_def_fields P (field # rest) d =
     (case (if is_map_field P field then Ok MAP_TYPE
            else if fd_repeated field then Ok LIST_TYPE
            else protobuf_kind_to_cel_type (fd_kind field)) of
        Err e \<Rightarrow> Err e
      | Ok cel_type \<Rightarrow> struct_def_fields P rest (add_field (fd_name field) cel_type d))"

definition to_struct_def :: "pool \<Rightarrow> string \<Rightarrow> (struct_def, conversion_error) result" where
  "to_struct_def P n = struct_def_fields P (md_fields (desc_of P n)) (struct_def_new n)"

definition nested_messages :: "pool \<Rightarrow> string \<Rightarrow> string list" where
  "nested_messages P n =
     List.map_filter (\<lambda>f. case fd_kind f of PK_Message m \<Rightarrow> Some m | _ \<Rightarrow> None) (md_fields (desc_of P n))"

lemma nested_in_pool: "nested_messages P n \<noteq> [] \<Longrightarrow> n \<in> fst ` set (pool_messages P)"
  by (auto simp: nested_messages_def desc_of_def List.map_filter_def split: option.splits dest!: map_of_SomeD)
     (metis fst_conv image_eqI)

text \<open>The worklist loop: \<open>to_register\<close> is the stack, its top at the head.\<close>

function register_loop ::
  "pool \<Rightarrow> string list \<Rightarrow> string list \<Rightarrow> cel_env \<Rightarrow> (cel_env, conversion_error) result"
where
  "register_loop P [] visited env = Ok env"
| "register_loop P (desc # to_register) visited env =
     (if desc \<in> set visited then register_loop P to_register visited env
      else
        let visited' = desc # visited;
            to_register' = rev (nested_messages P desc) @ to_register
        in
          if md_map_entry (desc_of P desc) then register_loop P to_register' visited' env
          else (case to_struct_def P desc of
                  Err e \<Rightarrow> Err e
                | Ok struct_def \<Rightarrow>
                    register_loop P to_register' visited' (AList.update (sd_name struct_def) struct_def env)))"
  by pat_completeness auto

lemma register_measure:
  assumes "desc \<notin> set visited"
  shows "card (fst ` set (pool_messages P) - set (desc # visited)) < card (fst ` set (pool_messages P) - set visited)
    \<or> (card (fst ` set (pool_messages P) - set (desc # visited)) = card (fst ` set (pool_messages P) - set visited)
       \<and> nested_messages P desc = [])"
proof (cases "desc \<in> fst ` set (pool_messages P)")
  case True
  with assms show ?thesis by (intro disjI1 psubset_card_mono) auto
next
  case False
  then have "fst ` set (pool_messages P) - set (desc # visited) = fst ` set (pool_messages P) - set visited"
    by auto
  with False nested_in_pool [of P desc] show ?thesis by auto
qed

termination register_loop
proof (relation "measures [\<lambda>(P, st, vis, env). card (fst ` set (pool_messages P) - set vis),
    \<lambda>(P, st, vis, env). length st]", goal_cases)
  case (3 P desc st visited env)
  with register_measure [of desc visited P] show ?case by auto
next
  case (4 P desc st visited env)
  with register_measure [of desc visited P] show ?case by auto
qed auto

definition register_message_types :: "pool \<Rightarrow> string \<Rightarrow> cel_env \<Rightarrow> (cel_env, conversion_error) result" where
  "register_message_types P n env = register_loop P [n] [] env"

definition deny_response_struct_def :: struct_def where
  "deny_response_struct_def =
     add_field_with_default ''headers'' LIST_TYPE (VList [])
       (add_field_with_default ''body'' STRING_TYPE (VString [])
         (add_field ''status'' UINT_TYPE (struct_def_new ''DenyResponse'')))"

section \<open>Header pairs\<close>

definition key_value_pair :: "(string \<times> cel_value) list \<Rightarrow> (string \<times> string) option" where
  "key_value_pair s =
     (case (map_of s ''key'', map_of s ''value'') of
        (Some (VString k), Some (VString v)) \<Rightarrow> Some (k, v)
      | _ \<Rightarrow> None)"

definition header_pair :: "cel_value \<Rightarrow> (string \<times> string) option" where
  "header_pair item =
     (case item of
        VList [VString k, VString v] \<Rightarrow> Some (k, v)
      | VStruct _ s \<Rightarrow>
          (case key_value_pair s of
             Some kv \<Rightarrow> Some kv
           | None \<Rightarrow> (case map_of s ''header'' of
                       Some (VStruct _ h) \<Rightarrow> key_value_pair h
                     | _ \<Rightarrow> None))
      | _ \<Rightarrow> None)"

definition cel_value_to_header_pairs :: "cel_value \<Rightarrow> (string \<times> string) list" where
  "cel_value_to_header_pairs v =
     (case v of VList items \<Rightarrow> List.map_filter header_pair items | _ \<Rightarrow> [])"


section \<open>From CEL to protobuf\<close>

text \<open>\<^verbatim>\<open>!f.is_finite() || f < f32::MIN as f64 || f > f32::MAX as f64\<close> on the bits of \<^verbatim>\<open>f\<close>:
  the magnitude bits are compared with those of \<^verbatim>\<open>f32::MAX\<close>, which all infinities and NaNs
  exceed.\<close>

definition f64_in_f32_range :: "u64 \<Rightarrow> bool" where
  "f64_in_f32_range w = (unat (take_bit 63 w) \<le> 0x47EFFFFFE0000000)"

definition cel_map_key_to_proto :: "cel_key \<Rightarrow> field_desc \<Rightarrow> (map_key, conversion_error) result" where
  "cel_map_key_to_proto cel_key key_field =
     (case cel_key of
        KBool b \<Rightarrow> Ok (MK_Bool b)
      | KInt i \<Rightarrow>
          if fd_kind key_field \<in> {PK_Int32, PK_Sint32, PK_Sfixed32} then Ok (MK_I32 (ucast i))
          else if fd_kind key_field \<in> {PK_Int64, PK_Sint64, PK_Sfixed64} then Ok (MK_I64 i)
          else Err (TypeMismatch (fd_name key_field) ''int32 or int64'')
      | KUint u \<Rightarrow>
          if fd_kind key_field \<in> {PK_Uint32, PK_Fixed32} then Ok (MK_U32 (ucast u))
          else if fd_kind key_field \<in> {PK_Uint64, PK_Fixed64} then Ok (MK_U64 u)
          else Err (TypeMismatch (fd_name key_field) ''uint32 or uint64'')
      | KString s \<Rightarrow> Ok (MK_String s))"

text \<open>The list and map cases over the conversion \<open>single\<close> of one element, and the choice
  between them (\<^verbatim>\<open>cel_val_to_proto_value\<close>).\<close>

definition cel_list_to_proto_list ::
  "(cel_value \<Rightarrow> field_desc \<Rightarrow> (proto_value, conversion_error) result) \<Rightarrow> cel_value \<Rightarrow> field_desc
     \<Rightarrow> (proto_value, conversion_error) result"
where
  "cel_list_to_proto_list single v field =
     (case v of
        VList items \<Rightarrow>
          (case collect_results (\<lambda>item. single item field) items of
             Err e \<Rightarrow> Err e | Ok vs \<Rightarrow> Ok (PList vs))
      | _ \<Rightarrow> Err (TypeMismatch (fd_name field) ''list''))"

fun proto_map_entries ::
  "(cel_value \<Rightarrow> field_desc \<Rightarrow> (proto_value, conversion_error) result) \<Rightarrow> field_desc \<Rightarrow> field_desc
     \<Rightarrow> (cel_key \<times> cel_value) list \<Rightarrow> (map_key \<times> proto_value) list
     \<Rightarrow> ((map_key \<times> proto_value) list, conversion_error) result"
where
  "proto_map_entries single key_field value_field [] proto_map = Ok proto_map"
| "proto_map_entries single key_field value_field ((k, v) # m) proto_map =
     (case cel_map_key_to_proto k key_field of
        Err e \<Rightarrow> Err e
      | Ok proto_key \<Rightarrow>
          (case single v value_field of
             Err e \<Rightarrow> Err e
           | Ok proto_value \<Rightarrow>
               proto_map_entries single key_field value_field m (AList.update proto_key proto_value proto_map)))"

definition cel_map_to_proto_map ::
  "pool \<Rightarrow> (cel_value \<Rightarrow> field_desc \<Rightarrow> (proto_value, conversion_error) result) \<Rightarrow> cel_value \<Rightarrow> field_desc
     \<Rightarrow> (proto_value, conversion_error) result"
where
  "cel_map_to_proto_map P single v field =
     (case v of
        VMap m \<Rightarrow>
          (case fd_kind field of
             PK_Message entry \<Rightarrow>
               (case get_field_by_name P entry ''key'' of
                  None \<Rightarrow> Err (UnsupportedFieldType (fd_name field) ''map entry missing 'key' field'')
                | Some key_field \<Rightarrow>
                    (case get_field_by_name P entry ''value'' of
                       None \<Rightarrow> Err (UnsupportedFieldType (fd_name field) ''map entry missing 'value' field'')
                     | Some value_field \<Rightarrow>
                         (case proto_map_entries single key_field value_field m [] of
                            Err e \<Rightarrow> Err e | Ok pm \<Rightarrow> Ok (PMap pm))))
           | _ \<Rightarrow> Err (UnsupportedFieldType (fd_name field) ''kind''))
      | _ \<Rightarrow> Err (TypeMismatch (fd_name field) ''map''))"

definition cel_val_to_proto_value ::
  "pool \<Rightarrow> (cel_value \<Rightarrow> field_desc \<Rightarrow> (proto_value, conversion_error) result) \<Rightarrow> cel_value \<Rightarrow> field_desc
     \<Rightarrow> (proto_value, conversion_error) result"
where
  "cel_val_to_proto_value P single v field =
     (if is_map_field P field then cel_map_to_proto_map P single v field
      else if fd_repeated field then cel_list_to_proto_list single v field
      else single v field)"

definition sub_vals :: "cel_value \<Rightarrow> cel_value list" where
  "sub_vals v = v # (case v of VList xs \<Rightarrow> xs | VMap m \<Rightarrow> map snd m | _ \<Rightarrow> [])"

lemma proto_map_entries_cong:
  assumes "\<And>x f. x \<in> set (map snd m) \<Longrightarrow> g x f = h x f"
  shows "proto_map_entries g kf vf m acc = proto_map_entries h kf vf m acc"
  using assms by (induction g kf vf m acc rule: proto_map_entries.induct) (auto split: result.splits)

lemma cel_val_to_proto_value_cong [fundef_cong]:
  assumes "P = P'" "v = v'" "field = field'" and "\<And>x f. x \<in> set (sub_vals v') \<Longrightarrow> g x f = h x f"
  shows "cel_val_to_proto_value P g v field = cel_val_to_proto_value P' h v' field'"
proof -
  have "cel_list_to_proto_list g v' field' = cel_list_to_proto_list h v' field'"
    using assms(4) by (auto simp: cel_list_to_proto_list_def sub_vals_def split: cel_value.splits
        intro!: arg_cong [where f = "\<lambda>r. case r of Ok vs \<Rightarrow> Ok (PList vs) | Err e \<Rightarrow> Err e"] collect_results_cong)
  moreover have "cel_map_to_proto_map P' g v' field' = cel_map_to_proto_map P' h v' field'"
  proof (cases v')
    case (VMap m)
    then have "proto_map_entries g kf vf m [] = proto_map_entries h kf vf m []" for kf vf
      using assms(4) by (intro proto_map_entries_cong) (auto simp: sub_vals_def)
    with VMap show ?thesis
      by (auto simp: cel_map_to_proto_map_def split: proto_kind.splits option.splits)
  qed (auto simp: cel_map_to_proto_map_def)
  moreover have "g v' field' = h v' field'" using assms(4) by (simp add: sub_vals_def)
  ultimately show ?thesis using assms(1-3) by (simp add: cel_val_to_proto_value_def)
qed

text \<open>The loop over the fields of a descriptor that the struct has a value for
  (\<^verbatim>\<open>struct_to_dynamic_message\<close> and \<^verbatim>\<open>struct_from_val_to_message\<close> share it).\<close>

fun struct_fields ::
  "(cel_value \<Rightarrow> field_desc \<Rightarrow> (proto_value, conversion_error) result) \<Rightarrow> (string \<times> cel_value) list
     \<Rightarrow> field_desc list \<Rightarrow> (string \<times> proto_value) list
     \<Rightarrow> ((string \<times> proto_value) list, conversion_error) result"
where
  "struct_fields conv cel_struct [] message = Ok message"
| "struct_fields conv cel_struct (field # rest) message =
     (case map_of cel_struct (fd_name field) of
        None \<Rightarrow> struct_fields conv cel_struct rest message
      | Some val \<Rightarrow>
          (case conv val field of
             Err e \<Rightarrow> Err e
           | Ok proto_value \<Rightarrow>
               struct_fields conv cel_struct rest (AList.update (fd_name field) proto_value message)))"

lemma struct_fields_cong [fundef_cong]:
  assumes "s = s'" "ds = ds'" "msg = msg'" and "\<And>x f. x \<in> snd ` set s' \<Longrightarrow> g x f = h x f"
  shows "struct_fields g s ds msg = struct_fields h s' ds' msg'"
  unfolding assms(1-3) using assms(4)
proof (induction g s' ds' msg' rule: struct_fields.induct)
  case (2 conv cel_struct field rest message)
  show ?case
  proof (cases "map_of cel_struct (fd_name field)")
    case (Some val)
    then have "val \<in> snd ` set cel_struct" by (force dest: map_of_SomeD)
    with Some 2 show ?thesis by (auto split: result.splits)
  qed (use 2 in auto)
qed simp

definition timestamp_message :: "pool \<Rightarrow> string \<Rightarrow> int \<Rightarrow> string \<Rightarrow> (proto_value, conversion_error) result" where
  "timestamp_message P n ts field_name =
     (case get_field_by_name P n ''seconds'' of
        None \<Rightarrow> Err (TypeMismatch field_name ''Timestamp with seconds field'')
      | Some seconds_field \<Rightarrow>
          (case get_field_by_name P n ''nanos'' of
             None \<Rightarrow> Err (TypeMismatch field_name ''Timestamp with nanos field'')
           | Some nanos_field \<Rightarrow>
               Ok (PMessage n
                 (AList.update (fd_name nanos_field) (PI32 (word_of_int (ts mod 1000000000)))
                   (AList.update (fd_name seconds_field) (PI64 (word_of_int (ts div 1000000000))) [])))))"

lemma size_snd_list: "x \<in> snd ` set m \<Longrightarrow> size x < size_list (size_prod (\<lambda>_. 0) size) m"
proof (induction m)
  case (Cons p m)
  then have "x = snd p \<or> x \<in> snd ` set m" by auto
  then show ?case
  proof
    assume "x \<in> snd ` set m"
    then have "size x < size_list (size_prod (\<lambda>_. 0) size) m" by (rule Cons.IH)
    then show ?thesis by (cases p) simp
  qed (cases p, simp)
qed simp

lemma sub_vals_size:
  assumes "x \<in> set (sub_vals val)"
  shows "size x \<le> size val"
proof (cases val)
  case (VList xs)
  with assms have "x = val \<or> x \<in> set xs" by (auto simp: sub_vals_def)
  with VList size_list_estimation [of x xs "size x - 1" size] show ?thesis
    by (cases "size x") auto
next
  case (VMap m)
  with assms have "x = val \<or> x \<in> snd ` set m" by (auto simp: sub_vals_def)
  with VMap show ?thesis by (elim disjE) (simp_all add: less_imp_le le_SucI size_snd_list)
qed (use assms in \<open>auto simp: sub_vals_def\<close>)

function cel_val_to_single_proto_value ::
  "lib \<Rightarrow> pool \<Rightarrow> cel_value \<Rightarrow> field_desc \<Rightarrow> (proto_value, conversion_error) result"
where
  "cel_val_to_single_proto_value L P v field =
     (let field_name = fd_name field in
      case fd_kind field of
        PK_Bool \<Rightarrow>
          (case v of VBool b \<Rightarrow> Ok (PBool b) | _ \<Rightarrow> Err (TypeMismatch field_name ''bool''))
      | PK_Int32 \<Rightarrow>
          (case v of VInt i \<Rightarrow> Ok (PI32 (ucast i)) | _ \<Rightarrow> Err (TypeMismatch field_name ''int''))
      | PK_Sint32 \<Rightarrow>
          (case v of VInt i \<Rightarrow> Ok (PI32 (ucast i)) | _ \<Rightarrow> Err (TypeMismatch field_name ''int''))
      | PK_Sfixed32 \<Rightarrow>
          (case v of VInt i \<Rightarrow> Ok (PI32 (ucast i)) | _ \<Rightarrow> Err (TypeMismatch field_name ''int''))
      | PK_Int64 \<Rightarrow>
          (case v of VInt i \<Rightarrow> Ok (PI64 i) | _ \<Rightarrow> Err (TypeMismatch field_name ''int''))
      | PK_Sint64 \<Rightarrow>
          (case v of VInt i \<Rightarrow> Ok (PI64 i) | _ \<Rightarrow> Err (TypeMismatch field_name ''int''))
      | PK_Sfixed64 \<Rightarrow>
          (case v of VInt i \<Rightarrow> Ok (PI64 i) | _ \<Rightarrow> Err (TypeMismatch field_name ''int''))
      | PK_Uint32 \<Rightarrow>
          (case v of VUInt u \<Rightarrow> Ok (PU32 (ucast u)) | _ \<Rightarrow> Err (TypeMismatch field_name ''uint''))
      | PK_Fixed32 \<Rightarrow>
          (case v of VUInt u \<Rightarrow> Ok (PU32 (ucast u)) | _ \<Rightarrow> Err (TypeMismatch field_name ''uint''))
      | PK_Uint64 \<Rightarrow>
          (case v of VUInt u \<Rightarrow> Ok (PU64 u) | _ \<Rightarrow> Err (TypeMismatch field_name ''uint''))
      | PK_Fixed64 \<Rightarrow>
          (case v of VUInt u \<Rightarrow> Ok (PU64 u) | _ \<Rightarrow> Err (TypeMismatch field_name ''uint''))
      | PK_Float \<Rightarrow>
          (case v of
             VFloat f \<Rightarrow>
               if \<not> f64_in_f32_range f then Err (TypeMismatch field_name ''float value within f32 range'')
               else Ok (PF32 (f32_of_f64 L f))
           | _ \<Rightarrow> Err (TypeMismatch field_name ''float''))
      | PK_Double \<Rightarrow>
          (case v of VFloat f \<Rightarrow> Ok (PF64 f) | _ \<Rightarrow> Err (TypeMismatch field_name ''double''))
      | PK_String \<Rightarrow>
          (case v of VString s \<Rightarrow> Ok (PString s) | _ \<Rightarrow> Err (TypeMismatch field_name ''string''))
      | PK_Bytes \<Rightarrow>
          (case v of VBytes b \<Rightarrow> Ok (PBytes b) | _ \<Rightarrow> Err (TypeMismatch field_name ''bytes''))
      | PK_Enum e \<Rightarrow>
          (case v of
             VInt i \<Rightarrow>
               if sint i < - (2 ^ 31) \<or> sint i > 2 ^ 31 - 1
               then Err (TypeMismatch field_name ''int32 value for enum'')
               else if (case map_of (pool_enums P) e of Some ns \<Rightarrow> (ucast i :: u32) \<in> set ns | None \<Rightarrow> False)
               then Ok (PEnumNumber (ucast i))
               else Err (TypeMismatch field_name (''valid enum value for '' @ e))
           | _ \<Rightarrow> Err (TypeMismatch field_name ''int (enum)''))
      | PK_Message nested_desc \<Rightarrow>
          (case v of
             VTimestamp ts \<Rightarrow>
               if nested_desc = ''google.protobuf.Timestamp'' then timestamp_message P nested_desc ts field_name
               else Err (TypeMismatch field_name ''struct (nested message)'')
           | VStruct _ nested_struct \<Rightarrow>
               (case struct_fields (\<lambda>val f. cel_val_to_proto_value P (\<lambda>x fx. cel_val_to_single_proto_value L P x fx) val f)
                       nested_struct (md_fields (desc_of P nested_desc)) [] of
                  Err e \<Rightarrow> Err e
                | Ok message \<Rightarrow> Ok (PMessage nested_desc message))
           | _ \<Rightarrow> Err (TypeMismatch field_name ''struct (nested message)'')))"
  by pat_completeness auto
termination
  by (relation "measure (\<lambda>(L, P, v, f). size v)")
     (auto dest!: sub_vals_size size_snd_list)

declare cel_val_to_single_proto_value.simps [simp del]

definition cel_val_to_proto :: "lib \<Rightarrow> pool \<Rightarrow> cel_value \<Rightarrow> field_desc \<Rightarrow> (proto_value, conversion_error) result" where
  "cel_val_to_proto L P = cel_val_to_proto_value P (cel_val_to_single_proto_value L P)"

definition struct_to_dynamic_message ::
  "lib \<Rightarrow> pool \<Rightarrow> (string \<times> cel_value) list \<Rightarrow> string \<Rightarrow> (proto_value, conversion_error) result"
where
  "struct_to_dynamic_message L P cel_struct n =
     (case struct_fields (cel_val_to_proto L P) cel_struct (md_fields (desc_of P n)) [] of
        Err e \<Rightarrow> Err e
      | Ok message \<Rightarrow> Ok (PMessage n message))"

definition cel_to_dynamic_message ::
  "lib \<Rightarrow> pool \<Rightarrow> cel_value \<Rightarrow> string \<Rightarrow> (proto_value, conversion_error) result"
where
  "cel_to_dynamic_message L P v n =
     (case v of VStruct _ s \<Rightarrow> struct_to_dynamic_message L P s n | _ \<Rightarrow> Err NotAStruct)"

section \<open>From CEL to \<^verbatim>\<open>google.protobuf.Value\<close>\<close>

fun cel_to_prost_value :: "lib \<Rightarrow> cel_value \<Rightarrow> (prost_value, conversion_error) result"
and cel_to_prost_list :: "lib \<Rightarrow> cel_value list \<Rightarrow> (prost_value list, conversion_error) result"
and cel_to_prost_fields ::
  "lib \<Rightarrow> (cel_key \<times> cel_value) list \<Rightarrow> (string \<times> prost_value) list
     \<Rightarrow> ((string \<times> prost_value) list, conversion_error) result"
where
  "cel_to_prost_value L v =
     (case v of
        VNull \<Rightarrow> Ok PV_Null
      | VFloat f \<Rightarrow> Ok (PV_Number f)
      | VInt i \<Rightarrow> Ok (PV_Number (f64_of_i64 L i))
      | VUInt u \<Rightarrow> Ok (PV_Number (f64_of_u64 L u))
      | VString s \<Rightarrow> Ok (PV_String s)
      | VBool b \<Rightarrow> Ok (PV_Bool b)
      | VBytes b \<Rightarrow> Ok (PV_String (utf8_lossy L b))
      | VMap m \<Rightarrow>
          (case cel_to_prost_fields L m [] of Err e \<Rightarrow> Err e | Ok fs \<Rightarrow> Ok (PV_Struct fs))
      | VList items \<Rightarrow>
          (case cel_to_prost_list L items of Err e \<Rightarrow> Err e | Ok vs \<Rightarrow> Ok (PV_List vs))
      | _ \<Rightarrow> Err (TypeMismatch ''value'' ''null, number, string, bool, map, or list''))"
| "cel_to_prost_list L [] = Ok []"
| "cel_to_prost_list L (v # vs) =
     (case cel_to_prost_value L v of
        Err e \<Rightarrow> Err e
      | Ok y \<Rightarrow> (case cel_to_prost_list L vs of Err e \<Rightarrow> Err e | Ok ys \<Rightarrow> Ok (y # ys)))"
| "cel_to_prost_fields L [] fs = Ok fs"
| "cel_to_prost_fields L ((k, v) # m) fs =
     (case k of
        KString key_str \<Rightarrow>
          (case cel_to_prost_value L v of
             Err e \<Rightarrow> Err e
           | Ok y \<Rightarrow> cel_to_prost_fields L m (bt_insert key_str y fs))
      | _ \<Rightarrow> Err (TypeMismatch ''map key'' ''string''))"

definition cel_to_prost_struct ::
  "lib \<Rightarrow> cel_value \<Rightarrow> ((string \<times> prost_value) list, conversion_error) result"
where
  "cel_to_prost_struct L v =
     (case v of VMap m \<Rightarrow> cel_to_prost_fields L m [] | _ \<Rightarrow> Err (TypeMismatch ''value'' ''map''))"

definition cel_value_to_bytes :: "lib \<Rightarrow> cel_value \<Rightarrow> (bytes, conversion_error) result" where
  "cel_value_to_bytes L v =
     (case v of
        VMap _ \<Rightarrow> (case cel_to_prost_struct L v of Err e \<Rightarrow> Err e | Ok fs \<Rightarrow> Ok (encode_prost_struct L fs))
      | _ \<Rightarrow> (case cel_to_prost_value L v of Err e \<Rightarrow> Err e | Ok pv \<Rightarrow> Ok (encode_prost_value L pv)))"


section \<open>From protobuf to CEL\<close>

definition get_field :: "pool \<Rightarrow> (string \<times> proto_value) list \<Rightarrow> field_desc \<Rightarrow> proto_value" where
  "get_field P fs f = (case map_of fs (fd_name f) of Some v \<Rightarrow> v | None \<Rightarrow> default_value P f)"

definition map_key_to_cel :: "map_key \<Rightarrow> cel_key" where
  "map_key_to_cel key =
     (case key of
        MK_Bool b \<Rightarrow> KBool b
      | MK_I32 i \<Rightarrow> KInt (scast i)
      | MK_I64 i \<Rightarrow> KInt i
      | MK_U32 u \<Rightarrow> KUint (ucast u)
      | MK_U64 u \<Rightarrow> KUint u
      | MK_String s \<Rightarrow> KString s)"

definition proto_timestamp_to_cel_timestamp ::
  "lib \<Rightarrow> pool \<Rightarrow> string \<Rightarrow> (string \<times> proto_value) list \<Rightarrow> (cel_value, conversion_error) result"
where
  "proto_timestamp_to_cel_timestamp L P n fs =
     (case get_field_by_name P n ''seconds'' of
        None \<Rightarrow> Err (TypeMismatch ''seconds'' ''google.protobuf.Timestamp must have seconds field'')
      | Some seconds_field \<Rightarrow>
          (case get_field_by_name P n ''nanos'' of
             None \<Rightarrow> Err (TypeMismatch ''nanos'' ''google.protobuf.Timestamp must have nanos field'')
           | Some nanos_field \<Rightarrow>
               (case get_field P fs seconds_field of
                  PI64 s \<Rightarrow>
                    (case get_field P fs nanos_field of
                       PI32 ns \<Rightarrow>
                         (case chrono_from_timestamp L (sint s) (unat ns) of
                            Some ts \<Rightarrow> Ok (VTimestamp ts)
                          | None \<Rightarrow> Err (TypeMismatch ''timestamp'' ''valid timestamp''))
                     | _ \<Rightarrow> Err (TypeMismatch ''nanos'' ''i32''))
                | _ \<Rightarrow> Err (TypeMismatch ''seconds'' ''i64''))))"

fun message_fields ::
  "(proto_value \<Rightarrow> (cel_value, conversion_error) result) \<Rightarrow> pool \<Rightarrow> (string \<times> proto_value) list
     \<Rightarrow> field_desc list \<Rightarrow> (string \<times> cel_value) list
     \<Rightarrow> ((string \<times> cel_value) list, conversion_error) result"
where
  "message_fields conv P fs [] cel_struct = Ok cel_struct"
| "message_fields conv P fs (field # rest) cel_struct =
     (if \<not> has_field P fs field \<and> supports_presence field
      then message_fields conv P fs rest cel_struct
      else (case conv (get_field P fs field) of
              Err e \<Rightarrow> Err e
            | Ok v \<Rightarrow> message_fields conv P fs rest (AList.update (fd_name field) v cel_struct)))"

fun map_entries ::
  "(proto_value \<Rightarrow> (cel_value, conversion_error) result) \<Rightarrow> (map_key \<times> proto_value) list
     \<Rightarrow> (cel_key \<times> cel_value) list \<Rightarrow> ((cel_key \<times> cel_value) list, conversion_error) result"
where
  "map_entries conv [] m = Ok m"
| "map_entries conv ((key, v) # es) m =
     (case conv v of
        Err e \<Rightarrow> Err e
      | Ok cv \<Rightarrow> map_entries conv es (AList.update (map_key_to_cel key) cv m))"

lemma message_fields_cong [fundef_cong]:
  assumes "P = P'" "fs = fs'" "ds = ds'" "acc = acc'"
    and "\<And>f. has_field P' fs' f \<or> \<not> supports_presence f \<Longrightarrow> g (get_field P' fs' f) = h (get_field P' fs' f)"
  shows "message_fields g P fs ds acc = message_fields h P' fs' ds' acc'"
  unfolding assms(1-4) using assms(5)
  by (induction g P' fs' ds' acc' rule: message_fields.induct) (auto split: result.splits)

lemma map_entries_cong [fundef_cong]:
  assumes "es = es'" "acc = acc'" and "\<And>x. x \<in> snd ` set es' \<Longrightarrow> g x = h x"
  shows "map_entries g es acc = map_entries h es' acc'"
  unfolding assms(1,2) using assms(3)
  by (induction g es' acc' rule: map_entries.induct) (auto split: result.splits)

text \<open>The field of a \<^verbatim>\<open>google.protobuf.Value\<close> that the loop of \<^verbatim>\<open>unwrap_proto_value\<close> stops at.\<close>

definition value_field :: "pool \<Rightarrow> (string \<times> proto_value) list \<Rightarrow> string \<Rightarrow> field_desc option" where
  "value_field P fs n =
     find (\<lambda>field. \<not> (fd_oneof field \<and> \<not> has_field P fs field)) (md_fields (desc_of P n))"

abbreviation VALUE :: string where "VALUE \<equiv> ''google.protobuf.Value''"

definition conv_size :: "proto_value \<Rightarrow> nat" where
  "conv_size v = 2 * size v + (case v of PMessage n _ \<Rightarrow> if n = VALUE then 2 else 1 | _ \<Rightarrow> 0)"

lemma get_field_size:
  "get_field P fs f \<in> snd ` set fs \<or> (map_of fs (fd_name f) = None \<and> get_field P fs f = default_value P f)"
  by (auto simp: get_field_def split: option.splits dest!: map_of_SomeD) (metis image_eqI snd_conv)

lemma conv_size_in_list: "x \<in> set xs \<Longrightarrow> conv_size x < conv_size (PList xs)"
proof (induction xs)
  case (Cons y xs)
  then show ?case
    by (auto simp: conv_size_def split: proto_value.splits)
qed simp

lemma conv_size_in_map: "x \<in> snd ` set m \<Longrightarrow> conv_size x < conv_size (PMap m)"
  using size_snd_list [of x m] by (auto simp: conv_size_def split: proto_value.splits)

lemma conv_size_in_message: "x \<in> snd ` set fs \<Longrightarrow> conv_size x < conv_size (PMessage n fs)"
  using size_snd_list [of x fs] by (auto simp: conv_size_def split: proto_value.splits)

lemma conv_size_default:
  assumes "default_value P f \<noteq> PMessage VALUE []"
  shows "conv_size (default_value P f) < conv_size (PMessage VALUE fs)"
  using assms
  by (auto simp: conv_size_def default_value_def split: proto_kind.splits if_splits)

lemma conv_size_no_presence:
  assumes "\<not> supports_presence f"
  shows "conv_size (default_value P f) < conv_size (PMessage n fs)"
  using assms
  by (auto simp: conv_size_def default_value_def supports_presence_def
      split: proto_kind.splits if_splits)

lemma conv_size_get_field:
  "map_of fs (fd_name f) \<noteq> None \<or> \<not> supports_presence f \<Longrightarrow>
     conv_size (get_field P fs f) < conv_size (PMessage n fs)"
  using get_field_size [of P fs f] conv_size_in_message [of "get_field P fs f" fs n]
    conv_size_no_presence [of f P n fs] by auto

lemma has_field_set: "has_field P fs f \<Longrightarrow> map_of fs (fd_name f) \<noteq> None"
  by (auto simp: has_field_def split: option.splits)

lemma conv_size_map_field:
  "get_field P fs f = PMap m \<Longrightarrow> x \<in> snd ` set m \<Longrightarrow> conv_size x < conv_size (PMessage n fs)"
proof -
  assume g: "get_field P fs f = PMap m" and x: "x \<in> snd ` set m"
  have "get_field P fs f \<in> snd ` set fs"
    using get_field_size [of P fs f] g x by (auto simp: default_value_def split: proto_kind.splits if_splits)
  with g x show ?thesis using conv_size_in_map [of x m] conv_size_in_message [of "PMap m" fs n] by auto
qed

lemma conv_size_list_field:
  "get_field P fs f = PList m \<Longrightarrow> x \<in> set m \<Longrightarrow> conv_size x < conv_size (PMessage n fs)"
proof -
  assume g: "get_field P fs f = PList m" and x: "x \<in> set m"
  have "get_field P fs f \<in> snd ` set fs"
    using get_field_size [of P fs f] g x by (auto simp: default_value_def split: proto_kind.splits if_splits)
  with g x show ?thesis using conv_size_in_list [of x m] conv_size_in_message [of "PList m" fs n] by auto
qed

text \<open>\<^verbatim>\<open>proto_value_to_cel_val\<close> with the four well-known messages it unwraps.  An unset
  \<^verbatim>\<open>google.protobuf.Value\<close> field that is itself such a message without a oneof would make the
  code recurse for ever: the branch that ends in \<open>Stack_overflow\<close>.\<close>

function proto_value_to_cel_val :: "lib \<Rightarrow> pool \<Rightarrow> proto_value \<Rightarrow> (cel_value, conversion_error) result" where
  "proto_value_to_cel_val L P v =
     (case v of
        PBool b \<Rightarrow> Ok (VBool b)
      | PI32 i \<Rightarrow> Ok (VInt (scast i))
      | PI64 i \<Rightarrow> Ok (VInt i)
      | PU32 u \<Rightarrow> Ok (VUInt (ucast u))
      | PU64 u \<Rightarrow> Ok (VUInt u)
      | PF32 f \<Rightarrow> Ok (VFloat (f64_of_f32 L f))
      | PF64 f \<Rightarrow> Ok (VFloat f)
      | PString s \<Rightarrow> Ok (VString s)
      | PBytes b \<Rightarrow> Ok (VBytes b)
      | PEnumNumber n \<Rightarrow> Ok (VInt (scast n))
      | PMessage n fs \<Rightarrow>
          if n = ''google.protobuf.Timestamp'' then proto_timestamp_to_cel_timestamp L P n fs
          else if n = ''google.protobuf.Struct'' then
            (case get_field_by_name P n ''fields'' of
               None \<Rightarrow> Err (TypeMismatch ''fields'' ''google.protobuf.Struct must have fields'')
             | Some fields_field \<Rightarrow>
                 (case get_field P fs fields_field of
                    PMap entries \<Rightarrow>
                      (case map_entries (\<lambda>x. proto_value_to_cel_val L P x) entries [] of
                         Err e \<Rightarrow> Err e | Ok m \<Rightarrow> Ok (VMap m))
                  | _ \<Rightarrow> Err (TypeMismatch ''fields'' ''map'')))
          else if n = VALUE then
            (case value_field P fs n of
               None \<Rightarrow> Ok VNull
             | Some field \<Rightarrow>
                 if fd_name field = ''null_value'' then Ok VNull
                 else if fd_name field \<in> {''number_value'', ''string_value'', ''bool_value'',
                        ''struct_value'', ''list_value''} then
                   (if map_of fs (fd_name field) = None \<and> default_value P field = PMessage VALUE []
                    then Err Stack_overflow
                    else proto_value_to_cel_val L P (get_field P fs field))
                 else Err (UnsupportedFieldType (fd_name field) ''unknown google.protobuf.Value variant''))
          else if n = ''google.protobuf.ListValue'' then
            (case get_field_by_name P n ''values'' of
               None \<Rightarrow> Err (TypeMismatch ''values'' ''google.protobuf.ListValue must have values'')
             | Some values_field \<Rightarrow>
                 (case get_field P fs values_field of
                    PList items \<Rightarrow>
                      (case collect_results (\<lambda>x. proto_value_to_cel_val L P x) items of
                         Err e \<Rightarrow> Err e | Ok vs \<Rightarrow> Ok (VList vs))
                  | _ \<Rightarrow> Err (TypeMismatch ''values'' ''list'')))
          else
            (case message_fields (\<lambda>x. proto_value_to_cel_val L P x) P fs (md_fields (desc_of P n)) [] of
               Err e \<Rightarrow> Err e
             | Ok cel_struct \<Rightarrow> Ok (VStruct n cel_struct))
      | PList items \<Rightarrow>
          (case collect_results (\<lambda>x. proto_value_to_cel_val L P x) items of
             Err e \<Rightarrow> Err e | Ok vs \<Rightarrow> Ok (VList vs))
      | PMap entries \<Rightarrow>
          (case map_entries (\<lambda>x. proto_value_to_cel_val L P x) entries [] of
             Err e \<Rightarrow> Err e | Ok m \<Rightarrow> Ok (VMap m)))"
  by pat_completeness auto
termination
proof (relation "measure (\<lambda>(L, P, v). conv_size v)", goal_cases)
  case 1
  then show ?case by simp
next
  case (2 L P v n fs f m x)
  then show ?case by (simp add: conv_size_map_field)
next
  case (3 L P v n fs f)
  show ?case
  proof (cases "map_of fs (fd_name f) = None")
    case True
    with 3 show ?thesis
      by (auto simp: get_field_def intro!: conv_size_default)
  next
    case False
    with 3 show ?thesis by (auto intro!: conv_size_get_field)
  qed
next
  case (4 L P v n fs f m x)
  then show ?case by (simp add: conv_size_list_field)
next
  case (5 L P v n fs f)
  then show ?case by (auto intro!: conv_size_get_field dest: has_field_set)
next
  case (6 L P v m x)
  then show ?case by (simp add: conv_size_in_list)
next
  case (7 L P v m x)
  then show ?case by (simp add: conv_size_in_map)
qed

declare proto_value_to_cel_val.simps [simp del]

definition dynamic_message_to_cel ::
  "lib \<Rightarrow> pool \<Rightarrow> string \<Rightarrow> (string \<times> proto_value) list \<Rightarrow> (cel_value, conversion_error) result"
where
  "dynamic_message_to_cel L P n fs =
     (case message_fields (proto_value_to_cel_val L P) P fs (md_fields (desc_of P n)) [] of
        Err e \<Rightarrow> Err e
      | Ok cel_struct \<Rightarrow> Ok (VStruct n cel_struct))"

section \<open>Facts\<close>

inductive_set msg_reach :: "pool \<Rightarrow> string set \<Rightarrow> string set \<Rightarrow> string set"
  for P :: pool and V :: "string set" and S :: "string set"
where
  start: "n \<in> S \<Longrightarrow> n \<notin> V \<Longrightarrow> n \<in> msg_reach P V S"
| nested: "n \<in> msg_reach P V S \<Longrightarrow> m \<in> set (nested_messages P n) \<Longrightarrow> m \<notin> V \<Longrightarrow> m \<in> msg_reach P V S"

lemma msg_reach_empty [simp]: "msg_reach P V {} = {}"
proof -
  have "n \<in> msg_reach P V {} \<Longrightarrow> False" for n by (induction rule: msg_reach.induct) auto
  then show ?thesis by auto
qed

lemma msg_reach_visited: "d \<in> V \<Longrightarrow> msg_reach P V (insert d S) = msg_reach P V S"
proof -
  assume d: "d \<in> V"
  have "n \<in> msg_reach P V (insert d S) \<Longrightarrow> n \<in> msg_reach P V S" for n
    by (induction rule: msg_reach.induct) (use d in \<open>auto intro: msg_reach.intros\<close>)
  moreover have "n \<in> msg_reach P V S \<Longrightarrow> n \<in> msg_reach P V (insert d S)" for n
    by (induction rule: msg_reach.induct) (auto intro: msg_reach.intros)
  ultimately show ?thesis by blast
qed

lemma msg_reach_visit:
  assumes "d \<notin> V"
  shows "msg_reach P V (insert d S) =
         insert d (msg_reach P (insert d V) (set (nested_messages P d) \<union> S))" (is "?L = insert d ?R")
proof -
  have "n \<in> ?L \<Longrightarrow> n \<in> insert d ?R" for n
    by (induction rule: msg_reach.induct) (auto intro: msg_reach.intros)
  moreover have "n \<in> ?R \<Longrightarrow> n \<in> ?L" for n
  proof (induction rule: msg_reach.induct)
    case (start n)
    with assms have "d \<in> ?L" by (auto intro: msg_reach.start)
    with start show ?case by (auto intro: msg_reach.intros)
  qed (auto intro: msg_reach.intros)
  ultimately show ?thesis using assms by (auto intro: msg_reach.start)
qed

lemma struct_def_fields_total:
  "\<exists>d'. struct_def_fields P fs d = Ok d' \<and> sd_name d' = sd_name d"
proof (induction P fs d rule: struct_def_fields.induct)
  case (2 P field rest d)
  have "\<exists>t. (if is_map_field P field then Ok MAP_TYPE
            else if fd_repeated field then Ok LIST_TYPE
            else protobuf_kind_to_cel_type (fd_kind field)) = Ok t"
    by (auto simp: protobuf_kind_to_cel_type_def split: proto_kind.splits)
  then obtain t where "(if is_map_field P field then Ok MAP_TYPE
            else if fd_repeated field then Ok LIST_TYPE
            else protobuf_kind_to_cel_type (fd_kind field)) = Ok t" by blast
  with "2.IH" [OF this] show ?case by (simp add: add_field_def)
qed simp

lemma to_struct_def_total: "\<exists>d. to_struct_def P n = Ok d \<and> sd_name d = n"
  using struct_def_fields_total [of P "md_fields (desc_of P n)" "struct_def_new n"]
  by (simp add: to_struct_def_def struct_def_new_def)

lemma register_loop_spec:
  "\<exists>env'. register_loop P st visited env = Ok env'
     \<and> (\<forall>m. map_of env' m =
          (if m \<in> msg_reach P (set visited) (set st) \<and> \<not> md_map_entry (desc_of P m)
           then (case to_struct_def P m of Ok d \<Rightarrow> Some d | Err _ \<Rightarrow> None) else map_of env m))"
proof (induction P st visited env rule: register_loop.induct)
  case (2 P desc st visited env)
  show ?case
  proof (cases "desc \<in> set visited")
    case True
    with 2(1) show ?thesis by (simp add: msg_reach_visited)
  next
    case False
    from to_struct_def_total obtain d where d: "to_struct_def P desc = Ok d" "sd_name d = desc" by blast
    have reach: "msg_reach P (set visited) (set (desc # st)) =
        insert desc (msg_reach P (insert desc (set visited)) (set (nested_messages P desc) \<union> set st))"
      using msg_reach_visit [of desc "set visited" P "set st"] False by simp
    show ?thesis
    proof (cases "md_map_entry (desc_of P desc)")
      case True
      from 2(2) [OF False refl refl True] obtain env' where
        e: "register_loop P (rev (nested_messages P desc) @ st) (desc # visited) env = Ok env'"
        and m: "\<And>m. map_of env' m =
          (if m \<in> msg_reach P (insert desc (set visited)) (set (nested_messages P desc) \<union> set st)
              \<and> \<not> md_map_entry (desc_of P m)
           then (case to_struct_def P m of Ok d \<Rightarrow> Some d | Err _ \<Rightarrow> None) else map_of env m)" by auto
      from e have "register_loop P (desc # st) visited env = Ok env'" using False True by simp
      moreover have "map_of env' m = (if m \<in> msg_reach P (set visited) (set (desc # st))
            \<and> \<not> md_map_entry (desc_of P m)
           then (case to_struct_def P m of Ok d \<Rightarrow> Some d | Err _ \<Rightarrow> None) else map_of env m)" for m
        using True unfolding reach m by auto
      ultimately show ?thesis by blast
    next
      case nme: False
      from 2(3) [OF False refl refl nme d(1)] obtain env' where
        e: "register_loop P (rev (nested_messages P desc) @ st) (desc # visited)
              (AList.update (sd_name d) d env) = Ok env'"
        and m: "\<And>m. map_of env' m =
          (if m \<in> msg_reach P (insert desc (set visited)) (set (nested_messages P desc) \<union> set st)
              \<and> \<not> md_map_entry (desc_of P m)
           then (case to_struct_def P m of Ok d \<Rightarrow> Some d | Err _ \<Rightarrow> None)
           else ((map_of env)(desc \<mapsto> d)) m)" using d(2) by auto
      from e have "register_loop P (desc # st) visited env = Ok env'" using False nme d(1) by simp
      moreover have "map_of env' m = (if m \<in> msg_reach P (set visited) (set (desc # st))
            \<and> \<not> md_map_entry (desc_of P m)
           then (case to_struct_def P m of Ok d \<Rightarrow> Some d | Err _ \<Rightarrow> None) else map_of env m)" for m
        using nme d(1) unfolding reach m by auto
      ultimately show ?thesis by blast
    qed
  qed
qed simp

lemma register_types_spec:
  "\<exists>env'. register_message_types P n env = Ok env'
     \<and> (\<forall>m. m \<in> msg_reach P {} {n} \<and> \<not> md_map_entry (desc_of P m) \<or> map_of env m \<noteq> None
           \<longrightarrow> map_of env' m \<noteq> None)"
proof -
  from register_loop_spec [of P "[n]" "[]" env] obtain env' where
    e: "register_message_types P n env = Ok env'"
    and m: "\<And>m. map_of env' m = (if m \<in> msg_reach P {} {n} \<and> \<not> md_map_entry (desc_of P m)
      then (case to_struct_def P m of Ok d \<Rightarrow> Some d | Err _ \<Rightarrow> None) else map_of env m)"
    by (auto simp: register_message_types_def)
  have "map_of env' m \<noteq> None" if "m \<in> msg_reach P {} {n} \<and> \<not> md_map_entry (desc_of P m) \<or> map_of env m \<noteq> None" for m
    using m [of m] that to_struct_def_total [of P m] by (auto split: result.splits)
  with e show ?thesis by blast
qed

lemma scast_ucast_i32:
  fixes i :: u64
  assumes "- (2 ^ 31) \<le> sint i" and "sint i < 2 ^ 31"
  shows "(scast (ucast i :: u32) :: u64) = i"
proof -
  have "sint (ucast i :: u32) = signed_take_bit 31 (sint i)"
    by (simp add: sint_uint unsigned_ucast_eq signed_take_bit_take_bit min_def
        take_bit_signed_take_bit flip: take_bit_eq_mod)
  also have "\<dots> = sint i"
    using assms by (simp add: signed_take_bit_int_eq_self)
  finally show ?thesis by (simp add: scast_eq)
qed

lemma proto_scalar_to_cel [simp]:
  "proto_value_to_cel_val L P (PBool b) = Ok (VBool b)"
  "proto_value_to_cel_val L P (PI32 i) = Ok (VInt (scast i))"
  "proto_value_to_cel_val L P (PI64 j) = Ok (VInt j)"
  "proto_value_to_cel_val L P (PU32 u) = Ok (VUInt (ucast u))"
  "proto_value_to_cel_val L P (PU64 w) = Ok (VUInt w)"
  "proto_value_to_cel_val L P (PF64 f) = Ok (VFloat f)"
  "proto_value_to_cel_val L P (PString s) = Ok (VString s)"
  "proto_value_to_cel_val L P (PBytes bs) = Ok (VBytes bs)"
  "proto_value_to_cel_val L P (PEnumNumber n) = Ok (VInt (scast n))"
  by (subst proto_value_to_cel_val.simps, simp)+

lemma prost_list_Ok:
  "is_ok (cel_to_prost_list L vs) \<longleftrightarrow> (\<forall>v \<in> set vs. is_ok (cel_to_prost_value L v))"
  by (induction vs) (auto split: result.splits simp del: cel_to_prost_value.simps)

lemma prost_fields_Ok:
  "is_ok (cel_to_prost_fields L m fs) \<longleftrightarrow>
     (\<forall>(k, v) \<in> set m. (\<exists>s. k = KString s) \<and> is_ok (cel_to_prost_value L v))"
  by (induction m arbitrary: fs)
     (auto split: result.splits cel_key.splits simp del: cel_to_prost_value.simps)

text \<open>The values a \<^verbatim>\<open>google.protobuf.Value\<close> can hold.\<close>

fun json_like :: "cel_value \<Rightarrow> bool" where
  "json_like (VList xs) = list_all json_like xs"
| "json_like (VMap m) = list_all (\<lambda>(k, v). (case k of KString _ \<Rightarrow> True | _ \<Rightarrow> False) \<and> json_like v) m"
| "json_like (VStruct _ _) = False"
| "json_like (VTimestamp _) = False"
| "json_like VOther = False"
| "json_like _ = True"

lemma cel_to_prost_value_is_ok: "is_ok (cel_to_prost_value L v) \<longleftrightarrow> json_like v"
proof (induction v rule: json_like.induct)
  case (1 xs)
  have "is_ok (cel_to_prost_value L (VList xs)) \<longleftrightarrow> is_ok (cel_to_prost_list L xs)"
    by (simp split: result.splits)
  with 1 show ?case by (simp add: prost_list_Ok list_all_iff del: cel_to_prost_value.simps)
next
  case (2 m)
  have "is_ok (cel_to_prost_value L (VMap m)) \<longleftrightarrow> is_ok (cel_to_prost_fields L m [])"
    by (simp split: result.splits)
  also have "\<dots> \<longleftrightarrow> json_like (VMap m)"
    using 2 by (force simp: prost_fields_Ok list_all_iff split: cel_key.splits
        simp del: cel_to_prost_value.simps)
  finally show ?case .
qed simp_all

section \<open>Properties\<close>

text \<open>C29: registering a message type never fails and adds exactly the struct definitions of the
  messages reachable from it through message fields, map entries left out; recursive message
  types are handled, and definitions of other messages stay.\<close>

theorem register_message_types_reachable:
  "\<exists>env'. register_message_types P n env = Ok env'
     \<and> (\<forall>m. map_of env' m =
          (if m \<in> msg_reach P {} {n} \<and> \<not> md_map_entry (desc_of P m)
           then (case to_struct_def P m of Ok d \<Rightarrow> Some d | Err _ \<Rightarrow> None) else map_of env m))"
  using register_loop_spec [of P "[n]" "[]" env] by (simp add: register_message_types_def)

text \<open>C30: a CEL scalar written to a singular protobuf field and read back is the same value:
  always for bool, 64-bit integers, double, string, bytes and enum fields, and for 32-bit
  integer fields when the value fits.\<close>

theorem scalar_field_roundtrip:
  assumes "cel_val_to_single_proto_value L P v field = Ok pv"
    and "case fd_kind field of PK_Message _ \<Rightarrow> False | PK_Float \<Rightarrow> False | _ \<Rightarrow> True"
    and "fd_kind field \<in> {PK_Int32, PK_Sint32, PK_Sfixed32} \<Longrightarrow>
           \<exists>i. v = VInt i \<and> - (2 ^ 31) \<le> sint i \<and> sint i < 2 ^ 31"
    and "fd_kind field \<in> {PK_Uint32, PK_Fixed32} \<Longrightarrow> \<exists>u. v = VUInt u \<and> unat u < 2 ^ 32"
  shows "proto_value_to_cel_val L P pv = Ok v"
proof -
  have u: "(ucast (ucast u :: u32) :: u64) = u" if "unat u < 2 ^ 32" for u :: u64
  proof -
    have "unat (ucast (ucast u :: u32) :: u64) = take_bit 64 (take_bit 32 (unat u))"
      by (simp add: unsigned_ucast_eq unsigned_take_bit_eq)
    also have "\<dots> = unat u" using that by (simp add: take_bit_nat_eq_self)
    finally show ?thesis by (simp add: word_unat_eq_iff)
  qed
  show ?thesis
    using assms
    by (subst (asm) cel_val_to_single_proto_value.simps, cases "fd_kind field"; cases v)
       (auto simp: Let_def scast_ucast_i32 u split: if_splits)
qed

definition demo_field :: "proto_kind \<Rightarrow> field_desc" where
  "demo_field k = \<lparr>fd_name = ''hits'', fd_kind = k, fd_repeated = False, fd_optional = False, fd_oneof = False\<rparr>"

definition demo_pool :: pool where
  "demo_pool = \<lparr>pool_messages = [(''M'', \<lparr>md_fields = [demo_field PK_Uint32], md_map_entry = False\<rparr>)],
     pool_enums = [], pool_services = [(''S'', [(''Check'', ''M'', ''M'')])]\<rparr>"

theorem scalar_field_roundtrip_witness:
  "proto_value_to_cel_val (demo_lib EUnspecified) demo_pool (PU32 7) = Ok (VUInt 7)"
proof (rule scalar_field_roundtrip [where field = "demo_field PK_Uint32"])
  show "cel_val_to_single_proto_value (demo_lib EUnspecified) demo_pool (VUInt 7) (demo_field PK_Uint32) = Ok (PU32 7)"
    by (subst cel_val_to_single_proto_value.simps) (simp add: demo_field_def Let_def)
qed (simp_all add: demo_field_def)


text \<open>A CEL value can be stored as bytes exactly when it is null, a boolean, a number, a
  string, bytes, or lists and string-keyed maps of such values; every other value is reported
  as a type mismatch.\<close>

lemma cel_value_to_bytes_ok: "is_ok (cel_value_to_bytes L v) \<longleftrightarrow> json_like v"
proof -
  have "is_ok (cel_value_to_bytes L v) \<longleftrightarrow> is_ok (cel_to_prost_value L v)"
    by (auto simp: cel_value_to_bytes_def cel_to_prost_struct_def split: cel_value.splits result.splits)
  then show ?thesis by (simp only: cel_to_prost_value_is_ok)
qed

end
