(* ===== verification/Config.thy ===== *)
theory Config
  imports Shim_Prelude
begin

text \<open>
  \<^verbatim>\<open>src/configuration.rs\<close>, the configuration as \<^verbatim>\<open>serde\<close> delivers it, and
  \<^verbatim>\<open>src/configuration/legacy_translation.rs\<close>, which turns a legacy action into a typed one by
  writing CEL source text.  The texts are kept character for character.
\<close>

section \<open>The configuration\<close>

record static_item = si_value :: string  si_key :: string
record expression_item = ei_key :: string  ei_value :: string

datatype data_type = Static static_item | Expression_item expression_item

record conditional_data =
  cd_predicates :: "string list"
  cd_data :: "data_type list"

record legacy_action =
  la_service :: string
  la_scope :: string
  la_predicates :: "string list"
  la_conditional_data :: "conditional_data list"
  la_sources :: "string list"

datatype headers_target = Request_target | Response_target

datatype typed_action =
  TypedAction (ta_predicate: string) (ta_terminal: bool) (ta_is_guard: bool) (ta_sources: "string list")
    (ta_operation: config_operation)
and config_operation =
    Grpc_op string string string "typed_action list"
  | Deny_op string
  | Headers_op headers_target string
  | Store_op string string bool
  | Fail_op string

datatype action_config = Typed typed_action | Legacy legacy_action

record action_set =
  as_name :: string
  as_hostnames :: "string list"
  as_predicates :: "string list"
  as_actions :: "action_config list"

datatype failure_mode = Mode_Deny | Mode_Allow

datatype service_type =
    ST_Auth | ST_RateLimit | ST_RateLimitCheck | ST_RateLimitReport | ST_Tracing | ST_Dynamic

record service_config =
  sc_service_type :: service_type
  sc_endpoint :: string
  sc_failure_mode :: failure_mode
  sc_timeout :: nat
  sc_grpc_service :: "string option"
  sc_grpc_method :: "string option"

text \<open>Timeouts are nanoseconds.  \<open>duration\<close> is CEL's \<^verbatim>\<open>duration\<close> function: a (signed) duration, or
  \<open>None\<close> for any other value.\<close>

definition timeout_default :: nat where
  "timeout_default = 20 * 1000000"

definition timeout_visit_string ::
  "(string \<Rightarrow> (int option, string) result) \<Rightarrow> string \<Rightarrow> (nat, string) result"
where
  "timeout_visit_string duration s =
     (case duration s of
        Ok (Some d) \<Rightarrow>
          if d < 0 then Err ''Source duration value is out of range for the target type'' else Ok (nat d)
      | Err e \<Rightarrow> Err e
      | Ok None \<Rightarrow> Err ''Unsupported Duration Value'')"

record observability =
  ob_http_header_identifier :: "string option"
  ob_default_level :: "string option"
  ob_tracing :: "string option"

record plugin_configuration =
  pc_request_data :: "(string \<times> string) list"
  pc_services :: "(string \<times> service_config) list"
  pc_action_sets :: "action_set list"
  pc_observability :: observability
  pc_descriptor_service :: string

section \<open>Writing CEL text\<close>

abbreviation dquote :: char where "dquote \<equiv> CHR 0x22"
abbreviation newline :: char where "newline \<equiv> CHR 0x0A"
abbreviation bslash :: char where "bslash \<equiv> CHR 0x5C"

definition escape_cel_string :: "string \<Rightarrow> string" where
  "escape_cel_string s =
     replace_char (CHR 0x09) [bslash, CHR ''t'']
       (replace_char (CHR 0x0D) [bslash, CHR ''r'']
         (replace_char newline [bslash, CHR ''n'']
           (replace_char dquote [bslash, dquote]
             (replace_char bslash [bslash, bslash] s))))"

definition quoted :: "string \<Rightarrow> string" where
  "quoted s = [dquote] @ s @ [dquote]"

definition paren :: "string \<Rightarrow> string" where "paren s = ''('' @ s @ '')''"

definition join_predicates :: "string list \<Rightarrow> string \<Rightarrow> string" where
  "join_predicates predicates op =
     (case predicates of
        [] \<Rightarrow> ''true''
      | [p] \<Rightarrow> p
      | _ \<Rightarrow> join ('' '' @ op @ '' '') (map paren predicates))"

definition build_action_predicate :: "string list \<Rightarrow> string" where
  "build_action_predicate ps = join_predicates ps ''&&''"

section \<open>Rate limiting\<close>

definition item_key :: "data_type \<Rightarrow> string" where
  "item_key item = (case item of Static s \<Rightarrow> si_key s | Expression_item e \<Rightarrow> ei_key e)"

definition is_ratelimit_known_attr :: "data_type \<Rightarrow> bool" where
  "is_ratelimit_known_attr item = (item_key item \<in> {''ratelimit.domain'', ''ratelimit.hits_addend''})"

definition known_attr_cel :: "string \<Rightarrow> data_type \<Rightarrow> string" where
  "known_attr_cel attr_key item =
     (case item of
        Static s \<Rightarrow>
          if attr_key = ''ratelimit.hits_addend'' then ''uint('' @ si_value s @ '')''
          else quoted (escape_cel_string (si_value s))
      | Expression_item e \<Rightarrow>
          if attr_key = ''ratelimit.hits_addend'' then ''uint('' @ ei_value e @ '')''
          else ei_value e)"

definition find_ratelimit_known_attr_cel :: "conditional_data list \<Rightarrow> string \<Rightarrow> string option" where
  "find_ratelimit_known_attr_cel cds attr_key =
     map_option (known_attr_cel attr_key)
       (find (\<lambda>item. item_key item = attr_key) (concat (map cd_data cds)))"

definition entry_cel :: "string \<Rightarrow> string \<Rightarrow> string" where
  "entry_cel key value_cel =
     ''envoy.extensions.common.ratelimit.v3.RateLimitDescriptor.Entry { key: ''
     @ quoted (escape_cel_string key) @ '', value: '' @ value_cel @ '' }''"

definition build_ratelimit_descriptor_entry_cel :: "data_type \<Rightarrow> string" where
  "build_ratelimit_descriptor_entry_cel item =
     (case item of
        Static s \<Rightarrow> entry_cel (si_key s) (quoted (escape_cel_string (si_value s)))
      | Expression_item e \<Rightarrow> entry_cel (ei_key e) (''string('' @ ei_value e @ '')''))"

definition build_ratelimit_entry_list_cel :: "conditional_data \<Rightarrow> string option" where
  "build_ratelimit_entry_list_cel cd =
     (let entries = map build_ratelimit_descriptor_entry_cel
            (filter (\<lambda>item. \<not> is_ratelimit_known_attr item) (cd_data cd));
          entries_list = ''['' @ join '', '' entries @ '']''
      in if entries = [] then None
         else if cd_predicates cd = [] then Some entries_list
         else Some (''(('' @ join_predicates (cd_predicates cd) ''&&'' @ '') ? '' @ entries_list @ '' : [])''))"

definition build_ratelimit_descriptors_cel :: "conditional_data list \<Rightarrow> string option" where
  "build_ratelimit_descriptors_cel cds =
     (let entry_parts = List.map_filter build_ratelimit_entry_list_cel cds
      in if entry_parts = [] then None
         else Some (''envoy.extensions.common.ratelimit.v3.RateLimitDescriptor { entries: ''
                    @ join '' + '' entry_parts @ '' }''))"

definition request_data_entry_cel :: "(string \<times> string) \<times> string \<Rightarrow> string" where
  "request_data_entry_cel d =
     (case d of ((domain, field), value_expr) \<Rightarrow>
        let key = (if domain = [] \<or> domain = ''metrics.labels'' then field else domain @ ''.'' @ field)
        in entry_cel key (''string('' @ value_expr @ '')''))"

definition build_ratelimit_message_builder ::
  "string \<Rightarrow> conditional_data list \<Rightarrow> ((string \<times> string) \<times> string) list \<Rightarrow> string"
where
  "build_ratelimit_message_builder scope cds request_data =
     (let domain_cel = (case find_ratelimit_known_attr_cel cds ''ratelimit.domain'' of
                          Some c \<Rightarrow> c | None \<Rightarrow> quoted (escape_cel_string scope));
          hits_addend_cel = (case find_ratelimit_known_attr_cel cds ''ratelimit.hits_addend'' of
                               Some c \<Rightarrow> c | None \<Rightarrow> ''1u'');
          descriptors =
            (case build_ratelimit_descriptors_cel cds of Some d \<Rightarrow> [d] | None \<Rightarrow> [])
            @ (if request_data \<noteq> [] then
                 [''envoy.extensions.common.ratelimit.v3.RateLimitDescriptor { entries: [''
                  @ join '', '' (map request_data_entry_cel request_data) @ ''] }'']
               else []);
          descriptors_cel = (if descriptors = [] then ''[]'' else ''['' @ join '', '' descriptors @ '']'')
      in ''envoy.service.ratelimit.v3.RateLimitRequest {'' @ [newline]
         @ ''    domain: '' @ domain_cel @ '','' @ [newline]
         @ ''    hits_addend: '' @ hits_addend_cel @ '','' @ [newline]
         @ ''    descriptors: '' @ descriptors_cel @ [newline] @ ''}'')"

definition block_predicate :: "conditional_data \<Rightarrow> string" where
  "block_predicate cd =
     (if length (cd_predicates cd) = 1 then cd_predicates cd ! 0
      else paren (join_predicates (cd_predicates cd) ''&&''))"

definition build_descriptor_predicate :: "conditional_data list \<Rightarrow> string" where
  "build_descriptor_predicate cds =
     (if cds = [] then ''true''
      else if list_ex (\<lambda>cd. cd_predicates cd = []) cds then ''true''
      else let block_predicates = map block_predicate cds in
        if length block_predicates = 1 then block_predicates ! 0 else join '' || '' block_predicates)"

definition build_ratelimit_predicate :: "string list \<Rightarrow> conditional_data list \<Rightarrow> string" where
  "build_ratelimit_predicate action_predicates cds =
     (let action_pred = build_action_predicate action_predicates;
          conditional_pred = build_descriptor_predicate cds
      in if action_pred = ''true'' \<and> conditional_pred = ''true'' then ''true''
         else if action_pred = ''true'' then conditional_pred
         else if conditional_pred = ''true'' then action_pred
         else paren action_pred @ '' && '' @ paren conditional_pred)"

definition build_ratelimit_on_reply :: "string \<Rightarrow> typed_action list" where
  "build_ratelimit_on_reply name =
     [TypedAction (name @ ''.overall_code == 2'') True True []
        (Deny_op (''DenyResponse{status: 429u, headers: '' @ name @ ''.response_headers_to_add, body: ''
           @ quoted (''Too Many Requests'' @ [bslash, CHR ''n'']) @ ''}'')),
      TypedAction (name @ ''.overall_code == 1'') False True []
        (Headers_op Response_target (name @ ''.response_headers_to_add'')),
      TypedAction (name @ ''.overall_code != 1 && '' @ name @ ''.overall_code != 2'') True True []
        (Fail_op (''Unknown rate limit response code from '' @ name))]"

definition translate_legacy_ratelimit_to_typed ::
  "legacy_action \<Rightarrow> ((string \<times> string) \<times> string) list \<Rightarrow> typed_action"
where
  "translate_legacy_ratelimit_to_typed a request_data =
     TypedAction (build_ratelimit_predicate (la_predicates a) (la_conditional_data a)) False True (la_sources a)
       (Grpc_op ''ratelimit_response'' (la_service a)
          (build_ratelimit_message_builder (la_scope a) (la_conditional_data a) request_data)
          (build_ratelimit_on_reply ''ratelimit_response''))"

definition translate_legacy_report_to_typed ::
  "legacy_action \<Rightarrow> ((string \<times> string) \<times> string) list \<Rightarrow> typed_action"
where
  "translate_legacy_report_to_typed a request_data =
     TypedAction (build_ratelimit_predicate (la_predicates a) (la_conditional_data a)) False False (la_sources a)
       (Grpc_op ''report_response'' (la_service a)
          (build_ratelimit_message_builder (la_scope a) (la_conditional_data a) request_data)
          [TypedAction ''!has(report_response.overall_code)'' False False []
             (Fail_op ''Rate limit report failed: invalid gRPC response'')])"

section \<open>Authorization\<close>

definition build_request_data_value_cel :: "string \<Rightarrow> string" where
  "build_request_data_value_cel field_expr =
     (if str_contains ''auth.'' field_expr then
        ''google.protobuf.Value{struct_value: google.protobuf.Struct{fields: {'' @ quoted ''cel_expr''
        @ '': google.protobuf.Value{string_value: '' @ quoted (escape_cel_string field_expr) @ ''}}}}''
      else ''google.protobuf.Value{string_value: string('' @ field_expr @ '')}'')"

text \<open>The grouping by domain; \<^verbatim>\<open>sort_by\<close> afterwards makes the order of the hash map irrelevant.\<close>

fun group_by_domain ::
  "((string \<times> string) \<times> string) list \<Rightarrow> (string \<times> (string \<times> string) list) list
     \<Rightarrow> (string \<times> (string \<times> string) list) list"
where
  "group_by_domain [] by_domain = by_domain"
| "group_by_domain (((domain, field), expr) # rest) by_domain =
     (let key = (if domain = [] then ''io.kuadrant'' else ''io.kuadrant.'' @ domain);
          entries = (case map_of by_domain key of Some es \<Rightarrow> es | None \<Rightarrow> [])
      in group_by_domain rest (AList.update key (entries @ [(field, expr)]) by_domain))"

definition build_metadata_context_cel :: "((string \<times> string) \<times> string) list \<Rightarrow> string" where
  "build_metadata_context_cel request_data =
     (if request_data = [] then ''envoy.config.core.v3.Metadata{}''
      else
        let domain_entries = sort_key fst (group_by_domain request_data []);
            field_entry = (\<lambda>(field, expr).
              quoted (escape_cel_string field) @ '': '' @ build_request_data_value_cel expr);
            domain_entry = (\<lambda>(domain, entries).
              quoted (escape_cel_string domain) @ '': google.protobuf.Struct{fields: {''
              @ join '', '' (map field_entry entries) @ ''}}'')
        in ''envoy.config.core.v3.Metadata{filter_metadata: {''
           @ join '', '' (map domain_entry domain_entries) @ ''}}'')"

definition text_lines :: "string list \<Rightarrow> string" where
  "text_lines ls = join [newline] ls"

definition build_auth_message_builder :: "string \<Rightarrow> ((string \<times> string) \<times> string) list \<Rightarrow> string" where
  "build_auth_message_builder scope request_data = text_lines
     [''envoy.service.auth.v3.CheckRequest {'',
      ''  attributes: envoy.service.auth.v3.AttributeContext {'',
      ''    request: envoy.service.auth.v3.AttributeContext.Request {'',
      ''      time: request.time,'',
      ''      http: envoy.service.auth.v3.AttributeContext.HttpRequest {'',
      ''        host: request.host,'',
      ''        method: request.method,'',
      ''        scheme: request.scheme,'',
      ''        path: request.path,'',
      ''        protocol: request.protocol,'',
      ''        headers: request.headers'',
      ''      }'',
      ''    },'',
      ''    destination: envoy.service.auth.v3.AttributeContext.Peer {'',
      ''      address: envoy.config.core.v3.Address {'',
      ''        socket_address: envoy.config.core.v3.SocketAddress {'',
      ''          address: destination.address,'',
      ''          port_value: uint(destination.port)'',
      ''        }'',
      ''      }'',
      ''    },'',
      ''    source: envoy.service.auth.v3.AttributeContext.Peer {'',
      ''      address: envoy.config.core.v3.Address {'',
      ''        socket_address: envoy.config.core.v3.SocketAddress {'',
      ''          address: source.address,'',
      ''          port_value: uint(source.port)'',
      ''        }'',
      ''      }'',
      ''    },'',
      ''    context_extensions: {'' @ quoted ''host'' @ '': '' @ quoted (escape_cel_string scope) @ ''},'',
      ''    metadata_context: '' @ build_metadata_context_cel request_data,
      ''  }'',
      ''}'']"

definition build_auth_on_reply :: "string \<Rightarrow> typed_action list" where
  "build_auth_on_reply name =
     [TypedAction (''has('' @ name @ ''.denied_response)'') True True []
        (Deny_op (''DenyResponse{status: ('' @ name @ ''.denied_response.status.code != 0) ? uint('' @ name
           @ ''.denied_response.status.code) : 403u, headers: '' @ name
           @ ''.denied_response.headers, body: '' @ name @ ''.denied_response.body}'')),
      TypedAction (''has('' @ name @ ''.ok_response) && (''
           @ name @ ''.ok_response.response_headers_to_add.size() > 0 || ''
           @ name @ ''.ok_response.headers_to_remove.size() > 0 || ''
           @ name @ ''.ok_response.query_parameters_to_set.size() > 0 || ''
           @ name @ ''.ok_response.query_parameters_to_remove.size() > 0)'') True True []
        (Fail_op ''Unsupported field in OkHttpResponse''),
      TypedAction (''has('' @ name @ ''.ok_response) && has('' @ name @ ''.dynamic_metadata)'') False True []
        (Store_op ''auth'' (name @ ''.dynamic_metadata'') True),
      TypedAction (''has('' @ name @ ''.ok_response)'') False True []
        (Headers_op Request_target (name @ ''.ok_response.headers'')),
      TypedAction (''!has('' @ name @ ''.denied_response) && !has('' @ name @ ''.ok_response)'') True True []
        (Fail_op (''Auth response contained no http_response from '' @ name))]"

definition translate_legacy_auth_to_typed ::
  "legacy_action \<Rightarrow> ((string \<times> string) \<times> string) list \<Rightarrow> typed_action"
where
  "translate_legacy_auth_to_typed a request_data =
     TypedAction (build_action_predicate (la_predicates a)) False True (la_sources a)
       (Grpc_op ''auth_response'' (la_service a)
          (build_auth_message_builder (la_scope a) request_data)
          (build_auth_on_reply ''auth_response''))"

section \<open>Properties\<close>

text \<open>How a CEL string literal is read: from after its opening quote to its closing quote.\<close>

fun read_literal :: "string \<Rightarrow> (string \<times> string) option" where
  "read_literal [] = None"
| "read_literal (c # cs) =
     (if c = dquote then Some ([], cs)
      else if c \<in> {newline, CHR 0x0D} then None
      else if c = bslash then
        (case cs of
           [] \<Rightarrow> None
         | e # rest \<Rightarrow>
             (case (if e = CHR ''n'' then Some newline else if e = CHR ''r'' then Some (CHR 0x0D)
                    else if e = CHR ''t'' then Some (CHR 0x09)
                    else if e \<in> {bslash, dquote} then Some e else None) of
                None \<Rightarrow> None
              | Some x \<Rightarrow> map_option (\<lambda>(s, r). (x # s, r)) (read_literal rest)))
      else map_option (\<lambda>(s, r). (c # s, r)) (read_literal cs))"

lemma escape_cel_string_Cons:
  "escape_cel_string (c # s) =
     (if c = bslash then [bslash, bslash] else if c = dquote then [bslash, dquote]
      else if c = newline then [bslash, CHR ''n''] else if c = CHR 0x0D then [bslash, CHR ''r'']
      else if c = CHR 0x09 then [bslash, CHR ''t''] else [c]) @ escape_cel_string s"
  by (simp add: escape_cel_string_def replace_char_append)


section \<open>The meaning of a predicate\<close>

text \<open>What is used of CEL's grammar and semantics: \<open>reads l t b\<close> says that the text \<open>t\<close>, read as an
  expression of level \<open>l\<close>, has the boolean value \<open>b\<close>.  Level 0 has conditional expressions, 1
  disjunctions, 2 conjunctions and 3 operands of these; an expression of one level is one of the
  levels below.\<close>

locale cel_logic =
  fixes reads :: "nat \<Rightarrow> string \<Rightarrow> bool \<Rightarrow> bool"
  assumes lower: "reads (Suc l) t b \<Longrightarrow> reads l t b"
    and parens: "reads 0 t b \<Longrightarrow> reads 3 (''('' @ t @ '')'') b"
    and conj: "reads 2 s a \<Longrightarrow> reads 2 t b \<Longrightarrow> reads 2 (s @ '' && '' @ t) (a \<and> b)"
    and disj: "reads 1 s a \<Longrightarrow> reads 1 t b \<Longrightarrow> reads 1 (s @ '' || '' @ t) (a \<or> b)"
    and true: "reads l ''true'' b \<longleftrightarrow> b \<and> l \<le> 3"
begin

lemma down: "reads l t b \<Longrightarrow> k \<le> l \<Longrightarrow> reads k t b"
  by (induction l) (auto simp: le_Suc_eq dest: lower)

lemma parens_at: "reads 0 t b \<Longrightarrow> l \<le> 3 \<Longrightarrow> reads l (paren t) b"
  unfolding paren_def using parens down by blast

lemma join_conj:
  "ts \<noteq> [] \<Longrightarrow> \<forall>t \<in> set ts. reads 2 (f t) (v t) \<Longrightarrow> reads 2 (join '' && '' (map f ts)) (\<forall>t \<in> set ts. v t)"
proof (induction ts)
  case (Cons t ts)
  show ?case
  proof (cases "ts = []")
    case False
    then have "reads 2 (join '' && '' (map f ts)) (\<forall>t \<in> set ts. v t)" using Cons by simp
    with conj [of "f t" "v t"] Cons.prems False show ?thesis by (simp add: join_Cons)
  qed (use Cons.prems in simp)
qed simp

lemma join_disj:
  "ts \<noteq> [] \<Longrightarrow> \<forall>t \<in> set ts. reads 1 (f t) (v t) \<Longrightarrow> reads 1 (join '' || '' (map f ts)) (\<exists>t \<in> set ts. v t)"
proof (induction ts)
  case (Cons t ts)
  show ?case
  proof (cases "ts = []")
    case False
    then have "reads 1 (join '' || '' (map f ts)) (\<exists>t \<in> set ts. v t)" using Cons by simp
    with disj [of "f t" "v t"] Cons.prems False show ?thesis by (simp add: join_Cons)
  qed (use Cons.prems in simp)
qed simp

lemma join_predicates_reads:
  assumes "\<forall>p \<in> set ps. reads 0 p (v p)"
  shows "reads 0 (join_predicates ps ''&&'') (\<forall>p \<in> set ps. v p)"
proof (cases "length ps \<le> 1")
  case True
  then show ?thesis using assms true [of 0 True] by (cases ps) (auto simp: join_predicates_def)
next
  case False
  then have "ps \<noteq> []" and eq: "join_predicates ps ''&&'' = join '' && '' (map paren ps)"
    by (auto simp: join_predicates_def split: list.split)
  from join_conj [OF this(1), of paren v] assms have "reads 2 (join_predicates ps ''&&'') (\<forall>p \<in> set ps. v p)"
    unfolding eq by (simp add: parens_at)
  then show ?thesis by (rule down) simp
qed

lemma block_predicate_reads:
  assumes "\<forall>p \<in> set (cd_predicates cd). reads 1 p (v p)"
  shows "reads 1 (block_predicate cd) (\<forall>p \<in> set (cd_predicates cd). v p)"
proof (cases "length (cd_predicates cd) = 1")
  case True
  then obtain p where "cd_predicates cd = [p]" by (auto simp: length_Suc_conv)
  with assms show ?thesis by (simp add: block_predicate_def)
next
  case False
  have "reads 0 (join_predicates (cd_predicates cd) ''&&'') (\<forall>p \<in> set (cd_predicates cd). v p)"
    using assms down by (intro join_predicates_reads) auto
  with False show ?thesis by (simp add: block_predicate_def parens_at)
qed

lemma descriptor_predicate_reads:
  assumes "\<forall>cd \<in> set cds. \<forall>p \<in> set (cd_predicates cd). reads 1 p (v p)"
  shows "reads 0 (build_descriptor_predicate cds) (cds = [] \<or> (\<exists>cd \<in> set cds. \<forall>p \<in> set (cd_predicates cd). v p))"
proof (cases "cds = [] \<or> (\<exists>cd \<in> set cds. cd_predicates cd = [])")
  case True
  then have "build_descriptor_predicate cds = ''true''" by (auto simp: build_descriptor_predicate_def list_ex_iff)
  moreover from True have "cds = [] \<or> (\<exists>cd \<in> set cds. \<forall>p \<in> set (cd_predicates cd). v p)" by force
  ultimately show ?thesis by (simp add: true)
next
  case False
  have "build_descriptor_predicate cds = join '' || '' (map block_predicate cds)"
    using False by (cases cds rule: remdups_adj.cases) (auto simp: build_descriptor_predicate_def list_ex_iff Let_def)
  moreover have "reads 1 (join '' || '' (map block_predicate cds)) (\<exists>cd \<in> set cds. \<forall>p \<in> set (cd_predicates cd). v p)"
    by (rule join_disj) (use False assms block_predicate_reads in blast)+
  ultimately have "reads 0 (build_descriptor_predicate cds) (\<exists>cd \<in> set cds. \<forall>p \<in> set (cd_predicates cd). v p)"
    using down [of 1 _ _ 0] by (simp only: le0)
  moreover from False have "cds = [] \<longleftrightarrow> False" by blast
  ultimately show ?thesis by (simp only: simp_thms)
qed

lemma ratelimit_predicate_reads:
  assumes "\<forall>p \<in> set ps. reads 0 p (v p)" and "\<forall>cd \<in> set cds. \<forall>p \<in> set (cd_predicates cd). reads 1 p (v p)"
  shows "reads 0 (build_ratelimit_predicate ps cds)
    ((\<forall>p \<in> set ps. v p) \<and> (cds = [] \<or> (\<exists>cd \<in> set cds. \<forall>p \<in> set (cd_predicates cd). v p)))"
proof -
  let ?A = "\<forall>p \<in> set ps. v p" and ?D = "cds = [] \<or> (\<exists>cd \<in> set cds. \<forall>p \<in> set (cd_predicates cd). v p)"
  have a: "reads 0 (build_action_predicate ps) ?A"
    unfolding build_action_predicate_def by (rule join_predicates_reads [OF assms(1)])
  have d: "reads 0 (build_descriptor_predicate cds) ?D" by (rule descriptor_predicate_reads [OF assms(2)])
  have "reads 2 (paren (build_action_predicate ps) @ '' && '' @ paren (build_descriptor_predicate cds)) (?A \<and> ?D)"
    by (rule conj; rule parens_at; (rule a d | simp))
  then have both: "reads 0 (paren (build_action_predicate ps) @ '' && '' @ paren (build_descriptor_predicate cds)) (?A \<and> ?D)"
    by (rule down) simp
  consider "build_action_predicate ps = ''true''" | "build_descriptor_predicate cds = ''true''" "build_action_predicate ps \<noteq> ''true''"
    | "build_descriptor_predicate cds \<noteq> ''true''" "build_action_predicate ps \<noteq> ''true''" by blast
  then show ?thesis
  proof cases
    case 1
    from a have "?A" unfolding 1 true by (rule conjunct1)
    then have "(?A \<and> ?D) = ?D" by blast
    moreover from 1 have "build_ratelimit_predicate ps cds = build_descriptor_predicate cds"
      by (simp add: build_ratelimit_predicate_def Let_def)
    ultimately show ?thesis using d by (simp only:)
  next
    case 2
    from d have "?D" unfolding 2 true by (rule conjunct1)
    moreover from 2 have "build_ratelimit_predicate ps cds = build_action_predicate ps"
      by (simp add: build_ratelimit_predicate_def Let_def)
    ultimately show ?thesis using a by (simp only: simp_thms)
  qed (use both in \<open>simp only: build_ratelimit_predicate_def Let_def if_False simp_thms\<close>)
qed

end

text \<open>The grammar itself, over names whose values are given by \<open>v\<close>.\<close>

inductive cel_reads :: "(string \<Rightarrow> bool) \<Rightarrow> nat \<Rightarrow> string \<Rightarrow> bool \<Rightarrow> bool" for v where
  name: "t \<noteq> [] \<Longrightarrow> t \<noteq> ''true'' \<Longrightarrow> set t \<subseteq> set ''abcdefghijklmnopqrstuvwxyz._'' \<Longrightarrow> cel_reads v 3 t (v t)"
| true: "cel_reads v 3 ''true'' True"
| parens: "cel_reads v 0 t b \<Longrightarrow> cel_reads v 3 (''('' @ t @ '')'') b"
| conj: "cel_reads v 2 s a \<Longrightarrow> cel_reads v 2 t b \<Longrightarrow> cel_reads v 2 (s @ '' && '' @ t) (a \<and> b)"
| disj: "cel_reads v 1 s a \<Longrightarrow> cel_reads v 1 t b \<Longrightarrow> cel_reads v 1 (s @ '' || '' @ t) (a \<or> b)"
| lower: "cel_reads v (Suc l) t b \<Longrightarrow> cel_reads v l t b"

lemma cel_reads_true: "cel_reads v l t b \<Longrightarrow> t = ''true'' \<Longrightarrow> b \<and> l \<le> 3"
proof (induction rule: cel_reads.induct)
  case (conj s a t b)
  from conj.prems have "CHR '' '' \<in> set ''true''" by (metis UnCI list.set_intros(1) set_append)
  then show ?case by simp
next
  case (disj s a t b)
  from disj.prems have "CHR '' '' \<in> set ''true''" by (metis UnCI list.set_intros(1) set_append)
  then show ?case by simp
qed auto

lemma cel_reads_down: "cel_reads v l t b \<Longrightarrow> k \<le> l \<Longrightarrow> cel_reads v k t b"
  by (induction l) (auto simp: le_Suc_eq intro: cel_reads.lower)

interpretation cel: cel_logic "cel_reads v" for v
proof unfold_locales
  show "cel_reads v l ''true'' b \<longleftrightarrow> b \<and> l \<le> 3" for l b
  proof
    show "b \<and> l \<le> 3" if "cel_reads v l ''true'' b" using that refl by (rule cel_reads_true)
    assume "b \<and> l \<le> 3"
    then have "b = True" "l \<le> 3" by simp_all
    then show "cel_reads v l ''true'' b" using cel_reads_down [OF cel_reads.true] by (simp only: simp_thms)
  qed
qed (rule cel_reads.lower cel_reads.parens cel_reads.conj cel_reads.disj; assumption)+

text \<open>C37: a legacy rate limit action is taken exactly when it should be: the CEL text the translation
  writes for it is true if and only if all predicates of the action hold and, where it has conditional
  data, all predicates of at least one of its blocks.  The predicates of the action may be any
  expressions; those of a block may be anything but a bare conditional expression, for a block with
  one predicate is joined to the others without parentheses.\<close>

theorem ratelimit_predicate_meaning:
  assumes "cel_logic reads" and "\<forall>p \<in> set ps. reads 0 p (v p)"
    and "\<forall>cd \<in> set cds. \<forall>p \<in> set (cd_predicates cd). reads 1 p (v p)"
  shows "reads 0 (build_ratelimit_predicate ps cds)
    ((\<forall>p \<in> set ps. v p) \<and> (cds = [] \<or> (\<exists>cd \<in> set cds. \<forall>p \<in> set (cd_predicates cd). v p)))"
  using cel_logic.ratelimit_predicate_reads [OF assms] .

theorem ratelimit_predicate_meaning_witness:
  "cel_reads (\<lambda>t. t = ''a'') 0
     (build_ratelimit_predicate [''a''] [\<lparr>cd_predicates = [''a'', ''b''], cd_data = []\<rparr>, \<lparr>cd_predicates = [''a''], cd_data = []\<rparr>]) True"
proof -
  have n: "cel_reads (\<lambda>t. t = ''a'') k t (t = ''a'')" if "t = ''a'' \<or> t = ''b''" "k \<le> 3" for t k
    by (rule cel_reads_down [OF cel_reads.name]) (use that in auto)
  let ?cds = "[\<lparr>cd_predicates = [''a'', ''b''], cd_data = []\<rparr>, \<lparr>cd_predicates = [''a''], cd_data = []\<rparr>]"
  have "\<forall>p \<in> set [''a'']. cel_reads (\<lambda>t. t = ''a'') 0 p (p = ''a'')"
    "\<forall>cd \<in> set ?cds. \<forall>p \<in> set (cd_predicates cd). cel_reads (\<lambda>t. t = ''a'') 1 p (p = ''a'')"
    using n [of "''a''" 0] n [of "''a''" 1] n [of "''b''" 1]
    by (simp_all only: list.set ball_simps conditional_data.simps simp_thms numeral_le_iff one_le_numeral le0)
  from ratelimit_predicate_meaning [OF cel.cel_logic_axioms this] show ?thesis by simp
qed

text \<open>Without parentheses a conditional expression takes the blocks after it into its last branch.\<close>

lemma descriptor_predicate_text:
  "build_descriptor_predicate [\<lparr>cd_predicates = [''a ? b : c''], cd_data = []\<rparr>,
                               \<lparr>cd_predicates = [''d''], cd_data = []\<rparr>]
     = ''a ? b : c || d''
   \<and> join_predicates [''a ? b : c'', ''d''] ''&&'' = ''(a ? b : c) && (d)''"
  by (simp add: build_descriptor_predicate_def block_predicate_def join_predicates_def paren_def Let_def)

end
