(* ===== verification/Services.thy ===== *)
theory Services
  imports Cel_Eval Converters Config
begin

text \<open>
  \<^verbatim>\<open>src/services/\<close>: the gRPC services a configuration names.  A \<^verbatim>\<open>DynamicService\<close> is shared
  behind \<^verbatim>\<open>Rc\<close> and builds its CEL environment once (\<^verbatim>\<open>OnceCell\<close>): it has an address, and the
  environments built so far are in the world.  Protobuf encoding and decoding are the library's.
\<close>

record dynamic_service =
  ds_addr :: nat
  ds_upstream_name :: string
  ds_service_name :: string
  ds_method :: string
  ds_timeout :: nat
  ds_failure_mode :: failure_mode

record tracing_service =
  ts_upstream_name :: string
  ts_service_name :: string
  ts_method :: string
  ts_timeout :: nat

datatype service_instance =
    SI_Auth dynamic_service
  | SI_RateLimit dynamic_service
  | SI_RateLimitCheck dynamic_service
  | SI_RateLimitReport dynamic_service
  | SI_Tracing "tracing_service option"
  | SI_Dynamic dynamic_service

definition instance_failure_mode :: "service_instance \<Rightarrow> failure_mode" where
  "instance_failure_mode si =
     (case si of
        SI_Auth s \<Rightarrow> ds_failure_mode s
      | SI_RateLimit s \<Rightarrow> ds_failure_mode s
      | SI_RateLimitCheck s \<Rightarrow> ds_failure_mode s
      | SI_RateLimitReport s \<Rightarrow> ds_failure_mode s
      | SI_Tracing _ \<Rightarrow> Mode_Allow
      | SI_Dynamic s \<Rightarrow> ds_failure_mode s)"

definition dynamic_service_new ::
  "nat \<Rightarrow> string \<Rightarrow> string \<Rightarrow> string \<Rightarrow> nat \<Rightarrow> failure_mode \<Rightarrow> descriptor_manager
     \<Rightarrow> dynamic_service \<times> descriptor_manager"
where
  "dynamic_service_new addr endpoint grpc_service grpc_method timeout fm dm =
     (\<lparr>ds_addr = addr, ds_upstream_name = endpoint, ds_service_name = grpc_service,
       ds_method = grpc_method, ds_timeout = timeout, ds_failure_mode = fm\<rparr>,
      add_expected (DescriptorKey endpoint grpc_service) dm)"

definition tracing_service_new :: "string \<Rightarrow> nat \<Rightarrow> tracing_service" where
  "tracing_service_new endpoint timeout =
     \<lparr>ts_upstream_name = endpoint,
      ts_service_name = ''opentelemetry.proto.collector.trace.v1.TraceService'',
      ts_method = ''Export'', ts_timeout = timeout\<rparr>"

definition from_config ::
  "nat \<Rightarrow> service_config \<Rightarrow> descriptor_manager
     \<Rightarrow> (service_instance, service_error) result \<times> descriptor_manager"
where
  "from_config addr sc dm =
     (let new = (\<lambda>svc m. dynamic_service_new addr (sc_endpoint sc) svc m (sc_timeout sc) (sc_failure_mode sc) dm)
      in case sc_service_type sc of
        ST_Auth \<Rightarrow> (case new AUTH_SERVICE ''Check'' of (s, dm') \<Rightarrow> (Ok (SI_Auth s), dm'))
      | ST_RateLimit \<Rightarrow>
          (case new RATELIMIT_SERVICE ''ShouldRateLimit'' of (s, dm') \<Rightarrow> (Ok (SI_RateLimit s), dm'))
      | ST_RateLimitCheck \<Rightarrow>
          (case new KUADRANT_RATELIMIT_SERVICE ''CheckRateLimit'' of (s, dm') \<Rightarrow> (Ok (SI_RateLimitCheck s), dm'))
      | ST_RateLimitReport \<Rightarrow>
          (case new KUADRANT_RATELIMIT_SERVICE ''Report'' of (s, dm') \<Rightarrow> (Ok (SI_RateLimitReport s), dm'))
      | ST_Tracing \<Rightarrow> (Ok (SI_Tracing (Some (tracing_service_new (sc_endpoint sc) (sc_timeout sc)))), dm)
      | ST_Dynamic \<Rightarrow>
          (case sc_grpc_service sc of
             None \<Rightarrow> (Err (Dispatch ''Missing grpc_service for Dynamic service''), dm)
           | Some grpc_service \<Rightarrow>
               (case sc_grpc_method sc of
                  None \<Rightarrow> (Err (Dispatch ''Missing grpc_method for Dynamic service''), dm)
                | Some grpc_method \<Rightarrow>
                    (case new grpc_service grpc_method of (s, dm') \<Rightarrow> (Ok (SI_Dynamic s), dm')))))"

section \<open>A dynamic service\<close>

text \<open>The pool, the input and the output message of the service's method; \<open>err\<close> is the kind of
  error the caller reports (\<^verbatim>\<open>Dispatch\<close> or \<^verbatim>\<open>Decode\<close>).\<close>

definition lookup_method ::
  "(string \<Rightarrow> service_error) \<Rightarrow> dynamic_service \<Rightarrow> descriptor_manager
     \<Rightarrow> (pool \<times> string \<times> string, service_error) result"
where
  "lookup_method err s dm =
     (case get_pool dm (ds_upstream_name s) (ds_service_name s) of
        Err _ \<Rightarrow> Err (err ''Descriptor not available'')
      | Ok p \<Rightarrow>
          (case map_of (pool_services p) (ds_service_name s) of
             None \<Rightarrow> Err (err (''Service '' @ ds_service_name s @ '' not found in descriptor pool''))
           | Some methods \<Rightarrow>
               (case map_of methods (ds_method s) of
                  None \<Rightarrow> Err (err (''Method '' @ ds_method s @ '' not found in service''))
                | Some (input, output) \<Rightarrow> Ok (p, input, output))))"

definition method_descriptor ::
  "dynamic_service \<Rightarrow> descriptor_manager \<Rightarrow> (pool \<times> string \<times> string, service_error) result"
where
  "method_descriptor s dm = lookup_method Dispatch s dm"

definition build_cel_env :: "pool \<Rightarrow> string \<Rightarrow> string \<Rightarrow> (cel_env, service_error) result" where
  "build_cel_env p input output =
     (case register_message_types p input [] of
        Err _ \<Rightarrow> Err (Dispatch ''Failed to register message types'')
      | Ok env \<Rightarrow>
          (case register_message_types p output env of
             Err _ \<Rightarrow> Err (Dispatch ''Failed to register message types'')
           | Ok env \<Rightarrow>
               Ok (AList.update (sd_name deny_response_struct_def) deny_response_struct_def env)))"

definition service_cel_env ::
  "dynamic_service \<Rightarrow> 'h req_resp_ctx \<Rightarrow> (cel_env, service_error) result \<times> 'h req_resp_ctx"
where
  "service_cel_env s ctx =
     (case map_of (w_cel_envs (backend ctx)) (ds_addr s) of
        Some env \<Rightarrow> (Ok env, ctx)
      | None \<Rightarrow>
          (case method_descriptor s (w_descriptors (backend ctx)) of
             Err e \<Rightarrow> (Err e, ctx)
           | Ok (p, input, output) \<Rightarrow>
               (case build_cel_env p input output of
                  Err e \<Rightarrow> (Err e, ctx)
                | Ok env \<Rightarrow>
                    (Ok env, ctx\<lparr>backend := (backend ctx)
                       \<lparr>w_cel_envs := AList.update (ds_addr s) env (w_cel_envs (backend ctx))\<rparr>\<rparr>))))"

definition dispatch_value ::
  "lib \<Rightarrow> 'h hostcalls \<Rightarrow> dynamic_service \<Rightarrow> cel_value \<Rightarrow> 'h req_resp_ctx
     \<Rightarrow> (u32, service_error) result \<times> 'h req_resp_ctx"
where
  "dispatch_value L H s v ctx =
     (case method_descriptor s (w_descriptors (backend ctx)) of
        Err e \<Rightarrow> (Err e, ctx)
      | Ok (p, input, _) \<Rightarrow>
          (case cel_to_dynamic_message L p v input of
             Err _ \<Rightarrow> (Err (Dispatch ''Failed to convert CEL to message''), ctx)
           | Ok message \<Rightarrow>
               (case encode_message L p message of
                  Err _ \<Rightarrow> (Err (Dispatch ''Failed to encode message''), ctx)
                | Ok message_bytes \<Rightarrow>
                    ctx_dispatch_grpc_call L H (ds_upstream_name s) (ds_service_name s) (ds_method s)
                      message_bytes (ds_timeout s) ctx)))"

definition parse_message ::
  "lib \<Rightarrow> dynamic_service \<Rightarrow> bytes \<Rightarrow> descriptor_manager
     \<Rightarrow> (pool \<times> string \<times> (string \<times> proto_value) list, service_error) result"
where
  "parse_message L s message dm =
     (case lookup_method Decode s dm of
        Err e \<Rightarrow> Err e
      | Ok (p, _, output) \<Rightarrow>
          (case decode_message L p output message of
             Err _ \<Rightarrow> Err (Decode ''Failed to decode response'')
           | Ok fs \<Rightarrow> Ok (p, output, fs)))"

definition get_response ::
  "lib \<Rightarrow> 'h hostcalls \<Rightarrow> dynamic_service \<Rightarrow> nat \<Rightarrow> 'h req_resp_ctx
     \<Rightarrow> (pool \<times> string \<times> (string \<times> proto_value) list, service_error) result"
where
  "get_response L H s response_size ctx =
     (case ctx_get_grpc_response H response_size ctx of
        Err e \<Rightarrow> Err e
      | Ok message \<Rightarrow> parse_message L s message (w_descriptors (backend ctx)))"

definition response_cel_context ::
  "lib \<Rightarrow> 'h hostcalls \<Rightarrow> dynamic_service \<Rightarrow> nat \<Rightarrow> string \<Rightarrow> 'h req_resp_ctx
     \<Rightarrow> (cel_context, service_error) result \<times> 'h req_resp_ctx"
where
  "response_cel_context L H s response_size name ctx =
     (case get_response L H s response_size ctx of
        Err e \<Rightarrow> (Err e, ctx)
      | Ok (p, output, fs) \<Rightarrow>
          (case dynamic_message_to_cel L p output fs of
             Err _ \<Rightarrow> (Err (Decode ''Failed to convert message to CEL''), ctx)
           | Ok v \<Rightarrow>
               (case service_cel_env s ctx of
                  (Err e, ctx') \<Rightarrow> (Err e, ctx')
                | (Ok env, ctx') \<Rightarrow>
                    (Ok (add_variable name v (cel_context_default\<lparr>cc_env := Some env\<rparr>)), ctx'))))"

section \<open>The tracing service\<close>

definition get_wasm_shim_proto_resource :: "lib \<Rightarrow> proto_resource" where
  "get_wasm_shim_proto_resource L =
     \<lparr>pr_attributes = otel_resource L (shim_name L)
        [(''service.version'', shim_version L), (''telemetry.sdk.name'', ''opentelemetry''),
         (''telemetry.sdk.language'', ''rust''), (''wasm.git_hash'', shim_git_hash L),
         (''wasm.build_profile'', shim_profile L)],
      pr_dropped_attributes_count = 0\<rparr>"

definition build_export_request ::
  "lib \<Rightarrow> span_data list \<Rightarrow> (resource_spans list, service_error) result"
where
  "build_export_request L batch =
     (if batch = [] then Ok []
      else Ok [\<lparr>rs_resource = Some (get_wasm_shim_proto_resource L),
                rs_scope_spans = [\<lparr>ss_scope = (case batch of s # _ \<Rightarrow> Some (scope_to_proto L s) | [] \<Rightarrow> None),
                                  ss_spans = map (span_to_proto L) batch, ss_schema_url = []\<rparr>],
                rs_schema_url = []\<rparr>])"

definition dispatch_export ::
  "lib \<Rightarrow> 'h hostcalls \<Rightarrow> tracing_service \<Rightarrow> span_data list \<Rightarrow> 'h req_resp_ctx
     \<Rightarrow> (u32, service_error) result \<times> 'h req_resp_ctx"
where
  "dispatch_export L H s spans ctx =
     (if spans = [] then (Err (Dispatch ''Cannot export empty span batch''), ctx)
      else case build_export_request L spans of
        Err e \<Rightarrow> (Err e, ctx)
      | Ok request \<Rightarrow>
          ctx_dispatch_grpc_call L H (ts_upstream_name s) (ts_service_name s) (ts_method s)
            (encode_export_request L request) (ts_timeout s) ctx)"

section \<open>Facts\<close>

lemma service_cel_env_control: "service_cel_env s ctx = (r, ctx') \<Longrightarrow> same_control ctx ctx'"
  by (auto simp: service_cel_env_def split: option.splits result.splits prod.splits)

lemma dispatch_value_control: "dispatch_value L H s v ctx = (r, ctx') \<Longrightarrow> same_control ctx ctx'"
  by (auto simp: dispatch_value_def split: result.splits prod.splits dest: ctx_dispatch_control)

lemma response_cel_context_control:
  "response_cel_context L H s n x ctx = (r, ctx') \<Longrightarrow> same_control ctx ctx'"
  by (auto simp: response_cel_context_def split: result.splits prod.splits dest: service_cel_env_control)

lemma dispatch_export_control: "dispatch_export L H s spans ctx = (r, ctx') \<Longrightarrow> same_control ctx ctx'"
  by (auto simp: dispatch_export_def split: if_splits result.splits dest: ctx_dispatch_control)

lemmas service_control = service_cel_env_control dispatch_value_control
  response_cel_context_control dispatch_export_control

text \<open>The CEL environment of a service is built when its descriptors are first there, always
  knows the \<^verbatim>\<open>DenyResponse\<close> struct and every message its request and response types reach, and is
  kept: later calls return the same environment and change nothing.\<close>

theorem service_cel_env_built_once:
  assumes "service_cel_env s ctx = (Ok env, ctx')"
  shows "service_cel_env s ctx' = (Ok env, ctx')
    \<and> (map_of (w_cel_envs (backend ctx)) (ds_addr s) = None \<longrightarrow>
        (\<exists>p input output. method_descriptor s (w_descriptors (backend ctx)) = Ok (p, input, output)
          \<and> map_of env ''DenyResponse'' = Some deny_response_struct_def
          \<and> (\<forall>m \<in> msg_reach p {} {input} \<union> msg_reach p {} {output}.
               \<not> md_map_entry (desc_of p m) \<longrightarrow> map_of env m \<noteq> None)))"
proof (cases "map_of (w_cel_envs (backend ctx)) (ds_addr s)")
  case (Some env0)
  with assms show ?thesis by (simp add: service_cel_env_def)
next
  case None
  with assms obtain p inp outp where
    m: "method_descriptor s (w_descriptors (backend ctx)) = Ok (p, inp, outp)"
    and b: "build_cel_env p inp outp = Ok env"
    and c: "ctx' = ctx\<lparr>backend := (backend ctx)\<lparr>w_cel_envs := AList.update (ds_addr s) env (w_cel_envs (backend ctx))\<rparr>\<rparr>"
    by (auto simp: service_cel_env_def split: option.splits result.splits prod.splits)
  have deny: "sd_name deny_response_struct_def = ''DenyResponse''"
    by (simp add: deny_response_struct_def_def add_field_with_default_def add_field_def struct_def_new_def)
  obtain e1 where e1: "register_message_types p inp [] = Ok e1"
    and r1: "\<And>m. m \<in> msg_reach p {} {inp} \<Longrightarrow> \<not> md_map_entry (desc_of p m) \<Longrightarrow> map_of e1 m \<noteq> None"
    using register_types_spec [of p inp "[]"] by blast
  obtain e2 where e2: "register_message_types p outp e1 = Ok e2"
    and r2: "\<And>m. map_of e1 m \<noteq> None \<or> (m \<in> msg_reach p {} {outp} \<and> \<not> md_map_entry (desc_of p m))
        \<Longrightarrow> map_of e2 m \<noteq> None"
    using register_types_spec [of p outp e1] by blast
  have env: "env = AList.update ''DenyResponse'' deny_response_struct_def e2"
    using b e1 e2 deny by (simp add: build_cel_env_def)
  then have "map_of env ''DenyResponse'' = Some deny_response_struct_def" by simp
  moreover have "\<forall>m \<in> msg_reach p {} {inp} \<union> msg_reach p {} {outp}.
      \<not> md_map_entry (desc_of p m) \<longrightarrow> map_of env m \<noteq> None"
    using r1 r2 env by auto
  moreover have "service_cel_env s ctx' = (Ok env, ctx')"
    by (simp add: c service_cel_env_def)
  ultimately show ?thesis using m by blast
qed

definition demo_service :: dynamic_service where
  "demo_service = \<lparr>ds_addr = 0, ds_upstream_name = ''c'', ds_service_name = ''S'', ds_method = ''Check'',
     ds_timeout = 20, ds_failure_mode = Mode_Deny\<rparr>"

definition demo_ctx :: "unit req_resp_ctx" where
  "demo_ctx = req_resp_ctx_new (demo_world\<lparr>w_descriptors :=
     \<lparr>dm_pools = [(0, demo_pool)], dm_embedded = [],
      dm_descriptors = [(DescriptorKey ''c'' ''S'', Resolved 0)], dm_service = None\<rparr>\<rparr>)"

lemma demo_method: "method_descriptor demo_service (w_descriptors (backend demo_ctx)) = Ok (demo_pool, ''M'', ''M'')"
  by (simp add: method_descriptor_def lookup_method_def demo_service_def demo_ctx_def req_resp_ctx_new_def
      get_pool_def ok_or_def demo_pool_def)

theorem service_cel_env_built_once_witness:
  "\<exists>env ctx'. service_cel_env demo_service demo_ctx = (Ok env, ctx')
     \<and> service_cel_env demo_service ctx' = (Ok env, ctx')"
proof -
  obtain e1 where e1: "register_message_types demo_pool ''M'' [] = Ok e1" using register_types_spec by blast
  obtain e2 where e2: "register_message_types demo_pool ''M'' e1 = Ok e2" using register_types_spec by blast
  have none: "map_of (w_cel_envs (backend demo_ctx)) (ds_addr demo_service) = None"
    by (simp add: demo_ctx_def req_resp_ctx_new_def demo_world_def)
  then obtain env ctx' where "service_cel_env demo_service demo_ctx = (Ok env, ctx')"
    by (simp add: service_cel_env_def demo_method build_cel_env_def e1 e2)
  with service_cel_env_built_once [OF this] show ?thesis by blast
qed

end
