(* ===== verification/Sse.thy ===== *)
theory Sse
  imports Shim_Prelude
begin

text \<open>
  \<^verbatim>\<open>src/kuadrant/pipeline/tasks/token_usage/event_parser.rs\<close> and its
  \<^verbatim>\<open>sse_line_parser.rs\<close>: the incremental parser of server-sent events that reads a
  streaming response.  The primitive parsers of \<^verbatim>\<open>nom::bytes::streaming\<close> are a parameter
  (the record \<open>nom\<close>) whose documented behaviour is the hypothesis \<open>nom_laws\<close>; sequencing
  and \<^verbatim>\<open>alt\<close> (which tries the next branch on an error only, so an incomplete input stops
  it) are written out as case distinctions.  The loops of the parser are partial functions
  into \<^typ>\<open>'a option\<close>: \<^const>\<open>None\<close> is a loop that does not end.
\<close>

section \<open>Lines\<close>

datatype 'a iresult = IOk string 'a | Incomplete | IError

record nom =
  tag :: "string \<Rightarrow> string \<Rightarrow> string iresult"
  take_while :: "(char \<Rightarrow> bool) \<Rightarrow> string \<Rightarrow> string iresult"
  take_while1 :: "(char \<Rightarrow> bool) \<Rightarrow> string \<Rightarrow> string iresult"
  take_while_m_n :: "nat \<Rightarrow> nat \<Rightarrow> (char \<Rightarrow> bool) \<Rightarrow> string \<Rightarrow> string iresult"

datatype raw_event_line =
    Comment string
  | Field string "string option"
  | Empty

definition is_lf :: "char \<Rightarrow> bool" where
  "is_lf c = (c = CHR 0x0A)"

definition is_space :: "char \<Rightarrow> bool" where
  "is_space c = (c = CHR 0x20)"

definition is_colon :: "char \<Rightarrow> bool" where
  "is_colon c = (c = CHR 0x3A)"

text \<open>On UTF-8 bytes the last range of the source, up to U+10FFFF, is every byte above.\<close>

definition is_name_char :: "char \<Rightarrow> bool" where
  "is_name_char c = (byte_in 0 9 c \<or> byte_in 11 12 c \<or> byte_in 14 57 c \<or> byte_in 59 255 c)"

definition is_any_char :: "char \<Rightarrow> bool" where
  "is_any_char c = (byte_in 0 9 c \<or> byte_in 11 12 c \<or> byte_in 14 255 c)"

definition crlf :: "nom \<Rightarrow> string \<Rightarrow> string iresult" where
  "crlf N input = tag N [CHR 0x0D, CHR 0x0A] input"

definition end_of_line :: "nom \<Rightarrow> string \<Rightarrow> string iresult" where
  "end_of_line N input =
     (case crlf N input of
        IError \<Rightarrow>
          (case tag N [CHR 0x0D] input of
             IError \<Rightarrow> tag N [CHR 0x0A] input
           | r \<Rightarrow> r)
      | r \<Rightarrow> r)"

definition comment :: "nom \<Rightarrow> string \<Rightarrow> raw_event_line iresult" where
  "comment N input =
     (case take_while_m_n N 1 1 is_colon input of
        Incomplete \<Rightarrow> Incomplete
      | IError \<Rightarrow> IError
      | IOk rem1 _ \<Rightarrow>
          (case take_while N is_any_char rem1 of
             Incomplete \<Rightarrow> Incomplete
           | IError \<Rightarrow> IError
           | IOk rem2 cmt \<Rightarrow>
               (case end_of_line N rem2 of
                  Incomplete \<Rightarrow> Incomplete
                | IError \<Rightarrow> IError
                | IOk rem3 _ \<Rightarrow> IOk rem3 (Comment cmt))))"

text \<open>The optional \<^verbatim>\<open>: value\<close> of a field: \<^verbatim>\<open>opt\<close> turns an error into \<^const>\<open>None\<close> on the same input.\<close>

definition field_value :: "nom \<Rightarrow> string \<Rightarrow> string option iresult" where
  "field_value N input =
     (case take_while_m_n N 1 1 is_colon input of
        Incomplete \<Rightarrow> Incomplete
      | IError \<Rightarrow> IOk input None
      | IOk rem1 _ \<Rightarrow>
          (case take_while_m_n N 1 1 is_space rem1 of
             Incomplete \<Rightarrow> Incomplete
           | r \<Rightarrow>
               (case take_while N is_any_char (case r of IOk rem2 _ \<Rightarrow> rem2 | _ \<Rightarrow> rem1) of
                  Incomplete \<Rightarrow> Incomplete
                | IError \<Rightarrow> IOk input None
                | IOk rem3 val \<Rightarrow> IOk rem3 (Some val))))"

definition field :: "nom \<Rightarrow> string \<Rightarrow> raw_event_line iresult" where
  "field N input =
     (case take_while1 N is_name_char input of
        Incomplete \<Rightarrow> Incomplete
      | IError \<Rightarrow> IError
      | IOk rem1 name \<Rightarrow>
          (case field_value N rem1 of
             Incomplete \<Rightarrow> Incomplete
           | IError \<Rightarrow> IError
           | IOk rem2 val \<Rightarrow>
               (case end_of_line N rem2 of
                  Incomplete \<Rightarrow> Incomplete
                | IError \<Rightarrow> IError
                | IOk rem3 _ \<Rightarrow> IOk rem3 (Field name val))))"

definition empty_line :: "nom \<Rightarrow> string \<Rightarrow> raw_event_line iresult" where
  "empty_line N input =
     (case end_of_line N input of
        IOk i _ \<Rightarrow> IOk i Empty
      | Incomplete \<Rightarrow> Incomplete
      | IError \<Rightarrow> IError)"

definition line :: "nom \<Rightarrow> string \<Rightarrow> raw_event_line iresult" where
  "line N input =
     (case comment N input of
        IError \<Rightarrow>
          (case field N input of
             IError \<Rightarrow> empty_line N input
           | r \<Rightarrow> r)
      | r \<Rightarrow> r)"

section \<open>Events\<close>

record event =
  ev_event :: string
  ev_data :: string
  ev_id :: string
  ev_retry :: "nat option" \<comment> \<open>milliseconds\<close>

definition default_event :: event where
  "default_event = \<lparr>ev_event = [], ev_data = [], ev_id = [], ev_retry = None\<rparr>"

record event_builder =
  eb_event :: event
  eb_is_complete :: bool

definition default_builder :: event_builder where
  "default_builder = \<lparr>eb_event = default_event, eb_is_complete = False\<rparr>"

record event_parser =
  ep_buffer :: string
  ep_builder :: event_builder

definition default_parser :: event_parser where
  "default_parser = \<lparr>ep_buffer = [], ep_builder = default_builder\<rparr>"

text \<open>\<^verbatim>\<open>str::parse::<u64>\<close>: an optional plus sign, at least one digit, no overflow.\<close>

definition is_digit :: "char \<Rightarrow> bool" where
  "is_digit c = byte_in 48 57 c"

definition str_parse_u64 :: "string \<Rightarrow> nat option" where
  "str_parse_u64 s =
     (let ds = (case s of c # cs \<Rightarrow> if c = CHR ''+'' \<and> cs \<noteq> [] then cs else s | [] \<Rightarrow> [])
      in if ds \<noteq> [] \<and> list_all is_digit ds
         then (let n = foldl (\<lambda>acc c. 10 * acc + (of_char c - 48)) (0 :: nat) ds
               in if n < 2 ^ 64 then Some n else None)
         else None)"

definition builder_add :: "raw_event_line \<Rightarrow> event_builder \<Rightarrow> event_builder" where
  "builder_add ln b =
     (case ln of
        Field fld v \<Rightarrow>
          (let val = (case v of Some x \<Rightarrow> x | None \<Rightarrow> []); ev = eb_event b
           in if fld = ''event'' then b\<lparr>eb_event := ev\<lparr>ev_event := val\<rparr>\<rparr>
              else if fld = ''data'' then
                b\<lparr>eb_event := ev\<lparr>ev_data :=
                    (if ev_data ev \<noteq> [] then ev_data ev @ [CHR 0x0A] else ev_data ev) @ val\<rparr>\<rparr>
              else if fld = ''id'' \<and> CHR 0x00 \<notin> set val then b\<lparr>eb_event := ev\<lparr>ev_id := val\<rparr>\<rparr>
              else if fld = ''retry'' then
                (case str_parse_u64 val of
                   Some n \<Rightarrow> b\<lparr>eb_event := ev\<lparr>ev_retry := Some n\<rparr>\<rparr>
                 | None \<Rightarrow> b)
              else b)
      | Comment _ \<Rightarrow> b
      | Empty \<Rightarrow> b\<lparr>eb_is_complete := True\<rparr>)"

text \<open>\<^verbatim>\<open>dispatch\<close> takes the builder's contents, leaving a default one.\<close>

definition builder_dispatch :: "event_builder \<Rightarrow> event option \<times> event_builder" where
  "builder_dispatch b =
     (let ev = eb_event b
      in if ev_data ev = [] then (None, default_builder)
         else
           (let ev1 = (if is_lf (last (ev_data ev)) then ev\<lparr>ev_data := butlast (ev_data ev)\<rparr> else ev);
                ev2 = (if ev_event ev1 = [] then ev1\<lparr>ev_event := ''message''\<rparr> else ev1)
            in (Some ev2, default_builder)))"

partial_function (option) parse_one_event_loop ::
  "nom \<Rightarrow> event_parser \<Rightarrow> ((event option, string) result \<times> event_parser) option"
where
  "parse_one_event_loop N p =
     (case line N (ep_buffer p) of
        IOk rem next_line \<Rightarrow>
          (let b = builder_add next_line (ep_builder p)
           in if eb_is_complete b
              then (case builder_dispatch b of
                      (Some ev, b') \<Rightarrow> Some (Ok (Some ev), \<lparr>ep_buffer = rem, ep_builder = b'\<rparr>)
                    | (None, b') \<Rightarrow> parse_one_event_loop N \<lparr>ep_buffer = rem, ep_builder = b'\<rparr>)
              else parse_one_event_loop N \<lparr>ep_buffer = rem, ep_builder = b\<rparr>)
      | Incomplete \<Rightarrow> Some (Ok None, p)
      | IError \<Rightarrow> Some (Err ''nom error'', p))"

definition parse_one_event ::
  "nom \<Rightarrow> event_parser \<Rightarrow> ((event option, string) result \<times> event_parser) option"
where
  "parse_one_event N p =
     (if ep_buffer p = [] then Some (Ok None, p) else parse_one_event_loop N p)"

partial_function (option) parse_loop ::
  "nom \<Rightarrow> event list \<Rightarrow> event_parser \<Rightarrow> ((event list, string) result \<times> event_parser) option"
where
  "parse_loop N events p =
     (case parse_one_event N p of
        None \<Rightarrow> None
      | Some (Err e, p') \<Rightarrow> Some (Err e, p')
      | Some (Ok None, p') \<Rightarrow> Some (Ok events, p')
      | Some (Ok (Some ev), p') \<Rightarrow> parse_loop N (events @ [ev]) p')"

definition parse ::
  "nom \<Rightarrow> bytes \<Rightarrow> event_parser \<Rightarrow> ((event list, string) result \<times> event_parser) option"
where
  "parse N chunk_bytes p =
     (if utf8_valid chunk_bytes
      then parse_loop N [] (p\<lparr>ep_buffer := ep_buffer p @ chunk_bytes\<rparr>)
      else Some (Err ''invalid utf-8'', p))"

section \<open>What the code relies on\<close>

text \<open>The documented behaviour of the streaming parsers of \<^verbatim>\<open>nom\<close>: an input that ends before
  the parser can decide is \<^const>\<open>Incomplete\<close>.\<close>

definition nom_laws :: "nom \<Rightarrow> bool" where
  "nom_laws N \<longleftrightarrow>
     (\<forall>t i. tag N t i =
        (if prefix t i then IOk (drop (length t) i) t else if prefix i t then Incomplete else IError))
   \<and> (\<forall>p i. take_while N p i =
        (if list_all p i then Incomplete else IOk (dropWhile p i) (takeWhile p i)))
   \<and> (\<forall>p i. take_while1 N p i =
        (if list_all p i then Incomplete
         else if takeWhile p i = [] then IError else IOk (dropWhile p i) (takeWhile p i)))
   \<and> (\<forall>m n p i. take_while_m_n N m n p i =
        (let k = length (takeWhile p i)
         in if n \<le> k then IOk (drop n i) (take n i)
            else if k = length i then Incomplete
            else if m \<le> k then IOk (drop k i) (take k i)
            else IError))"

definition nom_ref :: nom where
  "nom_ref =
     \<lparr>tag = (\<lambda>t i. if prefix t i then IOk (drop (length t) i) t
                   else if prefix i t then Incomplete else IError),
      take_while = (\<lambda>p i. if list_all p i then Incomplete else IOk (dropWhile p i) (takeWhile p i)),
      take_while1 = (\<lambda>p i. if list_all p i then Incomplete
         else if takeWhile p i = [] then IError else IOk (dropWhile p i) (takeWhile p i)),
      take_while_m_n = (\<lambda>m n p i.
         let k = length (takeWhile p i)
         in if n \<le> k then IOk (drop n i) (take n i)
            else if k = length i then Incomplete
            else if m \<le> k then IOk (drop k i) (take k i)
            else IError)\<rparr>"

lemma nom_laws_ref: "nom_laws nom_ref"
  by (simp add: nom_laws_def nom_ref_def)

section \<open>The line grammar\<close>

text \<open>The grammar of the source's header comment, written as a function of the text up to the
  line end.\<close>

definition is_eol :: "char \<Rightarrow> bool" where
  "is_eol c = (c = CHR 0x0D \<or> c = CHR 0x0A)"

definition line_end :: "string \<Rightarrow> string option" where
  "line_end s =
     (case s of
        [] \<Rightarrow> None
      | c # r \<Rightarrow>
          if c = CHR 0x0A then Some r
          else if c = CHR 0x0D then
            (case r of [] \<Rightarrow> None | d # r' \<Rightarrow> if d = CHR 0x0A then Some r' else Some r)
          else None)"

definition classify :: "string \<Rightarrow> raw_event_line" where
  "classify body =
     (case body of
        [] \<Rightarrow> Empty
      | c # cs \<Rightarrow>
          if c = CHR '':'' then Comment cs
          else (case split_once (CHR '':'') body of
                  None \<Rightarrow> Field body None
                | Some (name, val) \<Rightarrow>
                    Field name (Some (case val of d # ds \<Rightarrow> if d = CHR '' '' then ds else val | [] \<Rightarrow> []))))"

definition line_spec :: "string \<Rightarrow> (string \<times> raw_event_line) option" where
  "line_spec s =
     (case line_end (dropWhile (\<lambda>c. \<not> is_eol c) s) of
        None \<Rightarrow> None
      | Some r \<Rightarrow> Some (r, classify (takeWhile (\<lambda>c. \<not> is_eol c) s)))"

lemma char_eq_nat: "c = d \<longleftrightarrow> (of_char c :: nat) = of_char d"
  by simp

lemma is_any_char_iff: "is_any_char c \<longleftrightarrow> \<not> is_eol c"
proof -
  have "(of_char c :: nat) \<le> 255" using nat_of_char_less_256 [of c] by linarith
  then show ?thesis
    by (auto simp: is_any_char_def is_eol_def byte_in_def char_eq_nat simp del: of_char_eq_iff)
qed

lemma is_name_char_iff: "is_name_char c \<longleftrightarrow> \<not> is_eol c \<and> c \<noteq> CHR '':''"
proof -
  have "(of_char c :: nat) \<le> 255" using nat_of_char_less_256 [of c] by linarith
  then show ?thesis
    by (auto simp: is_name_char_def is_eol_def byte_in_def char_eq_nat simp del: of_char_eq_iff)
qed

lemma take_while1_1:
  assumes "nom_laws N"
  shows "take_while_m_n N 1 1 p i =
    (case i of [] \<Rightarrow> Incomplete | c # r \<Rightarrow> if p c then IOk r [c] else IError)"
  using assms by (auto simp: nom_laws_def Let_def split: list.split)

lemma take_while_any:
  assumes "nom_laws N"
  shows "take_while N is_any_char i =
    (if list_all (\<lambda>c. \<not> is_eol c) i then Incomplete
     else IOk (dropWhile (\<lambda>c. \<not> is_eol c) i) (takeWhile (\<lambda>c. \<not> is_eol c) i))"
  using assms by (simp add: nom_laws_def is_any_char_iff [abs_def])

lemma end_of_line_cases:
  assumes "nom_laws N"
  shows "end_of_line N i =
    (case i of
       [] \<Rightarrow> Incomplete
     | c # r \<Rightarrow>
         if c = CHR 0x0A then IOk r [CHR 0x0A]
         else if c = CHR 0x0D then
           (case r of [] \<Rightarrow> Incomplete
            | d # r' \<Rightarrow> if d = CHR 0x0A then IOk r' [CHR 0x0D, CHR 0x0A] else IOk r [CHR 0x0D])
         else IError)"
  using assms by (auto simp: nom_laws_def end_of_line_def crlf_def split: list.split)

lemma end_of_line_spec:
  assumes "nom_laws N" and "i = [] \<or> is_eol (hd i)"
  shows "end_of_line N i =
    (case line_end i of
       None \<Rightarrow> Incomplete
     | Some r \<Rightarrow> IOk r (take (length i - length r) i))"
  using assms(2) unfolding end_of_line_cases [OF assms(1)]
  by (auto simp: line_end_def is_eol_def split: list.splits)

lemma hd_dropWhile_eol: "dropWhile (\<lambda>c. \<not> is_eol c) i = [] \<or> is_eol (hd (dropWhile (\<lambda>c. \<not> is_eol c) i))"
  using hd_dropWhile by blast

lemma list_all_eol: "list_all (\<lambda>c. \<not> is_eol c) i \<longleftrightarrow> dropWhile (\<lambda>c. \<not> is_eol c) i = []"
  by (simp add: list_all_iff dropWhile_eq_Nil_conv)


lemma line_end_Nil [simp]: "line_end [] = None"
  by (simp add: line_end_def)

lemma comment_spec:
  assumes "nom_laws N"
  shows "comment N (CHR '':'' # i) =
    (case line_spec (CHR '':'' # i) of None \<Rightarrow> Incomplete | Some (r, l) \<Rightarrow> IOk r l)"
proof -
  have nl: "\<not> is_eol (CHR '':'')" by (simp add: is_eol_def)
  let ?d = "dropWhile (\<lambda>c. \<not> is_eol c) i"
  note eol = end_of_line_spec [OF assms hd_dropWhile_eol, of i]
  show ?thesis
  proof (cases "?d = []")
    case True
    then show ?thesis
      unfolding comment_def take_while1_1 [OF assms] take_while_any [OF assms] list_all_eol
      by (simp add: line_spec_def nl is_colon_def del: dropWhile_eq_Nil_conv)
  next
    case False
    with eol show ?thesis
      unfolding comment_def take_while1_1 [OF assms] take_while_any [OF assms] list_all_eol
      by (simp add: line_spec_def nl is_colon_def classify_def del: dropWhile_eq_Nil_conv
               split: option.split)
  qed
qed

lemma comment_other:
  assumes "nom_laws N" and "c \<noteq> CHR '':''"
  shows "comment N (c # i) = IError"
  unfolding comment_def take_while1_1 [OF assms(1)] using assms(2) by (simp add: is_colon_def)

lemma field_value_spec:
  assumes "nom_laws N"
  shows "field_value N i =
    (case i of
       [] \<Rightarrow> Incomplete
     | c # v \<Rightarrow>
         if c \<noteq> CHR '':'' then IOk i None
         else if dropWhile (\<lambda>c. \<not> is_eol c) v = [] then Incomplete
         else IOk (dropWhile (\<lambda>c. \<not> is_eol c) v)
                (Some (case takeWhile (\<lambda>c. \<not> is_eol c) v of
                         d # ds \<Rightarrow> if d = CHR '' '' then ds else d # ds | [] \<Rightarrow> [])))"
proof (cases i)
  case (Cons c v)
  have sp: "\<not> is_eol (CHR '' '')" by (simp add: is_eol_def)
  show ?thesis
    unfolding field_value_def take_while1_1 [OF assms] take_while_any [OF assms] Cons
    by (auto simp: is_colon_def is_space_def list_all_eol sp split: list.splits)
next
  case Nil
  show ?thesis unfolding field_value_def take_while1_1 [OF assms] Nil by simp
qed

lemma name_chars:
  "takeWhile is_name_char s = takeWhile (\<lambda>c. c \<noteq> CHR '':'') (takeWhile (\<lambda>c. \<not> is_eol c) s)"
  "dropWhile is_name_char s =
     (case split_once (CHR '':'') (takeWhile (\<lambda>c. \<not> is_eol c) s) of
        None \<Rightarrow> dropWhile (\<lambda>c. \<not> is_eol c) s
      | Some (name, val) \<Rightarrow> CHR '':'' # val @ dropWhile (\<lambda>c. \<not> is_eol c) s)"
  by (induction s) (auto simp: is_name_char_iff split: option.splits)


lemma take_while1_name:
  assumes "nom_laws N" and "\<not> is_eol c" and "c \<noteq> CHR '':''"
  shows "take_while1 N is_name_char (c # i) =
    (if dropWhile is_name_char (c # i) = [] then Incomplete
     else IOk (dropWhile is_name_char (c # i)) (takeWhile is_name_char (c # i)))"
  using assms by (auto simp: nom_laws_def list_all_iff is_name_char_iff)

lemma dropWhile_val_eol:
  assumes "\<forall>c \<in> set val. \<not> is_eol c" and "d = [] \<or> is_eol (hd d)"
  shows "dropWhile (\<lambda>c. \<not> is_eol c) (val @ d) = d" "takeWhile (\<lambda>c. \<not> is_eol c) (val @ d) = val"
  using assms by (induction val) (cases d; simp)+

lemma field_spec:
  assumes "nom_laws N" and "\<not> is_eol c" and "c \<noteq> CHR '':''"
  shows "field N (c # i) =
    (case line_spec (c # i) of None \<Rightarrow> Incomplete | Some (r, l) \<Rightarrow> IOk r l)"
proof -
  define body where "body = takeWhile (\<lambda>c. \<not> is_eol c) (c # i)"
  define d where "d = dropWhile (\<lambda>c. \<not> is_eol c) (c # i)"
  have d: "d = [] \<or> is_eol (hd d)" unfolding d_def by (rule hd_dropWhile_eol)
  note eol = end_of_line_spec [OF assms(1) d]
  have spec: "line_spec (c # i) = (case line_end d of None \<Rightarrow> None | Some r \<Rightarrow> Some (r, classify body))"
    by (simp only: line_spec_def d_def body_def)
  have body: "body = c # tl body" using assms(2) by (simp add: body_def)
  show ?thesis
  proof (cases "split_once (CHR '':'') body")
    case None
    then have no_colon: "CHR '':'' \<notin> set body" by (simp add: split_once_None)
    have name: "takeWhile is_name_char (c # i) = body" and rest: "dropWhile is_name_char (c # i) = d"
      using None no_colon unfolding name_chars body_def [symmetric] d_def
      by (auto simp: takeWhile_eq_all_conv)
    have cls: "classify body = Field body None"
      using None assms(3) body by (auto simp: classify_def split: list.split)
    have hd_d: "d \<noteq> [] \<Longrightarrow> hd d \<noteq> CHR '':''" using d by (auto simp: is_eol_def)
    show ?thesis
      unfolding field_def take_while1_name [OF assms] rest name field_value_spec [OF assms(1)] spec
      using eol cls hd_d by (cases d) (auto split: option.split)
  next
    case (Some p)
    obtain name val where p: "p = (name, val)" by force
    with Some have bv: "body = name @ CHR '':'' # val" and nc: "CHR '':'' \<notin> set name"
      by (simp_all add: split_once_Some)
    have val: "\<forall>c \<in> set val. \<not> is_eol c"
    proof -
      have "\<forall>c \<in> set body. \<not> is_eol c" unfolding body_def by (auto dest: set_takeWhileD)
      then show ?thesis by (simp add: bv)
    qed
    have nm: "takeWhile is_name_char (c # i) = name"
      unfolding name_chars body_def [symmetric] bv using nc by (auto simp: takeWhile_append)
    have rest: "dropWhile is_name_char (c # i) = CHR '':'' # val @ d"
      unfolding name_chars body_def [symmetric] d_def using Some p by simp
    have cls: "classify body = Field name (Some (case val of d # ds \<Rightarrow> if d = CHR '' '' then ds else val | [] \<Rightarrow> []))"
      using Some p assms(3) body by (auto simp: classify_def split: list.split)
    have fv: "field_value N (CHR '':'' # val @ d) =
      (if d = [] then Incomplete
       else IOk d (Some (case val of d # ds \<Rightarrow> if d = CHR '' '' then ds else val | [] \<Rightarrow> [])))"
      unfolding field_value_spec [OF assms(1)] list.case dropWhile_val_eol [OF val d]
      by (simp split: list.split)
    show ?thesis
      unfolding field_def take_while1_name [OF assms] rest nm spec cls
      using eol fv by (auto split: option.split)
  qed
qed

lemma field_eol:
  assumes "nom_laws N" and "is_eol c"
  shows "field N (c # i) = IError"
  using assms by (auto simp: field_def nom_laws_def is_name_char_iff)

lemma empty_line_spec:
  assumes "nom_laws N" and "is_eol c"
  shows "empty_line N (c # i) =
    (case line_spec (c # i) of None \<Rightarrow> Incomplete | Some (r, l) \<Rightarrow> IOk r l)"
  using end_of_line_spec [OF assms(1), of "c # i"] assms(2)
  by (auto simp: empty_line_def line_spec_def classify_def split: option.split)

lemma line_eq_spec:
  assumes "nom_laws N"
  shows "line N s = (case line_spec s of None \<Rightarrow> Incomplete | Some (r, l) \<Rightarrow> IOk r l)"
proof (cases s)
  case Nil
  then show ?thesis
    unfolding line_def comment_def take_while1_1 [OF assms] by (simp add: line_spec_def)
next
  case (Cons c i)
  consider "c = CHR '':''" | "is_eol c" | "c \<noteq> CHR '':''" "\<not> is_eol c" by blast
  then show ?thesis
  proof cases
    case 1
    then show ?thesis
      using comment_spec [OF assms, of i] by (auto simp: line_def Cons split: option.split)
  next
    case 2
    then have "c \<noteq> CHR '':''" by (auto simp: is_eol_def)
    with 2 show ?thesis
      by (simp add: line_def Cons comment_other [OF assms] field_eol [OF assms] empty_line_spec [OF assms])
  next
    case 3
    then show ?thesis
      using field_spec [OF assms 3(2,1), of i]
      by (auto simp: line_def Cons comment_other [OF assms] split: option.split)
  qed
qed


section \<open>Draining the buffer\<close>

lemma line_end_less: "line_end s = Some r \<Longrightarrow> length r < length s"
  by (auto simp: line_end_def split: list.splits if_splits)

lemma line_end_append: "line_end s = Some r \<Longrightarrow> line_end (s @ t) = Some (r @ t)"
  by (auto simp: line_end_def split: list.splits if_splits)

lemma line_spec_less: "line_spec s = Some (r, l) \<Longrightarrow> length r < length s"
  using length_dropWhile_le [of "\<lambda>c. \<not> is_eol c" s]
  by (auto simp: line_spec_def dest!: line_end_less split: option.splits)

lemma line_spec_append:
  assumes "line_spec s = Some (r, l)"
  shows "line_spec (s @ t) = Some (r @ t, l)"
proof -
  let ?P = "\<lambda>c. \<not> is_eol c"
  from assms obtain q where q: "line_end (dropWhile ?P s) = Some q"
    by (auto simp: line_spec_def split: option.splits)
  then have "dropWhile ?P s \<noteq> []" by (metis line_end_Nil option.distinct(1))
  then obtain x where "x \<in> set s" "is_eol x" by auto
  then have "takeWhile ?P (s @ t) = takeWhile ?P s" "dropWhile ?P (s @ t) = dropWhile ?P s @ t"
    by (auto simp: takeWhile_append1 dropWhile_append1)
  with assms q show ?thesis
    by (auto simp: line_spec_def line_end_append)
qed

text \<open>The reference parser: all events of the lines that are complete in the buffer, and the
  parser state with the unfinished rest.\<close>

function sse_drain :: "string \<Rightarrow> event_builder \<Rightarrow> event list \<times> event_parser" where
  "sse_drain buf b =
     (case line_spec buf of
        None \<Rightarrow> ([], \<lparr>ep_buffer = buf, ep_builder = b\<rparr>)
      | Some (rem, l) \<Rightarrow>
          (let b1 = builder_add l b
           in if eb_is_complete b1
              then (case builder_dispatch b1 of
                      (Some ev, b2) \<Rightarrow> (ev # fst (sse_drain rem b2), snd (sse_drain rem b2))
                    | (None, b2) \<Rightarrow> sse_drain rem b2)
              else sse_drain rem b1))"
  by pat_completeness auto
termination
  by (relation "measure (\<lambda>(buf, b). length buf)") (auto dest: line_spec_less)

declare sse_drain.simps [simp del]

lemma sse_drain_append:
  "sse_drain (buf @ t) b =
     (let (es, p) = sse_drain buf b; (es', p') = sse_drain (ep_buffer p @ t) (ep_builder p)
      in (es @ es', p'))"
proof (induction buf b rule: sse_drain.induct)
  case (1 buf b)
  show ?case
  proof (cases "line_spec buf")
    case None
    then show ?thesis by (simp add: sse_drain.simps [of buf b])
  next
    case (Some rl)
    obtain rem l where rl: "rl = (rem, l)" by force
    note app = line_spec_append [OF Some [unfolded rl], of t]
    note unf = sse_drain.simps [of buf b] sse_drain.simps [of "buf @ t" b]
    show ?thesis
    proof (cases "eb_is_complete (builder_add l b)")
      case False
      with "1.IH"(4) [OF Some rl [symmetric] refl] Some rl app show ?thesis
        by (simp add: unf)
    next
      case True
      obtain o' b2 where disp: "builder_dispatch (builder_add l b) = (o', b2)" by force
      show ?thesis
      proof (cases o')
        case None
        with "1.IH"(1) [OF Some rl [symmetric] refl True disp [symmetric] None] Some rl app True disp
        show ?thesis by (simp add: unf)
      next
        case (Some ev)
        with "1.IH"(2) [OF \<open>line_spec buf = Some rl\<close> rl [symmetric] refl True disp [symmetric] Some]
          \<open>line_spec buf = Some rl\<close> rl app True disp
        show ?thesis by (simp add: unf split: prod.splits)
      qed
    qed
  qed
qed

text \<open>One call of the event loop takes the next event of the reference, or none.\<close>

definition one_event_agrees :: "nom \<Rightarrow> event_parser \<Rightarrow> bool" where
  "one_event_agrees N p \<longleftrightarrow>
     (\<exists>p'. parse_one_event_loop N p = Some (Ok None, p')
           \<and> sse_drain (ep_buffer p) (ep_builder p) = ([], p'))
   \<or> (\<exists>ev p'. parse_one_event_loop N p = Some (Ok (Some ev), p')
           \<and> length (ep_buffer p') < length (ep_buffer p)
           \<and> sse_drain (ep_buffer p) (ep_builder p) =
               (ev # fst (sse_drain (ep_buffer p') (ep_builder p')),
                snd (sse_drain (ep_buffer p') (ep_builder p'))))"

lemma one_event_agrees_skip:
  assumes "one_event_agrees N q" and "length (ep_buffer q) < length (ep_buffer p)"
    and "parse_one_event_loop N p = parse_one_event_loop N q"
    and "sse_drain (ep_buffer p) (ep_builder p) = sse_drain (ep_buffer q) (ep_builder q)"
  shows "one_event_agrees N p"
  using assms unfolding one_event_agrees_def by (auto intro: less_trans)

lemma parse_one_event_agrees:
  assumes "nom_laws N"
  shows "one_event_agrees N p"
proof (induction "length (ep_buffer p)" arbitrary: p rule: less_induct)
  case less
  note unf = parse_one_event_loop.simps [of N p] sse_drain.simps [of "ep_buffer p" "ep_builder p"]
  show ?case
  proof (cases "line_spec (ep_buffer p)")
    case None
    then show ?thesis by (simp add: one_event_agrees_def unf line_eq_spec [OF assms])
  next
    case (Some rl)
    obtain rem l where rl: "rl = (rem, l)" by force
    define b where "b = builder_add l (ep_builder p)"
    have lt: "length rem < length (ep_buffer p)" using line_spec_less Some rl by blast
    have skip: "one_event_agrees N \<lparr>ep_buffer = rem, ep_builder = b'\<rparr>" for b'
      by (rule less) (simp add: lt)
    show ?thesis
    proof (cases "eb_is_complete b")
      case False
      show ?thesis
        by (rule one_event_agrees_skip [OF skip [of b]])
           (use Some rl False lt in \<open>simp_all add: unf line_eq_spec [OF assms] b_def\<close>)
    next
      case True
      obtain o' b2 where disp: "builder_dispatch b = (o', b2)" by force
      show ?thesis
      proof (cases o')
        case None
        show ?thesis
          by (rule one_event_agrees_skip [OF skip [of b2]])
             (use Some rl True disp None lt in \<open>simp_all add: unf line_eq_spec [OF assms] b_def\<close>)
      next
        case (Some ev)
        with \<open>line_spec (ep_buffer p) = Some rl\<close> rl True disp lt show ?thesis
          by (simp add: one_event_agrees_def unf line_eq_spec [OF assms] b_def)
      qed
    qed
  qed
qed

lemma parse_loop_drain:
  assumes "nom_laws N"
  shows "parse_loop N events p =
    (let (es, p') = sse_drain (ep_buffer p) (ep_builder p) in Some (Ok (events @ es), p'))"
proof (induction "length (ep_buffer p)" arbitrary: p events rule: less_induct)
  case less
  show ?case
  proof (cases "ep_buffer p = []")
    case True
    then have "line_spec (ep_buffer p) = None" by (simp add: line_spec_def)
    with True show ?thesis
      by (simp add: parse_loop.simps [of N events p] parse_one_event_def
                    sse_drain.simps [of "[]" "ep_builder p"])
  next
    case False
    from parse_one_event_agrees [OF assms, of p]
    consider p' where "parse_one_event_loop N p = Some (Ok None, p')"
        "sse_drain (ep_buffer p) (ep_builder p) = ([], p')"
      | ev p' where "parse_one_event_loop N p = Some (Ok (Some ev), p')"
        "length (ep_buffer p') < length (ep_buffer p)"
        "sse_drain (ep_buffer p) (ep_builder p) =
           (ev # fst (sse_drain (ep_buffer p') (ep_builder p')),
            snd (sse_drain (ep_buffer p') (ep_builder p')))"
      unfolding one_event_agrees_def by blast
    then show ?thesis
    proof cases
      case 1
      with False show ?thesis
        by (simp add: parse_loop.simps [of N events p] parse_one_event_def)
    next
      case 2
      with False less(1) [OF 2(2), of "events @ [ev]"] show ?thesis
        by (simp add: parse_loop.simps [of N events p] parse_one_event_def split: prod.splits)
    qed
  qed
qed

lemma parse_eq_drain:
  assumes "nom_laws N"
  shows "parse N chunk p =
    (if utf8_valid chunk
     then (let (es, p') = sse_drain (ep_buffer p @ chunk) (ep_builder p) in Some (Ok es, p'))
     else Some (Err ''invalid utf-8'', p))"
  by (simp add: parse_def parse_loop_drain [OF assms])

lemma default_builder_not_complete [simp]: "\<not> eb_is_complete default_builder"
  by (simp add: default_builder_def)

section \<open>Properties\<close>

text \<open>C23: the combinator parser of a line is the line grammar: it returns the next line and the
  text after its end (LF, CR or CRLF) as soon as the end is certain, waits otherwise, and never
  reports a syntax error.\<close>

theorem line_is_grammar:
  assumes "nom_laws N"
  shows "line N s = (case line_spec s of None \<Rightarrow> Incomplete | Some (r, l) \<Rightarrow> IOk r l)
         \<and> line N s \<noteq> IError"
  using line_eq_spec [OF assms, of s] by (simp split: option.split)

theorem line_is_grammar_witness:
  "nom_laws nom_ref \<and> line nom_ref (''data: x'' @ [CHR 0x0D, CHR 0x0A, CHR ''y''])
     = IOk ''y'' (Field ''data'' (Some ''x''))"
proof -
  have "line_spec (''data: x'' @ [CHR 0x0D, CHR 0x0A, CHR ''y'']) = Some (''y'', Field ''data'' (Some ''x''))"
    by (simp add: line_spec_def line_end_def classify_def is_eol_def)
  then show ?thesis
    using line_is_grammar [OF nom_laws_ref, of "''data: x'' @ [CHR 0x0D, CHR 0x0A, CHR ''y'']"]
    by (simp add: nom_laws_ref)
qed



text \<open>C25: how a stream is cut into chunks does not matter, as long as each chunk is valid
  UTF-8: two chunks give the events of their concatenation and leave the same parser.\<close>

theorem parse_chunks:
  assumes "nom_laws N" and "utf8_valid a" and "utf8_valid b"
  shows "\<exists>ea pa eb pb. parse N a p = Some (Ok ea, pa) \<and> parse N b pa = Some (Ok eb, pb)
           \<and> parse N (a @ b) p = Some (Ok (ea @ eb), pb)"
  using assms(2,3) sse_drain_append [of "ep_buffer p @ a" b "ep_builder p"]
  by (auto simp: parse_eq_drain [OF assms(1)] utf8_valid_append split: prod.splits)

theorem parse_chunks_witness:
  "\<exists>ea pa eb pb. parse nom_ref ''data'' default_parser = Some (Ok ea, pa)
     \<and> parse nom_ref '': x'' pa = Some (Ok eb, pb)
     \<and> parse nom_ref (''data'' @ '': x'') default_parser = Some (Ok (ea @ eb), pb)"
  by (rule parse_chunks [OF nom_laws_ref]) (simp_all add: byte_in_def)

end
