(* ===== verification/Token_Usage.thy ===== *)
theory Token_Usage
  imports Cel_Eval Sse
begin

text \<open>
  \<^verbatim>\<open>src/kuadrant/pipeline/tasks/token_usage.rs\<close>: reading values out of a response body that
  arrives in chunks, as one JSON document or as a stream of server-sent events.  The trait
  \<^verbatim>\<open>ExtractionStrategy\<close> is the locale \<open>extraction_strategy\<close>, whose law says that the cut into
  chunks does not matter; both strategies are instances.  \<open>None\<close> of \<open>feed\<close> stands for a parser
  loop that does not end.
\<close>

record sse_strategy =
  ss_event_parser :: event_parser
  ss_last_two_events :: "event option \<times> event option"
  ss_parsed_json :: "json option"

record json_strategy =
  js_buffer :: bytes
  js_parsed_json :: "json option"

definition sse_strategy_new :: sse_strategy where
  "sse_strategy_new = \<lparr>ss_event_parser = default_parser, ss_last_two_events = (None, None), ss_parsed_json = None\<rparr>"

definition json_strategy_new :: json_strategy where
  "json_strategy_new = \<lparr>js_buffer = [], js_parsed_json = None\<rparr>"

definition push_event :: "event \<Rightarrow> sse_strategy \<Rightarrow> sse_strategy" where
  "push_event e s = s\<lparr>ss_last_two_events := (Some e, fst (ss_last_two_events s))\<rparr>"

definition sse_feed_buffer :: "nom \<Rightarrow> bytes \<Rightarrow> sse_strategy \<Rightarrow> sse_strategy option" where
  "sse_feed_buffer N bs s =
     (case parse N bs (ss_event_parser s) of
        None \<Rightarrow> None
      | Some (Ok events, p) \<Rightarrow> Some (fold push_event events (s\<lparr>ss_event_parser := p\<rparr>))
      | Some (Err _, p) \<Rightarrow> Some (s\<lparr>ss_event_parser := p\<rparr>))"

definition sse_extract_property :: "lib \<Rightarrow> string \<Rightarrow> sse_strategy \<Rightarrow> json option \<times> sse_strategy" where
  "sse_extract_property L prop s =
     (let s = (if ss_parsed_json s = None then
                 (case snd (ss_last_two_events s) of
                    Some e \<Rightarrow> (case json_from_slice L (ev_data e) of
                                 Ok j \<Rightarrow> s\<lparr>ss_parsed_json := Some j\<rparr> | Err _ \<Rightarrow> s)
                  | None \<Rightarrow> s)
               else s)
      in (Option.bind (ss_parsed_json s) (json_pointer L prop), s))"

definition json_feed_buffer :: "bytes \<Rightarrow> json_strategy \<Rightarrow> json_strategy option" where
  "json_feed_buffer bs s = Some (s\<lparr>js_buffer := js_buffer s @ bs\<rparr>)"

definition json_extract_property :: "lib \<Rightarrow> string \<Rightarrow> json_strategy \<Rightarrow> json option \<times> json_strategy" where
  "json_extract_property L prop s =
     (let s = (if js_parsed_json s = None then
                 (if utf8_valid (js_buffer s) then
                    (case json_from_slice L (js_buffer s) of
                       Ok j \<Rightarrow> s\<lparr>js_parsed_json := Some j\<rparr> | Err _ \<Rightarrow> s)
                  else s)
               else s)
      in (Option.bind (js_parsed_json s) (json_pointer L prop), s))"

datatype strategy = Sse_strategy sse_strategy | Json_strategy json_strategy

definition select_strategy :: "headers \<Rightarrow> strategy" where
  "select_strategy hs =
     (case headers_get hs ''content-type'' of
        Some ct \<Rightarrow>
          if str_contains ''text/event-stream'' ct then Sse_strategy sse_strategy_new
          else Json_strategy json_strategy_new
      | None \<Rightarrow> Json_strategy json_strategy_new)"

definition feed_buffer :: "nom \<Rightarrow> bytes \<Rightarrow> strategy \<Rightarrow> strategy option" where
  "feed_buffer N bs s =
     (case s of
        Sse_strategy st \<Rightarrow> map_option Sse_strategy (sse_feed_buffer N bs st)
      | Json_strategy st \<Rightarrow> map_option Json_strategy (json_feed_buffer bs st))"

definition extract_property :: "lib \<Rightarrow> string \<Rightarrow> strategy \<Rightarrow> json option \<times> strategy" where
  "extract_property L prop s =
     (case s of
        Sse_strategy st \<Rightarrow> apsnd Sse_strategy (sse_extract_property L prop st)
      | Json_strategy st \<Rightarrow> apsnd Json_strategy (json_extract_property L prop st))"

section \<open>The task\<close>

record token_usage_task =
  tu_strategy :: "strategy option"
  tu_expected_response_fields :: "string list"

definition with_expected_response_fields :: "string list \<Rightarrow> token_usage_task" where
  "with_expected_response_fields fields' = \<lparr>tu_strategy = None, tu_expected_response_fields = fields'\<rparr>"

datatype token_usage_outcome = TU_Done | TU_Requeued token_usage_task | TU_Failed | TU_No_return

definition set_json_value :: "string \<Rightarrow> json \<Rightarrow> 'h req_resp_ctx \<Rightarrow> 'h req_resp_ctx" where
  "set_json_value fld j ctx =
     (case j of
        JBool b \<Rightarrow> set_response_body_value fld (VBool b) ctx
      | JPosInt u \<Rightarrow> set_response_body_value fld (VUInt u) ctx
      | JNegInt i \<Rightarrow> set_response_body_value fld (VInt i) ctx
      | JFloat f \<Rightarrow> set_response_body_value fld (VFloat f) ctx
      | JString s \<Rightarrow> set_response_body_value fld (VString s) ctx
      | _ \<Rightarrow> ctx)"

fun extract_fields :: "lib \<Rightarrow> string list \<Rightarrow> strategy \<Rightarrow> 'h req_resp_ctx \<Rightarrow> 'h req_resp_ctx" where
  "extract_fields L [] s ctx = ctx"
| "extract_fields L (fld # rest) s ctx =
     (case extract_property L fld s of
        (Some j, s') \<Rightarrow> extract_fields L rest s' (set_json_value fld j ctx)
      | (None, s') \<Rightarrow> extract_fields L rest s' ctx)"

definition token_usage_finish ::
  "lib \<Rightarrow> token_usage_task \<Rightarrow> strategy \<Rightarrow> 'h req_resp_ctx \<Rightarrow> token_usage_outcome \<times> 'h req_resp_ctx"
where
  "token_usage_finish L t s ctx =
     (if is_end_of_stream ctx then (TU_Done, extract_fields L (tu_expected_response_fields t) s ctx)
      else (TU_Requeued (t\<lparr>tu_strategy := Some s\<rparr>), ctx))"

definition token_usage_feed ::
  "lib \<Rightarrow> nom \<Rightarrow> 'h hostcalls \<Rightarrow> token_usage_task \<Rightarrow> strategy \<Rightarrow> 'h req_resp_ctx
     \<Rightarrow> token_usage_outcome \<times> 'h req_resp_ctx"
where
  "token_usage_feed L N H t s ctx =
     (if response_body_size ctx > 0 then
        (case get_http_response_body H 0 (response_body_size ctx) ctx of
           Ok (Available (Some bs)) \<Rightarrow>
             (case feed_buffer N bs s of
                Some s' \<Rightarrow> token_usage_finish L t s' ctx
              | None \<Rightarrow> (TU_No_return, ctx))
         | Ok (Available None) \<Rightarrow> token_usage_finish L t s ctx
         | Ok Pending \<Rightarrow> (TU_Requeued (t\<lparr>tu_strategy := Some s\<rparr>), ctx)
         | Err _ \<Rightarrow> (TU_Failed, ctx))
      else token_usage_finish L t s ctx)"

definition token_usage_apply ::
  "lib \<Rightarrow> nom \<Rightarrow> 'h hostcalls \<Rightarrow> token_usage_task \<Rightarrow> 'h req_resp_ctx
     \<Rightarrow> token_usage_outcome \<times> 'h req_resp_ctx"
where
  "token_usage_apply L N H t ctx =
     (case tu_strategy t of
        Some s \<Rightarrow> token_usage_feed L N H (t\<lparr>tu_strategy := None\<rparr>) s ctx
      | None \<Rightarrow>
          (case get_attribute_ref H headers_from_cached (path_from ''response.headers'') ctx of
             (Ok (Available (Some hs)), ctx') \<Rightarrow>
               token_usage_feed L N H (t\<lparr>tu_strategy := None\<rparr>) (select_strategy hs) ctx'
           | (Ok (Available None), ctx') \<Rightarrow> (TU_No_return, ctx')
           | (Ok Pending, ctx') \<Rightarrow> (TU_Requeued (t\<lparr>tu_strategy := None\<rparr>), ctx')
           | (Err _, ctx') \<Rightarrow> (TU_Failed, ctx')))"

section \<open>The interface of a strategy\<close>

locale extraction_strategy =
  fixes feed :: "'c list \<Rightarrow> 's \<Rightarrow> 's option"
    and ok_chunk :: "'c list \<Rightarrow> bool"
  assumes feed_append:
      "ok_chunk a \<Longrightarrow> ok_chunk b \<Longrightarrow> Option.bind (feed a s) (feed b) = feed (a @ b) s"
    and ok_append: "ok_chunk a \<Longrightarrow> ok_chunk b \<Longrightarrow> ok_chunk (a @ b)"
begin

fun feed_all :: "'c list list \<Rightarrow> 's \<Rightarrow> 's option" where
  "feed_all [] s = Some s"
| "feed_all (c # cs) s = Option.bind (feed c s) (feed_all cs)"

lemma bind_feed_all:
  "ok_chunk c \<Longrightarrow> \<forall>x \<in> set cs. ok_chunk x \<Longrightarrow> Option.bind (feed c s) (feed_all cs) = feed (c @ concat cs) s"
proof (induction cs arbitrary: c s)
  case Nil
  then show ?case by (cases "feed c s") auto
next
  case (Cons d cs)
  have "Option.bind (feed c s) (feed_all (d # cs)) = Option.bind (Option.bind (feed c s) (feed d)) (feed_all cs)"
    by (cases "feed c s") auto
  also have "\<dots> = Option.bind (feed (c @ d) s) (feed_all cs)"
    using Cons.prems by (simp add: feed_append)
  also have "\<dots> = feed ((c @ d) @ concat cs) s"
    using Cons.prems by (intro Cons.IH) (auto simp: ok_append)
  finally show ?case by (simp del: feed_all.simps)
qed

lemma chunking: "cs \<noteq> [] \<Longrightarrow> \<forall>x \<in> set cs. ok_chunk x \<Longrightarrow> feed_all cs s = feed (concat cs) s"
  by (cases cs) (auto simp: bind_feed_all)

end

lemma sse_feed_ok:
  assumes "nom_laws N" and "utf8_valid bs"
  shows "\<exists>es p. parse N bs (ss_event_parser s) = Some (Ok es, p)
    \<and> sse_feed_buffer N bs s = Some (fold push_event es (s\<lparr>ss_event_parser := p\<rparr>))"
proof -
  obtain es p where "sse_drain (ep_buffer (ss_event_parser s) @ bs) (ep_builder (ss_event_parser s)) = (es, p)"
    by force
  with assms have "parse N bs (ss_event_parser s) = Some (Ok es, p)" by (simp add: parse_eq_drain)
  then show ?thesis by (auto simp: sse_feed_buffer_def)
qed

lemma push_event_parser: "push_event e (s\<lparr>ss_event_parser := p\<rparr>) = (push_event e s)\<lparr>ss_event_parser := p\<rparr>"
  by (simp add: push_event_def)

lemma push_events_parser:
  "fold push_event es (s\<lparr>ss_event_parser := p\<rparr>) = (fold push_event es s)\<lparr>ss_event_parser := p\<rparr>"
  by (induction es arbitrary: s) (simp_all add: push_event_parser)

lemma ss_event_parser_push [simp]: "ss_event_parser (fold push_event es s) = ss_event_parser s"
  by (induction es arbitrary: s) (simp_all add: push_event_def)

interpretation sse: extraction_strategy "sse_feed_buffer N" "\<lambda>bs. nom_laws N \<and> utf8_valid bs" for N
proof
  fix a b s
  assume a: "nom_laws N \<and> utf8_valid a" and b: "nom_laws N \<and> utf8_valid b"
  have drain: "parse N bs p = Some (let (es, p') = sse_drain (ep_buffer p @ bs) (ep_builder p) in (Ok es, p'))"
    if "utf8_valid bs" for bs p
    using that a by (simp add: parse_eq_drain Let_def split: prod.split)
  show "Option.bind (sse_feed_buffer N a s) (sse_feed_buffer N b) = sse_feed_buffer N (a @ b) s"
    using a b sse_drain_append [of "ep_buffer (ss_event_parser s) @ a" b "ep_builder (ss_event_parser s)"]
    by (simp add: sse_feed_buffer_def drain utf8_valid_append push_events_parser split: prod.splits)
qed (auto simp: utf8_valid_append)

interpretation json: extraction_strategy json_feed_buffer "\<lambda>_. True"
  by unfold_locales (simp_all add: json_feed_buffer_def)


section \<open>Facts\<close>

lemma set_json_value_control: "same_control ctx (set_json_value f j ctx)"
  by (auto simp: set_json_value_def set_response_body_value_def split: json.splits)

lemma extract_fields_control: "same_control ctx (extract_fields L fs s ctx)"
proof (induction L fs s ctx rule: extract_fields.induct)
  case (2 L fld rest s ctx)
  then show ?case
    by (auto split: prod.splits option.splits intro: same_control_trans [OF set_json_value_control])
qed simp

lemma token_usage_finish_control: "token_usage_finish L t s ctx = (r, ctx') \<Longrightarrow> same_control ctx ctx'"
  by (auto simp: token_usage_finish_def extract_fields_control split: if_splits)

lemma token_usage_feed_control: "token_usage_feed L N H t s ctx = (r, ctx') \<Longrightarrow> same_control ctx ctx'"
  by (auto simp: token_usage_feed_def split: if_splits result.splits attribute_state.splits option.splits
      dest: token_usage_finish_control)

lemma token_usage_control:
  assumes "token_usage_apply L N H t ctx = (r, ctx')"
  shows "same_control ctx ctx'"
proof (cases "tu_strategy t")
  case None
  obtain r1 ctx1 where g: "get_attribute_ref H headers_from_cached (path_from ''response.headers'') ctx = (r1, ctx1)"
    by force
  then have "same_control ctx ctx1" by (rule get_attribute_ref_control)
  moreover have "same_control ctx1 ctx'"
    using assms None g by (auto simp: token_usage_apply_def dest: token_usage_feed_control
        split: result.splits attribute_state.splits option.splits)
  ultimately show ?thesis by (rule same_control_trans)
next
  case (Some s)
  with assms show ?thesis by (auto simp: token_usage_apply_def dest: token_usage_feed_control)
qed

lemma push_events_last_two:
  "ss_last_two_events (fold push_event (es @ [e1, e2]) s) = (Some e2, Some e1)"
  by (simp add: push_event_def)

lemma push_events_json: "ss_parsed_json (fold push_event es s) = ss_parsed_json s"
  by (induction es arbitrary: s) (simp_all add: push_event_def)

section \<open>Properties\<close>

text \<open>C27: however a JSON response is cut into chunks, what is extracted from it is what the JSON
  pointer finds in the parsed whole body; a body that is not valid UTF-8 or not JSON yields
  nothing.\<close>

theorem json_chunks_extract:
  assumes "cs \<noteq> []"
  shows "\<exists>s. json.feed_all cs json_strategy_new = Some s
    \<and> fst (json_extract_property L prop s) =
        (if utf8_valid (concat cs) then
           (case json_from_slice L (concat cs) of Ok j \<Rightarrow> json_pointer L prop j | Err _ \<Rightarrow> None)
         else None)"
  using json.chunking [OF assms, of json_strategy_new]
  by (auto simp: json_feed_buffer_def json_strategy_new_def json_extract_property_def Let_def
      split: result.split)

lemma demo_no_json: "json_from_slice (demo_lib EUnspecified) x = Err []"
  by (simp add: demo_lib_def)

theorem json_chunks_extract_witness:
  "\<exists>s. json.feed_all [''{}'', '' ''] json_strategy_new = Some s
    \<and> fst (json_extract_property (demo_lib EUnspecified) ''/x'' s) = None"
  using json_chunks_extract [of "[''{}'', '' '']" "demo_lib EUnspecified" "''/x''"]
  by (simp only: demo_no_json result.case if_cancel) simp


definition demo_stream :: string where
  "demo_stream = ''data:1'' @ [CHR 0x0A, CHR 0x0A] @ ''data:2'' @ [CHR 0x0A, CHR 0x0A]"

definition demo_event :: "string \<Rightarrow> event" where
  "demo_event d = \<lparr>ev_event = ''message'', ev_data = d, ev_id = [], ev_retry = None\<rparr>"

lemma demo_drain: "\<exists>p. sse_drain demo_stream default_builder = ([demo_event ''1'', demo_event ''2''], p)"
  by (simp add: demo_stream_def demo_event_def sse_drain.simps line_spec_def line_end_def classify_def is_eol_def
      builder_add_def builder_dispatch_def default_builder_def default_event_def is_lf_def Let_def)


end
