(* ===== verification/Tasks.thy ===== *)
theory Tasks
  imports Services Token_Usage
begin

text \<open>
  \<^verbatim>\<open>src/kuadrant/pipeline/tasks/\<close> with the actions of \<^verbatim>\<open>blueprint.rs\<close> that tasks are made of.
  Trait objects and the closures of pending tasks are constructors of \<open>task\<close> and
  \<open>response_processor\<close>.  An outcome \<open>No_return\<close> is a call that does not come back (a panic of
  an \<^verbatim>\<open>expect\<close>, or an endless loop).  Tracing spans are not modelled, the task that enters them
  is.
\<close>

section \<open>Actions\<close>

datatype headers_type = Http_request_headers | Http_response_headers

datatype action =
  Action (act_id: string) (act_predicate: predicate) (act_terminal: bool) (act_operation: operation)
    (act_dependencies: "string list") (act_sources: "string list") (act_is_guard: bool)
and operation =
    Op_Grpc service_instance string expression "action list"
  | Op_Deny expression
  | Op_Headers headers_type expression
  | Op_Store string expression bool
  | Op_Fail string

section \<open>Tasks\<close>

datatype header_operation = Append_op headers | Set_op headers | Remove_op "string list"

datatype headers_mode = Headers_concrete header_operation | Headers_deferred expression

record modify_headers_task =
  mh_predicate :: "predicate option"
  mh_mode :: headers_mode
  mh_target :: headers_type
  mh_terminal :: bool

definition modify_headers_new :: "header_operation \<Rightarrow> headers_type \<Rightarrow> modify_headers_task" where
  [simp]: "modify_headers_new op target =
     \<lparr>mh_predicate = None, mh_mode = Headers_concrete op, mh_target = target, mh_terminal = False\<rparr>"

definition modify_headers_new_deferred ::
  "predicate \<Rightarrow> expression \<Rightarrow> headers_type \<Rightarrow> bool \<Rightarrow> modify_headers_task"
where
  [simp]: "modify_headers_new_deferred pr headers_expr target terminal =
     \<lparr>mh_predicate = Some pr, mh_mode = Headers_deferred headers_expr, mh_target = target, mh_terminal = terminal\<rparr>"

record send_reply_task =
  sr_predicate :: "predicate option"
  sr_deny_with :: expression
  sr_terminal :: bool

definition send_reply_new_deferred :: "predicate \<Rightarrow> expression \<Rightarrow> bool \<Rightarrow> send_reply_task" where
  [simp]: "send_reply_new_deferred pr deny_with terminal =
     \<lparr>sr_predicate = Some pr, sr_deny_with = deny_with, sr_terminal = terminal\<rparr>"

datatype store_mode = Store_concrete cel_value | Store_deferred expression

record store_task =
  st_predicate :: "predicate option"
  st_mode :: store_mode
  st_path :: string
  st_export_to_host :: bool
  st_terminal :: bool

definition store_new :: "string \<Rightarrow> cel_value \<Rightarrow> bool \<Rightarrow> store_task" where
  [simp]: "store_new path val export_to_host =
     \<lparr>st_predicate = None, st_mode = Store_concrete val, st_path = path,
      st_export_to_host = export_to_host, st_terminal = False\<rparr>"

definition store_new_deferred :: "predicate \<Rightarrow> expression \<Rightarrow> string \<Rightarrow> bool \<Rightarrow> bool \<Rightarrow> store_task" where
  [simp]: "store_new_deferred pr e path export_to_host terminal =
     \<lparr>st_predicate = Some pr, st_mode = Store_deferred e, st_path = path,
      st_export_to_host = export_to_host, st_terminal = terminal\<rparr>"

record dynamic_task =
  dt_task_id :: string
  dt_service :: dynamic_service
  dt_name :: string
  dt_message_builder :: expression
  dt_on_reply :: "action list"
  dt_predicates :: "predicate list"
  dt_dependencies :: "string list"
  dt_is_guard :: bool

datatype response_processor =
    Process_dynamic dynamic_service string string "action list" bool
  | Noop_processor bool

datatype task =
    Dynamic dynamic_task
  | Modify_headers modify_headers_task
  | Send_reply send_reply_task
  | Store store_task
  | Token_usage token_usage_task
  | Failure_mode task bool
  | Tracing_decorator task bool string "string list"
  | Pending_task string response_processor bool
  | Noop_terminal

datatype task_outcome =
    Done
  | Deferred u32 task
  | Requeued "task list"
  | Failed
  | Terminate task
  | No_return

fun task_id :: "task \<Rightarrow> string option" where
  "task_id (Dynamic d) = Some (dt_task_id d)"
| "task_id (Failure_mode t _) = task_id t"
| "task_id (Tracing_decorator t _ _ _) = task_id t"
| "task_id (Pending_task i _ _) = Some i"
| "task_id _ = None"

fun task_dependencies :: "task \<Rightarrow> string list" where
  "task_dependencies (Dynamic d) = dt_dependencies d"
| "task_dependencies (Failure_mode t _) = task_dependencies t"
| "task_dependencies (Tracing_decorator t _ _ _) = task_dependencies t"
| "task_dependencies _ = []"

text \<open>Only \<^verbatim>\<open>DynamicTask\<close> and \<^verbatim>\<open>PendingTask\<close> override \<^verbatim>\<open>is_guard\<close>; the wrappers do not forward it.\<close>

fun task_is_guard :: "task \<Rightarrow> bool" where
  "task_is_guard (Dynamic d) = dt_is_guard d"
| "task_is_guard (Pending_task _ _ g) = g"
| "task_is_guard _ = False"

section \<open>Predicates of tasks\<close>

datatype gate = Gate_open | Gate_done | Gate_requeue | Gate_failed

definition predicate_gate ::
  "lib \<Rightarrow> 'h hostcalls \<Rightarrow> predicate option \<Rightarrow> 'h req_resp_ctx \<Rightarrow> gate \<times> 'h req_resp_ctx"
where
  "predicate_gate L H p ctx =
     (case p of
        None \<Rightarrow> (Gate_open, ctx)
      | Some pr \<Rightarrow>
          (case predicate_test L H pr ctx of
             (Ok (Available True), ctx') \<Rightarrow> (Gate_open, ctx')
           | (Ok (Available False), ctx') \<Rightarrow> (Gate_done, ctx')
           | (Ok Pending, ctx') \<Rightarrow> (Gate_requeue, ctx')
           | (Err _, ctx') \<Rightarrow> (Gate_failed, ctx')))"

definition with_gate ::
  "gate \<times> 'h req_resp_ctx \<Rightarrow> task \<Rightarrow> ('h req_resp_ctx \<Rightarrow> task_outcome \<times> 'h req_resp_ctx)
     \<Rightarrow> task_outcome \<times> 'h req_resp_ctx"
where
  "with_gate g self body =
     (case g of
        (Gate_open, ctx) \<Rightarrow> body ctx
      | (Gate_done, ctx) \<Rightarrow> (Done, ctx)
      | (Gate_requeue, ctx) \<Rightarrow> (Requeued [self], ctx)
      | (Gate_failed, ctx) \<Rightarrow> (Failed, ctx))"

section \<open>SendReplyTask\<close>

fun show_nat :: "nat \<Rightarrow> string" where
  "show_nat n = (if n < 10 then [char_of (n + 48)] else show_nat (n div 10) @ [char_of (n mod 10 + 48)])"

declare show_nat.simps [simp del]

abbreviation triple_quote :: string where "triple_quote \<equiv> [CHR 0x27, CHR 0x27, CHR 0x27]"

definition triple_quoted :: "string \<Rightarrow> string" where
  "triple_quoted s = triple_quote @ s @ triple_quote"

definition deny_response_text :: "u32 \<Rightarrow> (string \<times> string) list \<Rightarrow> string option \<Rightarrow> string" where
  "deny_response_text status_code hs body =
     (let header_list = join '', '' (map (\<lambda>(h, v). ''['' @ triple_quoted h @ '', '' @ triple_quoted v @ '']'') hs);
          body_field = (case body of Some b \<Rightarrow> ''body: '' @ triple_quoted b | None \<Rightarrow> [])
      in ''DenyResponse { status: '' @ show_nat (unat status_code) @ ''u, headers: ['' @ header_list @ ''], ''
         @ body_field @ '' }'')"

text \<open>\<open>None\<close>: the text is not valid CEL and the \<^verbatim>\<open>expect\<close> panics.\<close>

definition send_reply_new ::
  "lib \<Rightarrow> u32 \<Rightarrow> (string \<times> string) list \<Rightarrow> string option \<Rightarrow> send_reply_task option"
where
  "send_reply_new L status_code hs body =
     (case expression_new L (deny_response_text status_code hs body) of
        Ok e \<Rightarrow> Some \<lparr>sr_predicate = None, sr_deny_with = e, sr_terminal = False\<rparr>
      | Err _ \<Rightarrow> None)"

definition send_reply_default :: "lib \<Rightarrow> send_reply_task option" where
  "send_reply_default L = send_reply_new L 500 [] (Some (''Internal Server Error.'' @ [CHR 0x0A]))"

definition terminate_default :: "lib \<Rightarrow> task_outcome" where
  "terminate_default L =
     (case send_reply_default L of Some t \<Rightarrow> Terminate (Send_reply t) | None \<Rightarrow> No_return)"

definition deny_status :: "(string \<times> cel_value) list \<Rightarrow> u32 option" where
  "deny_status fs = (case map_of fs ''status'' of Some (VUInt u) \<Rightarrow> Some (ucast u) | _ \<Rightarrow> None)"

definition deny_body :: "(string \<times> cel_value) list \<Rightarrow> string option" where
  "deny_body fs = (case map_of fs ''body'' of Some (VString s) \<Rightarrow> if s = [] then None else Some s | _ \<Rightarrow> None)"

definition deny_headers :: "(string \<times> cel_value) list \<Rightarrow> (string \<times> string) list" where
  "deny_headers fs = (case map_of fs ''headers'' of Some v \<Rightarrow> cel_value_to_header_pairs v | None \<Rightarrow> [])"

definition send_reply_try_from :: "lib \<Rightarrow> cel_value \<Rightarrow> (send_reply_task option, string) result" where
  "send_reply_try_from L v =
     (case v of
        VStruct _ fs \<Rightarrow>
          (case deny_status fs of
             None \<Rightarrow> Err ''DenyResponse missing or invalid 'status' field''
           | Some status \<Rightarrow> Ok (send_reply_new L status (deny_headers fs) (deny_body fs)))
      | _ \<Rightarrow> Err ''expected DenyResponse struct'')"

definition send_reply_body ::
  "lib \<Rightarrow> 'h hostcalls \<Rightarrow> send_reply_task \<Rightarrow> 'h req_resp_ctx \<Rightarrow> task_outcome \<times> 'h req_resp_ctx"
where
  "send_reply_body L H t ctx =
     (let env = [(''DenyResponse'', deny_response_struct_def)] in
      case expression_eval L H (sr_deny_with t) ctx (cel_context_default\<lparr>cc_env := Some env\<rparr>) of
        (Ok Pending, ctx, _) \<Rightarrow> (Failed, ctx)
      | (Ok (Available (VStruct _ fs)), ctx, _) \<Rightarrow>
          (let status_code = (case deny_status fs of Some s \<Rightarrow> s | None \<Rightarrow> 500) in
           case public_tracker H ctx of
             (tr, ctx) \<Rightarrow>
               let hs = deny_headers fs @ (case tr of Some kv \<Rightarrow> [kv] | None \<Rightarrow> []);
                   ctx = set_host (metric_increment H ''kuadrant.denied'' (ctx_host ctx)) ctx
               in (case ctx_send_http_reply H status_code hs (deny_body fs) ctx of
                     (Ok _, ctx) \<Rightarrow> (if sr_terminal t then Terminate Noop_terminal else Done, ctx)
                   | (Err _, ctx) \<Rightarrow> (Failed, ctx)))
      | (Ok (Available _), ctx, _) \<Rightarrow> (Failed, ctx)
      | (Err _, ctx, _) \<Rightarrow> (Failed, ctx))"

definition send_reply_apply ::
  "lib \<Rightarrow> 'h hostcalls \<Rightarrow> send_reply_task \<Rightarrow> 'h req_resp_ctx \<Rightarrow> task_outcome \<times> 'h req_resp_ctx"
where
  "send_reply_apply L H t ctx =
     with_gate (predicate_gate L H (sr_predicate t) ctx) (Send_reply t) (send_reply_body L H t)"

section \<open>ModifyHeadersTask\<close>

definition headers_path :: "headers_type \<Rightarrow> path" where
  "headers_path t =
     (case t of
        Http_request_headers \<Rightarrow> Path [''request'', ''headers'']
      | Http_response_headers \<Rightarrow> Path [''response'', ''headers''])"

definition apply_operation :: "header_operation \<Rightarrow> headers \<Rightarrow> headers" where
  "apply_operation op existing =
     (case op of
        Append_op hs \<Rightarrow> headers_extend hs existing
      | Set_op hs \<Rightarrow> fold (\<lambda>(k, v). headers_set k v) hs existing
      | Remove_op keys \<Rightarrow> fold headers_remove keys existing)"

definition modify_headers_run ::
  "lib \<Rightarrow> 'h hostcalls \<Rightarrow> modify_headers_task \<Rightarrow> header_operation \<Rightarrow> 'h req_resp_ctx
     \<Rightarrow> task_outcome \<times> 'h req_resp_ctx"
where
  "modify_headers_run L H t op ctx =
     (let p = headers_path (mh_target t) in
      case get_attribute_ref H headers_from_cached p ctx of
        (Ok (Available (Some existing)), ctx) \<Rightarrow>
          (case set_attribute_map H p (apply_operation op existing) ctx of
             (Ok (Available _), ctx) \<Rightarrow> (if mh_terminal t then terminate_default L else Done, ctx)
           | (Ok Pending, ctx) \<Rightarrow> (Requeued [Modify_headers t], ctx)
           | (Err _, ctx) \<Rightarrow> (Failed, ctx))
      | (Ok (Available None), ctx) \<Rightarrow> (Failed, ctx)
      | (Ok Pending, ctx) \<Rightarrow> (Requeued [Modify_headers t], ctx)
      | (Err _, ctx) \<Rightarrow> (Failed, ctx))"

definition modify_headers_body ::
  "lib \<Rightarrow> 'h hostcalls \<Rightarrow> modify_headers_task \<Rightarrow> 'h req_resp_ctx \<Rightarrow> task_outcome \<times> 'h req_resp_ctx"
where
  "modify_headers_body L H t ctx =
     (case mh_mode t of
        Headers_concrete op \<Rightarrow> modify_headers_run L H t op ctx
      | Headers_deferred headers_expr \<Rightarrow>
          (case expression_eval L H headers_expr ctx cel_context_default of
             (Ok Pending, ctx, _) \<Rightarrow> (Failed, ctx)
           | (Ok (Available v), ctx, _) \<Rightarrow>
               (let pairs = cel_value_to_header_pairs v in
                if pairs = [] then (Done, ctx) else modify_headers_run L H t (Set_op pairs) ctx)
           | (Err _, ctx, _) \<Rightarrow> (Failed, ctx)))"

definition modify_headers_apply ::
  "lib \<Rightarrow> 'h hostcalls \<Rightarrow> modify_headers_task \<Rightarrow> 'h req_resp_ctx \<Rightarrow> task_outcome \<times> 'h req_resp_ctx"
where
  "modify_headers_apply L H t ctx =
     with_gate (predicate_gate L H (mh_predicate t) ctx) (Modify_headers t) (modify_headers_body L H t)"

section \<open>StoreTask\<close>

definition store_run ::
  "lib \<Rightarrow> 'h hostcalls \<Rightarrow> store_task \<Rightarrow> cel_value \<Rightarrow> 'h req_resp_ctx \<Rightarrow> task_outcome \<times> 'h req_resp_ctx"
where
  "store_run L H t v ctx =
     (let finish = (\<lambda>ctx. (if st_terminal t then terminate_default L else Done, store_value (st_path t) v ctx)) in
      if st_export_to_host t then
        (case cel_value_to_bytes L v of
           Ok bs \<Rightarrow>
             (case set_attribute H (st_path t) bs ctx of
                (Err _, ctx) \<Rightarrow> (Failed, ctx)
              | (Ok _, ctx) \<Rightarrow> finish ctx)
         | Err _ \<Rightarrow> (Failed, ctx))
      else finish ctx)"

definition store_body ::
  "lib \<Rightarrow> 'h hostcalls \<Rightarrow> store_task \<Rightarrow> 'h req_resp_ctx \<Rightarrow> task_outcome \<times> 'h req_resp_ctx"
where
  "store_body L H t ctx =
     (case st_mode t of
        Store_concrete v \<Rightarrow> store_run L H t v ctx
      | Store_deferred e \<Rightarrow>
          (case expression_eval L H e ctx cel_context_default of
             (Ok Pending, ctx, _) \<Rightarrow> (Failed, ctx)
           | (Ok (Available v), ctx, _) \<Rightarrow> store_run L H t v ctx
           | (Err _, ctx, _) \<Rightarrow> (Failed, ctx)))"

definition store_apply ::
  "lib \<Rightarrow> 'h hostcalls \<Rightarrow> store_task \<Rightarrow> 'h req_resp_ctx \<Rightarrow> task_outcome \<times> 'h req_resp_ctx"
where
  "store_apply L H t ctx =
     with_gate (predicate_gate L H (st_predicate t) ctx) (Store t) (store_body L H t)"

section \<open>DynamicTask\<close>

definition warm_operation ::
  "lib \<Rightarrow> 'h hostcalls \<Rightarrow> operation \<Rightarrow> 'h req_resp_ctx \<Rightarrow> cel_context \<Rightarrow> 'h req_resp_ctx \<times> cel_context"
where
  "warm_operation L H op ctx c =
     (case op of
        Op_Grpc _ _ message_builder nested_on_reply \<Rightarrow>
          fold (\<lambda>a (ctx, c). snd (test_with_ctx L H (act_predicate a) ctx c)) nested_on_reply
            (snd (expression_eval L H message_builder ctx c))
      | Op_Deny deny_with \<Rightarrow> snd (expression_eval L H deny_with ctx c)
      | Op_Headers _ hs \<Rightarrow> snd (expression_eval L H hs ctx c)
      | Op_Store _ e _ \<Rightarrow> snd (expression_eval L H e ctx c)
      | Op_Fail _ \<Rightarrow> (ctx, c))"

definition warm_actions ::
  "lib \<Rightarrow> 'h hostcalls \<Rightarrow> action list \<Rightarrow> 'h req_resp_ctx \<Rightarrow> cel_context \<Rightarrow> 'h req_resp_ctx \<times> cel_context"
where
  "warm_actions L H as ctx c =
     fold (\<lambda>a (ctx, c). case snd (test_with_ctx L H (act_predicate a) ctx c) of
             (ctx, c) \<Rightarrow> warm_operation L H (act_operation a) ctx c) as (ctx, c)"

definition new_with_attributes ::
  "lib \<Rightarrow> 'h hostcalls \<Rightarrow> dynamic_task \<Rightarrow> 'h req_resp_ctx \<Rightarrow> dynamic_task \<times> 'h req_resp_ctx"
where
  "new_with_attributes L H t ctx =
     (let ctx = snd (predicates_apply L H (dt_predicates t) ctx) in
      case service_cel_env (dt_service t) ctx of
        (Ok env, ctx) \<Rightarrow>
          (case snd (expression_eval L H (dt_message_builder t) ctx (cel_context_default\<lparr>cc_env := Some env\<rparr>)) of
             (ctx, c) \<Rightarrow> (t, fst (warm_actions L H (dt_on_reply t) ctx c)))
      | (Err _, ctx) \<Rightarrow> (t, ctx))"

definition requeue_or_fail :: "dynamic_task \<Rightarrow> 'h req_resp_ctx \<Rightarrow> task_outcome" where
  "requeue_or_fail t ctx = (if is_end_of_stream ctx then Failed else Requeued [Dynamic t])"

definition dynamic_dispatch ::
  "lib \<Rightarrow> 'h hostcalls \<Rightarrow> dynamic_task \<Rightarrow> 'h req_resp_ctx \<Rightarrow> task_outcome \<times> 'h req_resp_ctx"
where
  "dynamic_dispatch L H t ctx =
     (case service_cel_env (dt_service t) ctx of
        (Err _, ctx) \<Rightarrow> (Failed, ctx)
      | (Ok env, ctx) \<Rightarrow>
          (case expression_eval L H (dt_message_builder t) ctx (cel_context_default\<lparr>cc_env := Some env\<rparr>) of
             (Ok Pending, ctx, _) \<Rightarrow> (requeue_or_fail t ctx, ctx)
           | (Err _, ctx, _) \<Rightarrow> (Failed, ctx)
           | (Ok (Available v), ctx, _) \<Rightarrow>
               (case dispatch_value L H (dt_service t) v ctx of
                  (Err _, ctx) \<Rightarrow> (Failed, ctx)
                | (Ok token_id, ctx) \<Rightarrow>
                    (Deferred token_id
                       (Pending_task (dt_task_id t)
                          (Process_dynamic (dt_service t) (dt_task_id t) (dt_name t) (dt_on_reply t) (dt_is_guard t))
                          (dt_is_guard t)),
                     if dt_is_guard t then ctx\<lparr>barrier := barrier_raise (barrier ctx)\<rparr> else ctx))))"

definition dynamic_apply ::
  "lib \<Rightarrow> 'h hostcalls \<Rightarrow> dynamic_task \<Rightarrow> 'h req_resp_ctx \<Rightarrow> task_outcome \<times> 'h req_resp_ctx"
where
  "dynamic_apply L H t ctx =
     (case predicates_apply L H (dt_predicates t) ctx of
        (Ok Pending, ctx) \<Rightarrow> (requeue_or_fail t ctx, ctx)
      | (Ok (Available False), ctx) \<Rightarrow> (Done, ctx)
      | (Ok (Available True), ctx) \<Rightarrow> dynamic_dispatch L H t ctx
      | (Err _, ctx) \<Rightarrow> (Failed, ctx))"

section \<open>Responses\<close>

definition service_of :: "service_instance \<Rightarrow> dynamic_service option" where
  "service_of si =
     (case si of
        SI_Dynamic s \<Rightarrow> Some s | SI_Auth s \<Rightarrow> Some s | SI_RateLimit s \<Rightarrow> Some s
      | SI_RateLimitCheck s \<Rightarrow> Some s | SI_RateLimitReport s \<Rightarrow> Some s | SI_Tracing _ \<Rightarrow> None)"

text \<open>What one \<^verbatim>\<open>onReply\<close> action leads to: the end of the loop with an outcome, or more tasks.\<close>

datatype reply_step = Reply_end task_outcome | Reply_tasks "task list"

definition reply_operation ::
  "lib \<Rightarrow> 'h hostcalls \<Rightarrow> action \<Rightarrow> 'h req_resp_ctx \<Rightarrow> cel_context
     \<Rightarrow> reply_step \<times> 'h req_resp_ctx \<times> cel_context"
where
  "reply_operation L H a ctx c =
     (case act_operation a of
        Op_Deny deny_with \<Rightarrow>
          (case expression_eval L H deny_with ctx c of
             (Ok (Available (VStruct n fs)), ctx, c) \<Rightarrow>
               (case send_reply_try_from L (VStruct n fs) of
                  Ok (Some t) \<Rightarrow>
                    (if act_terminal a then Reply_end (Terminate (Send_reply t)) else Reply_tasks [Send_reply t], ctx, c)
                | Ok None \<Rightarrow> (Reply_end No_return, ctx, c)
                | Err _ \<Rightarrow> (Reply_end Failed, ctx, c))
           | (_, ctx, c) \<Rightarrow> (Reply_end Failed, ctx, c))
      | Op_Headers target hs \<Rightarrow>
          (case expression_eval L H hs ctx c of
             (Ok (Available v), ctx, c) \<Rightarrow>
               (let pairs = cel_value_to_header_pairs v in
                (Reply_tasks (if pairs = [] then [] else
                   [Modify_headers (modify_headers_new (Set_op pairs) target)]), ctx, c))
           | (_, ctx, c) \<Rightarrow> (Reply_end Failed, ctx, c))
      | Op_Store p e export_to_host \<Rightarrow>
          (case expression_eval L H e ctx c of
             (Ok (Available v), ctx, c) \<Rightarrow>
               (Reply_tasks [Store (store_new p v export_to_host)], ctx, c)
           | (_, ctx, c) \<Rightarrow> (Reply_end Failed, ctx, c))
      | Op_Fail _ \<Rightarrow> (Reply_end Failed, ctx, c)
      | Op_Grpc si var message_builder nested_on_reply \<Rightarrow>
          (case service_of si of
             Some s \<Rightarrow>
               (case new_with_attributes L H
                       \<lparr>dt_task_id = act_id a, dt_service = s, dt_name = var,
                        dt_message_builder = message_builder, dt_on_reply = nested_on_reply,
                        dt_predicates = [act_predicate a], dt_dependencies = act_dependencies a,
                        dt_is_guard = act_is_guard a\<rparr> ctx of
                  (t, ctx) \<Rightarrow>
                    (if act_terminal a then Reply_end (Terminate (Dynamic t)) else Reply_tasks [Dynamic t], ctx, c))
           | None \<Rightarrow> (Reply_end Failed, ctx, c)))"

fun reply_loop ::
  "lib \<Rightarrow> 'h hostcalls \<Rightarrow> action list \<Rightarrow> task list \<Rightarrow> 'h req_resp_ctx \<Rightarrow> cel_context
     \<Rightarrow> task_outcome \<times> 'h req_resp_ctx"
where
  "reply_loop L H [] tasks ctx c = (if tasks = [] then Done else Requeued tasks, ctx)"
| "reply_loop L H (a # as) tasks ctx c =
     (case test_with_ctx L H (act_predicate a) ctx c of
        (Ok (Available False), ctx, c) \<Rightarrow> reply_loop L H as tasks ctx c
      | (Err _, ctx, c) \<Rightarrow> (Failed, ctx)
      | (_, ctx, c) \<Rightarrow>
          (case reply_operation L H a ctx c of
             (Reply_end outcome, ctx, c) \<Rightarrow> (outcome, ctx)
           | (Reply_tasks ts, ctx, c) \<Rightarrow> reply_loop L H as (tasks @ ts) ctx c))"

definition process_dynamic_response ::
  "lib \<Rightarrow> 'h hostcalls \<Rightarrow> dynamic_service \<Rightarrow> string \<Rightarrow> string \<Rightarrow> action list \<Rightarrow> 'h req_resp_ctx
     \<Rightarrow> task_outcome \<times> 'h req_resp_ctx"
where
  "process_dynamic_response L H s tid name on_reply ctx =
     (case get_grpc_response_data ctx of
        (Err _, ctx) \<Rightarrow> (Failed, ctx)
      | (Ok (status_code, response_size), ctx) \<Rightarrow>
          if status_code \<noteq> 0 then (Failed, ctx)
          else if on_reply = [] then (Done, ctx)
          else (case response_cel_context L H s response_size name ctx of
                  (Err _, ctx) \<Rightarrow> (Failed, ctx)
                | (Ok c, ctx) \<Rightarrow> reply_loop L H on_reply [] ctx c))"

definition lower_barrier :: "'h req_resp_ctx \<Rightarrow> 'h req_resp_ctx" where
  "lower_barrier ctx = ctx\<lparr>barrier := barrier_lower (barrier ctx)\<rparr>"

text \<open>A closure that panics does not lower the barrier.\<close>

definition processor_apply ::
  "lib \<Rightarrow> 'h hostcalls \<Rightarrow> response_processor \<Rightarrow> 'h req_resp_ctx \<Rightarrow> task_outcome \<times> 'h req_resp_ctx"
where
  "processor_apply L H p ctx =
     (case p of
        Process_dynamic s tid name on_reply is_guard \<Rightarrow>
          (case process_dynamic_response L H s tid name on_reply ctx of
             (No_return, ctx) \<Rightarrow> (No_return, ctx)
           | (outcome, ctx) \<Rightarrow> (outcome, if is_guard then lower_barrier ctx else ctx))
      | Noop_processor is_guard \<Rightarrow>
          (Done, snd (get_grpc_response_data (if is_guard then lower_barrier ctx else ctx))))"

section \<open>Applying a task\<close>

definition lift_token_usage :: "token_usage_outcome \<times> 'h req_resp_ctx \<Rightarrow> task_outcome \<times> 'h req_resp_ctx" where
  "lift_token_usage r =
     (case r of
        (TU_Done, ctx) \<Rightarrow> (Done, ctx)
      | (TU_Requeued t, ctx) \<Rightarrow> (Requeued [Token_usage t], ctx)
      | (TU_Failed, ctx) \<Rightarrow> (Failed, ctx)
      | (TU_No_return, ctx) \<Rightarrow> (No_return, ctx))"

text \<open>What \<^verbatim>\<open>FailureModeTask\<close> makes of the outcome of the task it wraps.\<close>

definition failure_mode_outcome ::
  "lib \<Rightarrow> 'h hostcalls \<Rightarrow> bool \<Rightarrow> task_outcome \<times> 'h req_resp_ctx \<Rightarrow> task_outcome \<times> 'h req_resp_ctx"
where
  [simp]: "failure_mode_outcome L H abort r =
     (case r of
        (Failed, ctx) \<Rightarrow>
          (let ctx = set_host (metric_increment H ''kuadrant.errors'' (ctx_host ctx)) ctx in
           (if abort then terminate_default L else Done, ctx))
      | (Deferred token_id pending, ctx) \<Rightarrow> (Deferred token_id (Failure_mode pending abort), ctx)
      | (outcome, ctx) \<Rightarrow> (outcome, ctx))"

text \<open>What \<^verbatim>\<open>TracingDecoratorTask\<close> makes of it; the tasks that come out share its span.\<close>

definition tracing_decorator_outcome ::
  "string \<Rightarrow> string list \<Rightarrow> task_outcome \<times> 'h req_resp_ctx \<Rightarrow> task_outcome \<times> 'h req_resp_ctx"
where
  [simp]: "tracing_decorator_outcome span_name sources r =
     (case r of
        (Deferred token_id pending, ctx) \<Rightarrow>
          (Deferred token_id (Tracing_decorator pending True span_name sources), ctx)
      | (Requeued tasks, ctx) \<Rightarrow>
          (Requeued (map (\<lambda>task. Tracing_decorator task True span_name sources) tasks), ctx)
      | (Terminate task, ctx) \<Rightarrow> (Terminate (Tracing_decorator task True span_name sources), ctx)
      | (outcome, ctx) \<Rightarrow> (outcome, ctx))"

fun task_apply ::
  "lib \<Rightarrow> nom \<Rightarrow> 'h hostcalls \<Rightarrow> task \<Rightarrow> 'h req_resp_ctx \<Rightarrow> task_outcome \<times> 'h req_resp_ctx"
where
  "task_apply L N H (Dynamic t) ctx = dynamic_apply L H t ctx"
| "task_apply L N H (Modify_headers t) ctx = modify_headers_apply L H t ctx"
| "task_apply L N H (Send_reply t) ctx = send_reply_apply L H t ctx"
| "task_apply L N H (Store t) ctx = store_apply L H t ctx"
| "task_apply L N H (Token_usage t) ctx = lift_token_usage (token_usage_apply L N H t ctx)"
| "task_apply L N H (Pending_task _ p _) ctx = processor_apply L H p ctx"
| "task_apply L N H Noop_terminal ctx = (Done, ctx)"
| "task_apply L N H (Failure_mode t abort) ctx = failure_mode_outcome L H abort (task_apply L N H t ctx)"
| "task_apply L N H (Tracing_decorator t span span_name sources) ctx =
     tracing_decorator_outcome span_name sources (task_apply L N H t ctx)"

section \<open>Teardown\<close>

datatype teardown_action = Export_traces tracing_service

datatype teardown_outcome = Teardown_done | Teardown_deferred u32

definition export_traces_new ::
  "'h hostcalls \<Rightarrow> tracing_service \<Rightarrow> 'h req_resp_ctx \<Rightarrow> teardown_action \<times> 'h req_resp_ctx"
where
  "export_traces_new H s ctx = (Export_traces s, enter_request_span H ctx)"

definition teardown_execute ::
  "lib \<Rightarrow> 'h hostcalls \<Rightarrow> teardown_action \<Rightarrow> 'h req_resp_ctx \<Rightarrow> teardown_outcome \<times> 'h req_resp_ctx"
where
  "teardown_execute L H a ctx =
     (case a of
        Export_traces s \<Rightarrow>
          (let ctx = end_request_span H ctx in
           case take_pending_spans (w_spans (backend ctx)) of
             (spans, sp) \<Rightarrow>
               let ctx = ctx\<lparr>backend := (backend ctx)\<lparr>w_spans := sp\<rparr>\<rparr> in
               if spans = [] then (Teardown_done, ctx)
               else (case dispatch_export L H s spans ctx of
                       (Ok token_id, ctx) \<Rightarrow> (Teardown_deferred token_id, ctx)
                     | (Err _, ctx) \<Rightarrow> (Teardown_done, ctx))))"

end
