(* ===== verification/Task_Effects.thy ===== *)
theory Task_Effects
  imports Tasks
begin

text \<open>
  What applying a task does to the state that controls a pipeline: the barrier, the slot for a
  gRPC response and the calls the host has in flight.
\<close>

section \<open>The host's call tokens\<close>

text \<open>
  The proxy hands out a token per dispatched call and does not reuse one whose answer is
  outstanding; it never has all \<open>2 ^ 32\<close> tokens out.  \<open>in_flight\<close> reads the outstanding tokens
  off the host state; no other host call of the module changes them.
\<close>

definition tracks_calls :: "'h hostcalls \<Rightarrow> ('h \<Rightarrow> u32 set) \<Rightarrow> bool" where
  "tracks_calls H in_flight =
     ((\<forall>u s m hs msg t h token h'. hc_dispatch_grpc_call H u s m hs msg t h = (Ok token, h') \<longrightarrow>
         in_flight h' = insert token (in_flight h))
      \<and> (\<forall>u s m hs msg t h e h'. hc_dispatch_grpc_call H u s m hs msg t h = (Err e, h') \<longrightarrow>
           in_flight h' = in_flight h)
      \<and> (\<forall>p v h r h'. hc_set_property H p v h = (r, h') \<longrightarrow> in_flight h' = in_flight h)
      \<and> (\<forall>mt m h r h'. hc_set_map H mt m h = (r, h') \<longrightarrow> in_flight h' = in_flight h)
      \<and> (\<forall>st hs b h r h'. hc_send_http_response H st hs b h = (r, h') \<longrightarrow> in_flight h' = in_flight h)
      \<and> (\<forall>i n h. in_flight (hc_increment_metric H i n h) = in_flight h)
      \<and> (\<forall>c h. in_flight (hc_enter_span H c h) = in_flight h)
      \<and> (\<forall>h r h'. hc_exit_span H h = (r, h') \<longrightarrow> in_flight h' = in_flight h)
      \<and> (\<forall>period h r h'. hc_set_tick_period H period h = (r, h') \<longrightarrow> in_flight h' = in_flight h)
      \<and> (\<forall>h. in_flight (hc_resume_http_request H h) = in_flight h)
      \<and> (\<forall>h. in_flight (hc_resume_http_response H h) = in_flight h))"

definition fresh_tokens :: "'h hostcalls \<Rightarrow> ('h \<Rightarrow> u32 set) \<Rightarrow> bool" where
  "fresh_tokens H in_flight =
     (\<forall>u s m hs msg t h token h'. hc_dispatch_grpc_call H u s m hs msg t h = (Ok token, h') \<longrightarrow>
        token \<notin> in_flight h \<and> card (in_flight h) + 1 < 2 ^ 32)"

definition token_laws :: "'h hostcalls \<Rightarrow> ('h \<Rightarrow> u32 set) \<Rightarrow> bool" where
  "token_laws H in_flight = (tracks_calls H in_flight \<and> fresh_tokens H in_flight)"

lemma fresh_tokensD:
  "fresh_tokens H out \<Longrightarrow> hc_dispatch_grpc_call H u s m hs msg t h = (Ok token, h')
     \<Longrightarrow> token \<notin> out h \<and> card (out h) + 1 < 2 ^ 32"
  unfolding fresh_tokens_def by blast

definition quiet :: "('h \<Rightarrow> u32 set) \<Rightarrow> 'h req_resp_ctx \<Rightarrow> 'h req_resp_ctx \<Rightarrow> bool" where
  "quiet out ctx ctx' = (same_control ctx ctx' \<and> out (ctx_host ctx') = out (ctx_host ctx))"

lemma quiet_refl [simp, intro]: "quiet out ctx ctx" by (simp add: quiet_def)

lemma quiet_trans [trans]: "quiet out a b \<Longrightarrow> quiet out b c \<Longrightarrow> quiet out a c"
  by (auto simp: quiet_def intro: same_control_trans)

lemma quiet_reads: "reads_only ctx ctx' \<Longrightarrow> quiet out ctx ctx'"
  by (simp add: quiet_def reads_only_control reads_only_fields)

lemma quiet_backend: "same_control ctx ctx' \<Longrightarrow> ctx_host ctx' = ctx_host ctx \<Longrightarrow> quiet out ctx ctx'"
  by (simp add: quiet_def)

lemma quiet_store_value [simp]: "quiet out ctx (store_value p v ctx') = quiet out ctx ctx'"
  by (simp add: quiet_def store_value_def)

lemma tracks_callsD:
  assumes "tracks_calls H out"
  shows "hc_set_property H p v h = (r1, h') \<Longrightarrow> out h' = out h"
    "hc_set_map H mt m h = (r2, h') \<Longrightarrow> out h' = out h"
    "hc_send_http_response H st hs b h = (r3, h') \<Longrightarrow> out h' = out h"
    "out (hc_increment_metric H i n h) = out h"
    "out (hc_enter_span H c h) = out h"
    "hc_exit_span H h = (r4, h') \<Longrightarrow> out h' = out h"
    "hc_dispatch_grpc_call H u s mth hs' msg t h = (Ok token, h')
       \<Longrightarrow> out h' = insert token (out h)"
    "hc_dispatch_grpc_call H u s mth hs' msg t h = (Err e, h') \<Longrightarrow> out h' = out h"
    "hc_set_tick_period H period h = (r5, h') \<Longrightarrow> out h' = out h"
    "out (hc_resume_http_request H h) = out h"
    "out (hc_resume_http_response H h) = out h"
  using assms unfolding tracks_calls_def by (auto 0 3)

lemma metric_quiet:
  assumes "tracks_calls H out"
  shows "quiet out ctx (set_host (metric_increment H n (ctx_host ctx)) ctx)"
  using tracks_callsD(4) [OF assms]
  by (simp add: quiet_def set_host_def metric_increment_def counter_inc_by_def split: counter.split option.split)

lemma get_attribute_ref_quiet: "get_attribute_ref H conv p ctx = (r, ctx') \<Longrightarrow> quiet out ctx ctx'"
  by (rule quiet_reads) (rule get_attribute_ref_reads)

lemma request_id_quiet: "request_id H ctx = (i, ctx') \<Longrightarrow> quiet out ctx ctx'"
  by (rule quiet_backend)
     (auto simp: request_id_control request_id_def get_attribute_def Let_def reads_only_fields
       split: option.splits prod.splits dest!: get_attribute_ref_reads)

lemma public_tracker_quiet: "public_tracker H ctx = (i, ctx') \<Longrightarrow> quiet out ctx ctx'"
  by (auto simp: public_tracker_def split: option.splits prod.splits dest: request_id_quiet)

lemma host_set_tokens:
  assumes "tracks_calls H out"
  shows "host_set_attribute H p v h = (r, h') \<Longrightarrow> out h' = out h"
    "host_set_attribute_map H mt m h = (r, h') \<Longrightarrow> out h' = out h"
  by (auto simp: host_set_attribute_def host_set_attribute_map_def
      split: prod.splits result.splits status.splits dest: tracks_callsD(1,2) [OF assms])

lemma store_attribute_tokens:
  assumes "tracks_calls H out"
  shows "store_attribute_bytes H p bs ctx = (r, ctx') \<Longrightarrow> out (ctx_host ctx') = out (ctx_host ctx)"
    "store_attribute_headers H p hs ctx = (r, ctx') \<Longrightarrow> out (ctx_host ctx') = out (ctx_host ctx)"
  by (auto simp: store_attribute_bytes_def store_attribute_headers_def Let_def set_host_def
      split: prod.splits result.splits attribute_error.splits if_splits dest: host_set_tokens [OF assms])

lemma set_attribute_quiet:
  assumes "tracks_calls H out"
  shows "set_attribute H p bs ctx = (r, ctx') \<Longrightarrow> quiet out ctx ctx'"
    "set_attribute_map H q hs ctx = (r, ctx') \<Longrightarrow> quiet out ctx ctx'"
  by (auto simp: quiet_def set_attribute_def set_attribute_map_def split: prod.splits
      dest: store_attribute_control store_attribute_tokens [OF assms])

lemma send_http_reply_quiet:
  assumes "tracks_calls H out" and "ctx_send_http_reply H st hs b ctx = (r, ctx')"
  shows "quiet out ctx ctx'"
proof -
  have "out (ctx_host ctx') = out (ctx_host ctx)"
    using assms by (auto simp: ctx_send_http_reply_def host_send_http_reply_def set_host_def
        split: prod.splits result.splits dest: tracks_callsD(3))
  with assms(2) show ?thesis by (simp add: quiet_def ctx_send_http_reply_control)
qed

lemma service_cel_env_quiet: "service_cel_env s ctx = (r, ctx') \<Longrightarrow> quiet out ctx ctx'"
  by (rule quiet_backend)
     (auto simp: service_cel_env_control service_cel_env_def split: option.splits result.splits prod.splits)

lemma response_cel_context_quiet: "response_cel_context L H s n x ctx = (r, ctx') \<Longrightarrow> quiet out ctx ctx'"
  by (auto simp: response_cel_context_def split: result.splits prod.splits dest: service_cel_env_quiet)

lemma eval_quiet:
  "expression_eval L H e ctx c = (r1, ctx', c') \<Longrightarrow> quiet out ctx ctx'"
  "test_with_ctx L H p ctx c = (r2, ctx', c') \<Longrightarrow> quiet out ctx ctx'"
  "predicate_test L H p ctx = (r2, ctx') \<Longrightarrow> quiet out ctx ctx'"
  "predicates_apply L H ps ctx = (r2, ctx') \<Longrightarrow> quiet out ctx ctx'"
  by (auto intro: quiet_reads dest: eval_reads)

text \<open>A dispatched call is in flight under a token no other call has.\<close>

lemma ctx_dispatch_tokens:
  assumes "tracks_calls H out" and "ctx_dispatch_grpc_call L H u s m msg t ctx = (r, ctx')"
  shows "case r of Ok token \<Rightarrow> out (ctx_host ctx') = insert token (out (ctx_host ctx))
       \<and> (fresh_tokens H out \<longrightarrow> token \<notin> out (ctx_host ctx) \<and> card (out (ctx_host ctx)) + 1 < 2 ^ 32)
     | Err _ \<Rightarrow> out (ctx_host ctx') = out (ctx_host ctx)"
proof -
  obtain i ctx1 where i: "request_id H ctx = (i, ctx1)" by force
  then have "quiet out ctx ctx1" by (rule request_id_quiet)
  then have "out (ctx_host ctx1) = out (ctx_host ctx)" by (simp add: quiet_def)
  with assms i show ?thesis
    by (auto simp: ctx_dispatch_grpc_call_def host_dispatch_grpc_call_def set_host_def Let_def
        split: prod.splits result.splits dest: tracks_callsD(7,8) dest!: fresh_tokensD)
qed

lemma dispatch_value_tokens:
  assumes "tracks_calls H out" and "dispatch_value L H s v ctx = (r, ctx')"
  shows "case r of Ok token \<Rightarrow> out (ctx_host ctx') = insert token (out (ctx_host ctx))
       \<and> (fresh_tokens H out \<longrightarrow> token \<notin> out (ctx_host ctx) \<and> card (out (ctx_host ctx)) + 1 < 2 ^ 32)
     | Err _ \<Rightarrow> out (ctx_host ctx') = out (ctx_host ctx)"
  using assms(2) ctx_dispatch_tokens [OF assms(1)]
  by (force simp: dispatch_value_def split: result.splits prod.splits)

section \<open>Tasks that wait for an answer\<close>

fun is_pending :: "task \<Rightarrow> bool" where
  "is_pending (Failure_mode t _) = is_pending t"
| "is_pending (Tracing_decorator t _ _ _) = is_pending t"
| "is_pending (Pending_task _ _ _) = True"
| "is_pending _ = False"

text \<open>Whether the answer to a pending task lowers the barrier.\<close>

fun lowers_barrier :: "task \<Rightarrow> bool" where
  "lowers_barrier (Failure_mode t _) = lowers_barrier t"
| "lowers_barrier (Tracing_decorator t _ _ _) = lowers_barrier t"
| "lowers_barrier (Pending_task _ (Process_dynamic _ _ _ _ g) _) = g"
| "lowers_barrier (Pending_task _ (Noop_processor g) _) = g"
| "lowers_barrier _ = False"

lemma not_pending_lowers: "\<not> is_pending t \<Longrightarrow> \<not> lowers_barrier t"
  by (induction t rule: is_pending.induct) auto

text \<open>The effect of a task that is not waiting: a call that is dispatched leaves behind a task
  that waits for its token and raises the barrier if that task lowers it; every other outcome
  leaves the barrier, the slot and the calls in flight alone.\<close>

definition run_effect ::
  "'h hostcalls \<Rightarrow> ('h \<Rightarrow> u32 set) \<Rightarrow> task \<Rightarrow> 'h req_resp_ctx \<Rightarrow> task_outcome \<Rightarrow> 'h req_resp_ctx \<Rightarrow> bool"
where
  "run_effect H out t ctx outcome ctx' =
     (case outcome of
        Deferred token p \<Rightarrow>
          is_pending p \<and> task_id p = task_id t \<and> task_id t \<noteq> None
          \<and> same_control ctx (ctx'\<lparr>barrier := barrier ctx\<rparr>)
          \<and> barrier ctx' = (if lowers_barrier p then barrier_raise (barrier ctx) else barrier ctx)
          \<and> out (ctx_host ctx') = insert token (out (ctx_host ctx))
          \<and> (fresh_tokens H out \<longrightarrow> token \<notin> out (ctx_host ctx) \<and> card (out (ctx_host ctx)) + 1 < 2 ^ 32)
      | Requeued ts \<Rightarrow> (\<forall>x \<in> set ts. \<not> is_pending x) \<and> quiet out ctx ctx'
      | Terminate x \<Rightarrow> \<not> is_pending x \<and> quiet out ctx ctx'
      | _ \<Rightarrow> quiet out ctx ctx')"

text \<open>The effect of handling the answer to a task that waits: the slot is taken, the barrier is
  lowered if the task is a guard, and no call is dispatched.\<close>

definition answer_outcome :: "task_outcome \<Rightarrow> bool" where
  "answer_outcome outcome =
     (case outcome of
        Deferred _ _ \<Rightarrow> False
      | Requeued ts \<Rightarrow> \<forall>x \<in> set ts. \<not> is_pending x
      | Terminate x \<Rightarrow> \<not> is_pending x
      | _ \<Rightarrow> True)"

definition answer_effect ::
  "('h \<Rightarrow> u32 set) \<Rightarrow> task \<Rightarrow> 'h req_resp_ctx \<Rightarrow> task_outcome \<Rightarrow> 'h req_resp_ctx \<Rightarrow> bool"
where
  "answer_effect out t ctx outcome ctx' =
     (grpc_response_data ctx' = None
      \<and> out (ctx_host ctx') = out (ctx_host ctx)
      \<and> w_descriptors (backend ctx') = w_descriptors (backend ctx)
      \<and> w_filters (backend ctx') = w_filters (backend ctx)
      \<and> (outcome \<noteq> No_return \<longrightarrow>
           barrier ctx' = (if lowers_barrier t then barrier_lower (barrier ctx) else barrier ctx))
      \<and> answer_outcome outcome)"

lemma terminate_default_cases:
  "terminate_default L = No_return \<or> (\<exists>t. terminate_default L = Terminate (Send_reply t))"
  by (simp add: terminate_default_def split: option.split)

lemma with_gate_effect:
  assumes "with_gate (predicate_gate L H p ctx) self body = (r, ctx')" and "\<not> is_pending self"
    and "\<And>ctx1. quiet out ctx ctx1 \<Longrightarrow> body ctx1 = (r, ctx') \<Longrightarrow> run_effect H out self ctx r ctx'"
  shows "run_effect H out self ctx r ctx'"
proof -
  obtain g ctx1 where g: "predicate_gate L H p ctx = (g, ctx1)" by force
  then have q: "quiet out ctx ctx1"
    by (auto simp: predicate_gate_def split: option.splits prod.splits result.splits
        attribute_state.splits bool.splits dest: eval_quiet)
  show ?thesis
  proof (cases g)
    case Gate_open
    with assms g q show ?thesis by (simp add: with_gate_def)
  qed (use assms g q in \<open>auto simp: with_gate_def run_effect_def\<close>)
qed

lemma run_effect_quiet:
  "quiet out ctx ctx' \<Longrightarrow> run_effect H out t ctx Done ctx'"
  "quiet out ctx ctx' \<Longrightarrow> run_effect H out t ctx Failed ctx'"
  "quiet out ctx ctx' \<Longrightarrow> run_effect H out t ctx No_return ctx'"
  "quiet out ctx ctx' \<Longrightarrow> run_effect H out t ctx (terminate_default L) ctx'"
  "quiet out ctx ctx' \<Longrightarrow> \<not> is_pending x \<Longrightarrow> run_effect H out t ctx (Requeued [x]) ctx'"
  "quiet out ctx ctx' \<Longrightarrow> \<not> is_pending x \<Longrightarrow> run_effect H out t ctx (Terminate x) ctx'"
  using terminate_default_cases [of L] by (auto simp: run_effect_def)

lemma store_effect:
  assumes T: "tracks_calls H out" and "store_apply L H t ctx = (r, ctx')"
  shows "run_effect H out (Store t) ctx r ctx'"
  using assms(2) unfolding store_apply_def
proof (rule with_gate_effect)
  fix ctx1
  assume q: "quiet out ctx ctx1" and b: "store_body L H t ctx1 = (r, ctx')"
  have run: "run_effect H out (Store t) ctx r ctx'" if "store_run L H t v ctx2 = (r, ctx')" "quiet out ctx ctx2" for v ctx2
    using that by (auto simp: store_run_def Let_def split: if_splits result.splits prod.splits
        intro!: run_effect_quiet dest!: set_attribute_quiet [OF T] intro: quiet_trans)
  show "run_effect H out (Store t) ctx r ctx'"
    using b q run by (auto simp: store_body_def split: store_mode.splits prod.splits result.splits
        attribute_state.splits intro!: run_effect_quiet dest!: eval_quiet [where out = out] intro: quiet_trans)
qed simp

lemma modify_headers_effect:
  assumes T: "tracks_calls H out" and "modify_headers_apply L H t ctx = (r, ctx')"
  shows "run_effect H out (Modify_headers t) ctx r ctx'"
  using assms(2) unfolding modify_headers_apply_def
proof (rule with_gate_effect)
  fix ctx1
  assume q: "quiet out ctx ctx1" and b: "modify_headers_body L H t ctx1 = (r, ctx')"
  have run: "run_effect H out (Modify_headers t) ctx r ctx'"
    if "modify_headers_run L H t op ctx2 = (r, ctx')" "quiet out ctx ctx2" for op ctx2
    using that by (auto simp: modify_headers_run_def Let_def split: if_splits result.splits prod.splits
        attribute_state.splits option.splits intro!: run_effect_quiet
        dest!: set_attribute_quiet [OF T] get_attribute_ref_quiet [where out = out] intro: quiet_trans)
  show "run_effect H out (Modify_headers t) ctx r ctx'"
    using b q run by (auto simp: modify_headers_body_def Let_def split: headers_mode.splits prod.splits
        result.splits attribute_state.splits if_splits intro!: run_effect_quiet
        dest!: eval_quiet [where out = out] intro: quiet_trans)
qed simp

lemma send_reply_effect:
  assumes T: "tracks_calls H out" and "send_reply_apply L H t ctx = (r, ctx')"
  shows "run_effect H out (Send_reply t) ctx r ctx'"
  using assms(2) unfolding send_reply_apply_def
proof (rule with_gate_effect)
  fix ctx1
  let ?c = "cel_context_default\<lparr>cc_env := Some [(''DenyResponse'', deny_response_struct_def)]\<rparr>"
  assume q: "quiet out ctx ctx1" and b: "send_reply_body L H t ctx1 = (r, ctx')"
  obtain v ctx2 c where e: "expression_eval L H (sr_deny_with t) ctx1 ?c = (v, ctx2, c)"
    by (metis prod_cases3)
  obtain tr ctx3 where p: "public_tracker H ctx2 = (tr, ctx3)" by force
  let ?ctx4 = "set_host (metric_increment H ''kuadrant.denied'' (ctx_host ctx3)) ctx3"
  have q2: "quiet out ctx ctx2" using q eval_quiet(1) [OF e] by (rule quiet_trans)
  have q4: "quiet out ctx ?ctx4"
    using q2 public_tracker_quiet [OF p] metric_quiet [OF T] by (blast intro: quiet_trans)
  have sent: "quiet out ctx ctx5" if "ctx_send_http_reply H st hs bd ?ctx4 = (x, ctx5)" for st hs bd x ctx5
    using q4 send_http_reply_quiet [OF T that] by (rule quiet_trans)
  show "run_effect H out (Send_reply t) ctx r ctx'"
    using b e p q2 sent by (auto simp: send_reply_body_def Let_def split: result.splits attribute_state.splits
        cel_value.splits prod.splits if_splits intro!: run_effect_quiet)
qed simp

lemma extract_fields_backend: "backend (extract_fields L fs s ctx) = backend ctx"
proof (induction L fs s ctx rule: extract_fields.induct)
  case (2 L fld rest s ctx)
  have "backend (set_json_value fld j c) = backend c" for j and c :: "'a req_resp_ctx"
    by (simp add: set_json_value_def set_response_body_value_def split: json.splits)
  with 2 show ?case by (auto split: prod.splits option.splits)
qed simp

lemma token_usage_quiet:
  assumes "token_usage_apply L N H t ctx = (r, ctx')"
  shows "quiet out ctx ctx'"
proof -
  have feed: "backend c' = backend c" if "token_usage_feed L N H x s c = (u, c')" for x s u and c c' :: "'a req_resp_ctx"
    using that by (auto simp: token_usage_feed_def token_usage_finish_def extract_fields_backend
        split: if_splits result.splits attribute_state.splits option.splits)
  have "backend ctx' = backend ctx"
    using assms by (auto simp: token_usage_apply_def reads_only_fields split: option.splits prod.splits
        result.splits attribute_state.splits dest!: feed get_attribute_ref_reads)
  with token_usage_control [OF assms] show ?thesis by (simp add: quiet_backend)
qed

lemma token_usage_effect:
  "lift_token_usage (token_usage_apply L N H t ctx) = (r, ctx') \<Longrightarrow> run_effect H out (Token_usage t) ctx r ctx'"
  by (auto simp: lift_token_usage_def split: prod.splits token_usage_outcome.splits
      intro!: run_effect_quiet dest: token_usage_quiet [where out = out])

lemma dynamic_dispatch_effect:
  assumes T: "tracks_calls H out" and d: "dynamic_dispatch L H t ctx1 = (r, ctx')" and q: "quiet out ctx ctx1"
  shows "run_effect H out (Dynamic t) ctx r ctx'"
proof -
  obtain env ctx2 where e: "service_cel_env (dt_service t) ctx1 = (env, ctx2)" by force
  have q2: "quiet out ctx ctx2" using q service_cel_env_quiet [OF e] by (rule quiet_trans)
  show ?thesis
  proof (cases env)
    case (Ok ev)
    obtain v ctx3 c where v: "expression_eval L H (dt_message_builder t) ctx2
        (cel_context_default\<lparr>cc_env := Some ev\<rparr>) = (v, ctx3, c)" by (metis prod_cases3)
    have q3: "quiet out ctx ctx3" using q2 eval_quiet(1) [OF v] by (rule quiet_trans)
    have fails: "quiet out ctx ctx4" if "dispatch_value L H (dt_service t) x ctx3 = (Err er, ctx4)" for x er ctx4
      using q3 dispatch_value_tokens [OF T that] dispatch_value_control [OF that]
      by (auto simp: quiet_def intro: same_control_trans)
    have sent: "run_effect H out (Dynamic t) ctx (Deferred token (Pending_task (dt_task_id t) (Process_dynamic s i n rs g) g))
        (if g then ctx4\<lparr>barrier := barrier_raise (barrier ctx4)\<rparr> else ctx4)"
      if "dispatch_value L H (dt_service t) x ctx3 = (Ok token, ctx4)" for x token ctx4 s i n rs g
      using q3 dispatch_value_tokens [OF T that] dispatch_value_control [OF that]
      by (auto simp: run_effect_def quiet_def same_control_def)
    show ?thesis
      using d e Ok v q3 fails sent [where g = True] sent [where g = False]
      by (auto simp: dynamic_dispatch_def requeue_or_fail_def split: result.splits attribute_state.splits
          prod.splits if_splits intro!: run_effect_quiet)
  qed (use d e q2 in \<open>auto simp: dynamic_dispatch_def intro!: run_effect_quiet\<close>)
qed

lemma dynamic_effect:
  assumes T: "tracks_calls H out" and d: "dynamic_apply L H t ctx = (r, ctx')"
  shows "run_effect H out (Dynamic t) ctx r ctx'"
  using d by (auto simp: dynamic_apply_def requeue_or_fail_def split: prod.splits result.splits
      attribute_state.splits bool.splits if_splits dest!: eval_quiet(4) [where out = out]
      dynamic_dispatch_effect [OF T] intro!: run_effect_quiet)

lemma run_effect_task:
  assumes T: "tracks_calls H out"
  shows "\<not> is_pending t \<Longrightarrow> task_apply L N H t ctx = (r, ctx') \<Longrightarrow> run_effect H out t ctx r ctx'"
proof (induction t arbitrary: r ctx')
  case (Failure_mode t ab)
  obtain r1 ctx1 where a: "task_apply L N H t ctx = (r1, ctx1)" by force
  with Failure_mode have e: "run_effect H out t ctx r1 ctx1" by simp
  have "quiet out ctx (set_host (metric_increment H ''kuadrant.errors'' (ctx_host ctx1)) ctx1)" if "r1 = Failed"
    using e that metric_quiet [OF T] by (auto simp: run_effect_def intro: quiet_trans)
  then show ?case
    using Failure_mode.prems(2) a e
    by (cases r1) (auto simp: Let_def split: if_splits intro!: run_effect_quiet, auto simp: run_effect_def)
next
  case (Tracing_decorator t sp nm src)
  obtain r1 ctx1 where a: "task_apply L N H t ctx = (r1, ctx1)" by force
  with Tracing_decorator have e: "run_effect H out t ctx r1 ctx1" by simp
  then show ?case using Tracing_decorator.prems(2) a by (cases r1) (auto simp: run_effect_def)
qed (auto simp: dynamic_effect [OF T] modify_headers_effect [OF T] send_reply_effect [OF T]
    store_effect [OF T] token_usage_effect run_effect_quiet)

section \<open>Handling an answer\<close>

lemma snd_eval_quiet:
  "quiet out ctx (fst (snd (expression_eval L H e ctx c)))"
  "quiet out ctx (fst (snd (test_with_ctx L H p ctx c)))"
  by (metis eval_quiet(1,2) prod.collapse)+

lemma warm_operation_quiet: "quiet out ctx (fst (warm_operation L H op ctx c))"
proof -
  have "quiet out ctx1 (fst (fold (\<lambda>a (ctx, c). snd (test_with_ctx L H (act_predicate a) ctx c)) as (ctx1, c1)))" for as ctx1 c1
  proof (induction as arbitrary: ctx1 c1)
    case (Cons a as)
    obtain ctx2 c2 where t: "snd (test_with_ctx L H (act_predicate a) ctx1 c1) = (ctx2, c2)" by force
    have "quiet out ctx1 ctx2" using snd_eval_quiet(2) [of out ctx1 L H "act_predicate a" c1] t by simp
    with Cons t show ?case by (auto intro: quiet_trans)
  qed simp
  note each = this
  have nested: "quiet out ctx (fst (fold (\<lambda>a (ctx, c). snd (test_with_ctx L H (act_predicate a) ctx c)) as
      (snd (expression_eval L H e ctx c))))" for as e
  proof -
    obtain ctx1 c1 where x: "snd (expression_eval L H e ctx c) = (ctx1, c1)" by force
    have "quiet out ctx ctx1" using snd_eval_quiet(1) [of out ctx L H e c] x by simp
    from quiet_trans [OF this each] show ?thesis unfolding x .
  qed
  show ?thesis
  proof (cases op)
    case (Op_Grpc si var mb as)
    then show ?thesis using nested by (simp add: warm_operation_def)
  qed (simp_all add: warm_operation_def snd_eval_quiet)
qed

lemma warm_actions_quiet: "quiet out ctx (fst (warm_actions L H as ctx c))"
  unfolding warm_actions_def
proof (induction as arbitrary: ctx c)
  case (Cons a as)
  obtain ctx1 c1 where t: "snd (test_with_ctx L H (act_predicate a) ctx c) = (ctx1, c1)" by force
  obtain ctx2 c2 where w: "warm_operation L H (act_operation a) ctx1 c1 = (ctx2, c2)" by force
  have "quiet out ctx ctx1" using snd_eval_quiet(2) [of out ctx L H "act_predicate a" c] t by simp
  moreover have "quiet out ctx1 ctx2" using warm_operation_quiet [of out ctx1 L H "act_operation a" c1] w by simp
  ultimately show ?case using Cons t w by (auto intro: quiet_trans)
qed simp

lemma new_with_attributes_quiet:
  assumes "new_with_attributes L H t ctx = (t', ctx')"
  shows "t' = t \<and> quiet out ctx ctx'"
proof -
  obtain r ctx1 where p: "predicates_apply L H (dt_predicates t) ctx = (r, ctx1)" by force
  obtain env ctx2 where e: "service_cel_env (dt_service t) ctx1 = (env, ctx2)" by force
  have q: "quiet out ctx ctx2" using eval_quiet(4) [OF p] service_cel_env_quiet [OF e] by (rule quiet_trans)
  show ?thesis
  proof (cases env)
    case (Ok ev)
    obtain ctx3 c where x: "snd (expression_eval L H (dt_message_builder t) ctx2
        (cel_context_default\<lparr>cc_env := Some ev\<rparr>)) = (ctx3, c)" by force
    have "quiet out ctx2 ctx3" using snd_eval_quiet(1) [of out ctx2 L H] x by (metis fst_conv)
    moreover have "ctx' = fst (warm_actions L H (dt_on_reply t) ctx3 c)" "t' = t"
      using assms p e Ok x by (auto simp: new_with_attributes_def Let_def)
    ultimately show ?thesis using q warm_actions_quiet by (blast intro: quiet_trans)
  qed (use assms p e q in \<open>auto simp: new_with_attributes_def Let_def\<close>)
qed

definition reply_step_ok :: "reply_step \<Rightarrow> bool" where
  "reply_step_ok s =
     (case s of Reply_end r \<Rightarrow> answer_outcome r | Reply_tasks ts \<Rightarrow> \<forall>t \<in> set ts. \<not> is_pending t)"

lemma reply_operation_effect:
  assumes "reply_operation L H a ctx c = (s, ctx', c')"
  shows "quiet out ctx ctx' \<and> reply_step_ok s"
  using assms
  by (auto simp: reply_operation_def reply_step_ok_def answer_outcome_def Let_def
      split: operation.splits prod.splits result.splits
      attribute_state.splits cel_value.splits option.splits if_splits
      dest!: eval_quiet(1) [where out = out] new_with_attributes_quiet [where out = out])

lemma reply_loop_effect:
  "reply_loop L H as ts ctx c = (r, ctx') \<Longrightarrow> \<forall>t \<in> set ts. \<not> is_pending t \<Longrightarrow>
     quiet out ctx ctx' \<and> answer_outcome r"
proof (induction as arbitrary: ts ctx c)
  case (Cons a as)
  obtain b ctx1 c1 where t: "test_with_ctx L H (act_predicate a) ctx c = (b, ctx1, c1)" by (metis prod_cases3)
  have q1: "quiet out ctx ctx1" using t by (rule eval_quiet)
  obtain s ctx2 c2 where o: "reply_operation L H a ctx1 c1 = (s, ctx2, c2)" by (metis prod_cases3)
  from reply_operation_effect [OF o] have q2: "quiet out ctx ctx2" and s: "reply_step_ok s"
    using q1 by (blast intro: quiet_trans)+
  have rest: "quiet out ctx ctx' \<and> answer_outcome r"
    if "reply_loop L H as ts' ctxk ck = (r, ctx')" "\<forall>t \<in> set ts'. \<not> is_pending t" "quiet out ctx ctxk" for ts' ctxk ck
    using Cons.IH [OF that(1,2)] that(3) by (blast intro: quiet_trans)
  have skip: "reply_loop L H (a # as) ts ctx c = reply_loop L H as ts ctx1 c1" if "b = Ok (Available False)"
    using t that by simp
  have err: "reply_loop L H (a # as) ts ctx c = (Failed, ctx1)" if "b = Err e" for e
    using t that by simp
  have run: "reply_loop L H (a # as) ts ctx c =
      (case s of Reply_end x \<Rightarrow> (x, ctx2) | Reply_tasks xs \<Rightarrow> reply_loop L H as (ts @ xs) ctx2 c2)"
    if "b = Ok (Available True) \<or> b = Ok Pending"
    using t that o by auto
  consider e where "b = Err e" | "b = Ok (Available False)" | "b = Ok (Available True) \<or> b = Ok Pending"
    by (metis (full_types) attribute_state.exhaust result.exhaust)
  then show ?case
  proof cases
    case 3
    show ?thesis
    proof (cases s)
      case (Reply_tasks xs)
      with s Cons.prems run [OF 3] rest [of "ts @ xs" ctx2 c2] q2 show ?thesis by (auto simp: reply_step_ok_def)
    qed (use Cons.prems(1) run [OF 3] q2 s in \<open>auto simp: reply_step_ok_def\<close>)
  qed (use Cons.prems err skip rest q1 in \<open>auto simp: answer_outcome_def\<close>)
qed (auto split: if_splits simp: answer_outcome_def)

lemma get_grpc_response_slot:
  "get_grpc_response_data ctx = (r, ctx') \<Longrightarrow>
     grpc_response_data ctx' = None \<and> barrier ctx' = barrier ctx \<and> backend ctx' = backend ctx"
  by (auto simp: get_grpc_response_data_def)

lemma process_response_effect:
  fixes ctx :: "'h req_resp_ctx" and out :: "'h \<Rightarrow> u32 set"
  assumes "process_dynamic_response L H s tid n as ctx = (r, ctx')"
  shows "grpc_response_data ctx' = None \<and> barrier ctx' = barrier ctx
    \<and> out (ctx_host ctx') = out (ctx_host ctx) \<and> w_descriptors (backend ctx') = w_descriptors (backend ctx)
    \<and> w_filters (backend ctx') = w_filters (backend ctx) \<and> answer_outcome r"
proof -
  obtain d ctx1 where g: "get_grpc_response_data ctx = (d, ctx1)" by force
  have "quiet out ctx1 ctx' \<and> answer_outcome r"
    using assms g by (auto simp: process_dynamic_response_def split: result.splits prod.splits if_splits
        simp: answer_outcome_def [of Done] answer_outcome_def [of Failed]
        dest!: response_cel_context_quiet [where out = out] reply_loop_effect [where out = out]
        intro: quiet_trans)
  with get_grpc_response_slot [OF g] show ?thesis by (auto simp: quiet_def same_control_def)
qed

lemma processor_effect:
  assumes "processor_apply L H p ctx = (r, ctx')"
  shows "answer_effect out (Pending_task i p g) ctx r ctx'"
proof (cases p)
  case (Process_dynamic s tid n as gd)
  obtain r1 ctx1 where a: "process_dynamic_response L H s tid n as ctx = (r1, ctx1)" by force
  have c: "r = r1 \<and> ctx' = (if r1 \<noteq> No_return \<and> gd then lower_barrier ctx1 else ctx1)"
    using assms Process_dynamic a by (cases r1) (auto simp: processor_apply_def)
  have "backend (lower_barrier ctx1) = backend ctx1" by (simp add: lower_barrier_def)
  with c process_response_effect [OF a, of out] Process_dynamic show ?thesis
    by (simp add: answer_effect_def) (simp add: lower_barrier_def)
next
  case (Noop_processor gd)
  have "\<And>c. snd (get_grpc_response_data c) = c\<lparr>grpc_response_data := None\<rparr>" by (simp add: get_grpc_response_data_def)
  then have "r = Done" "ctx' = (if gd then lower_barrier ctx else ctx)\<lparr>grpc_response_data := None\<rparr>"
    using assms Noop_processor by (auto simp: processor_apply_def)
  with Noop_processor show ?thesis by (simp add: answer_effect_def lower_barrier_def answer_outcome_def)
qed

lemma answer_effect_task:
  assumes T: "tracks_calls H out"
  shows "is_pending t \<Longrightarrow> task_apply L N H t ctx = (r, ctx') \<Longrightarrow> answer_effect out t ctx r ctx'"
proof (induction t arbitrary: r ctx')
  case (Failure_mode t ab)
  obtain r1 ctx1 where a: "task_apply L N H t ctx = (r1, ctx1)" by force
  with Failure_mode have e: "answer_effect out t ctx r1 ctx1" by simp
  have "quiet out ctx1 (set_host (metric_increment H ''kuadrant.errors'' (ctx_host ctx1)) ctx1)"
    by (rule metric_quiet [OF T])
  then show ?case
    using Failure_mode.prems(2) a e terminate_default_cases [of L]
    by (cases r1) (auto simp: Let_def answer_effect_def answer_outcome_def quiet_def same_control_def split: if_splits)
next
  case (Tracing_decorator t sp nm src)
  obtain r1 ctx1 where a: "task_apply L N H t ctx = (r1, ctx1)" by force
  with Tracing_decorator have e: "answer_effect out t ctx r1 ctx1" by simp
  then show ?case using Tracing_decorator.prems(2) a
    by (cases r1) (auto simp: answer_effect_def answer_outcome_def)
qed (auto simp: processor_effect)

end
