(* ===== verification/Executor.thy ===== *)
theory Executor
  imports Task_Effects
begin

text \<open>
  \<^verbatim>\<open>src/kuadrant/pipeline/executor.rs\<close>: a pipeline of tasks over the context of one request.
  \<open>Completed\<close> keeps the world the dropped context shared; \<open>Trapped\<close> is a run that does not come
  back from a task.
\<close>

record 'h pipeline =
  p_ctx :: "'h req_resp_ctx"
  task_queue :: "task list"
  deferred_tasks :: "(u32 \<times> task) list"
  completed_tasks :: "string set"
  teardown_tasks :: "teardown_action list"
  terminated :: bool

datatype 'h pipeline_state =
    InProgress "'h pipeline"
  | Completed bool "'h world"
  | Trapped

definition pipeline_state_from :: "'h pipeline \<Rightarrow> 'h pipeline_state" where
  "pipeline_state_from p =
     (if task_queue p = [] \<and> deferred_tasks p = [] then Completed (\<not> terminated p) (backend (p_ctx p))
      else InProgress p)"

definition pipeline_new :: "'h req_resp_ctx \<Rightarrow> 'h pipeline" where
  "pipeline_new ctx = \<lparr>p_ctx = ctx, task_queue = [], deferred_tasks = [], completed_tasks = {},
     teardown_tasks = [], terminated = False\<rparr>"

definition with_tasks :: "task list \<Rightarrow> 'h pipeline \<Rightarrow> 'h pipeline" where
  "with_tasks tasks p = p\<lparr>task_queue := tasks\<rparr>"

definition with_teardown_tasks :: "teardown_action list \<Rightarrow> 'h pipeline \<Rightarrow> 'h pipeline" where
  "with_teardown_tasks tasks p = p\<lparr>teardown_tasks := tasks\<rparr>"

definition is_terminated :: "'h pipeline \<Rightarrow> bool" where
  "is_terminated p = terminated p"

definition noop_pending :: "task \<Rightarrow> task" where
  "noop_pending t =
     (let is_guard = task_is_guard t in
      Pending_task (case task_id t of Some i \<Rightarrow> i | None \<Rightarrow> []) (Noop_processor is_guard) is_guard)"

definition replace_deferred_with_noop :: "'h pipeline \<Rightarrow> 'h pipeline" where
  "replace_deferred_with_noop p =
     p\<lparr>deferred_tasks := map (\<lambda>(token_id, task). (token_id, noop_pending task)) (deferred_tasks p)\<rparr>"

definition defer_task :: "u32 \<Rightarrow> task \<Rightarrow> 'h pipeline \<Rightarrow> 'h pipeline" where
  "defer_task token_id pending p = p\<lparr>deferred_tasks := bt_insert token_id pending (deferred_tasks p)\<rparr>"

definition run_teardown_action :: "lib \<Rightarrow> 'h hostcalls \<Rightarrow> teardown_action \<Rightarrow> 'h pipeline \<Rightarrow> 'h pipeline" where
  "run_teardown_action L H a p =
     (case teardown_execute L H a (p_ctx p) of
        (Teardown_done, ctx) \<Rightarrow> p\<lparr>p_ctx := ctx\<rparr>
      | (Teardown_deferred token_id, ctx) \<Rightarrow>
          defer_task token_id
            (Pending_task (''teardown_'' @ show_nat (unat token_id)) (Noop_processor False) False)
            (p\<lparr>p_ctx := ctx\<rparr>))"

definition execute_teardown :: "lib \<Rightarrow> 'h hostcalls \<Rightarrow> 'h pipeline \<Rightarrow> 'h pipeline" where
  "execute_teardown L H p =
     fold (run_teardown_action L H) (teardown_tasks p) ((replace_deferred_with_noop p)\<lparr>teardown_tasks := []\<rparr>)"

definition complete_task :: "string option \<Rightarrow> 'h pipeline \<Rightarrow> 'h pipeline" where
  "complete_task i p = (case i of Some i \<Rightarrow> p\<lparr>completed_tasks := insert i (completed_tasks p)\<rparr> | None \<Rightarrow> p)"

text \<open>A task that ends the pipeline: it runs, what is queued is dropped and the pipeline is torn
  down.  \<open>None\<close>: the task did not come back.\<close>

definition terminate_pipeline :: "lib \<Rightarrow> nom \<Rightarrow> 'h hostcalls \<Rightarrow> task \<Rightarrow> 'h pipeline \<Rightarrow> 'h pipeline option" where
  "terminate_pipeline L N H terminal_task p =
     (case task_apply L N H terminal_task (p_ctx p) of
        (No_return, _) \<Rightarrow> None
      | (_, ctx) \<Rightarrow> Some (execute_teardown L H (p\<lparr>p_ctx := ctx, task_queue := [], terminated := True\<rparr>)))"

definition blocked :: "'h pipeline \<Rightarrow> task \<Rightarrow> bool" where
  "blocked p t = list_ex (\<lambda>dep. dep \<notin> completed_tasks p) (task_dependencies t)"

text \<open>The loop of \<^verbatim>\<open>eval\<close>: it ends with the pipeline, or leaves \<^verbatim>\<open>eval\<close> early.\<close>

datatype 'h loop_result = Loop_end "'h pipeline" | Loop_return "'h pipeline_state"

fun eval_loop :: "lib \<Rightarrow> nom \<Rightarrow> 'h hostcalls \<Rightarrow> task list \<Rightarrow> 'h pipeline \<Rightarrow> 'h loop_result" where
  "eval_loop L N H [] p = Loop_end p"
| "eval_loop L N H (task # rest) p =
     (if blocked p task then eval_loop L N H rest (p\<lparr>task_queue := task_queue p @ [task]\<rparr>)
      else (case task_apply L N H task (p_ctx p) of
              (Done, ctx) \<Rightarrow> eval_loop L N H rest (complete_task (task_id task) (p\<lparr>p_ctx := ctx\<rparr>))
            | (Deferred token_id pending, ctx) \<Rightarrow>
                eval_loop L N H rest (defer_task token_id pending (p\<lparr>p_ctx := ctx\<rparr>))
            | (Requeued tasks, ctx) \<Rightarrow>
                eval_loop L N H rest (p\<lparr>p_ctx := ctx, task_queue := task_queue p @ tasks\<rparr>)
            | (Failed, ctx) \<Rightarrow> eval_loop L N H rest (p\<lparr>p_ctx := ctx\<rparr>)
            | (Terminate terminal_task, ctx) \<Rightarrow>
                Loop_return
                  (case terminate_pipeline L N H terminal_task (p\<lparr>p_ctx := ctx\<rparr>) of
                     Some p' \<Rightarrow> pipeline_state_from p'
                   | None \<Rightarrow> Trapped)
            | (No_return, ctx) \<Rightarrow> Loop_return Trapped))"

definition pipeline_eval :: "lib \<Rightarrow> nom \<Rightarrow> 'h hostcalls \<Rightarrow> 'h pipeline \<Rightarrow> 'h pipeline_state" where
  "pipeline_eval L N H p =
     (case eval_loop L N H (task_queue p) (p\<lparr>task_queue := []\<rparr>) of
        Loop_return st \<Rightarrow> st
      | Loop_end p' \<Rightarrow>
          pipeline_state_from
            (if task_queue p' = [] \<and> deferred_tasks p' = [] \<and> teardown_tasks p' \<noteq> []
             then execute_teardown L H p' else p'))"

definition digest_answer ::
  "lib \<Rightarrow> nom \<Rightarrow> 'h hostcalls \<Rightarrow> task \<Rightarrow> 'h pipeline \<Rightarrow> 'h pipeline option"
where
  "digest_answer L N H pending p =
     (case task_apply L N H pending (p_ctx p) of
        (Done, ctx) \<Rightarrow> Some (complete_task (task_id pending) (p\<lparr>p_ctx := ctx\<rparr>))
      | (Requeued tasks, ctx) \<Rightarrow>
          Some (complete_task (task_id pending) (p\<lparr>p_ctx := ctx, task_queue := tasks @ task_queue p\<rparr>))
      | (Deferred token_id pending', ctx) \<Rightarrow> Some (defer_task token_id pending' (p\<lparr>p_ctx := ctx\<rparr>))
      | (Failed, ctx) \<Rightarrow> Some (p\<lparr>p_ctx := ctx\<rparr>)
      | (Terminate terminal_task, ctx) \<Rightarrow> terminate_pipeline L N H terminal_task (p\<lparr>p_ctx := ctx\<rparr>)
      | (No_return, ctx) \<Rightarrow> None)"

definition digest ::
  "lib \<Rightarrow> nom \<Rightarrow> 'h hostcalls \<Rightarrow> u32 \<Rightarrow> u32 \<Rightarrow> nat \<Rightarrow> 'h pipeline \<Rightarrow> 'h pipeline_state"
where
  "digest L N H token_id status_code response_size p =
     (case map_of (deferred_tasks p) token_id of
        None \<Rightarrow> pipeline_eval L N H p
      | Some pending \<Rightarrow>
          (case digest_answer L N H pending
                  (p\<lparr>deferred_tasks := bt_remove token_id (deferred_tasks p),
                     p_ctx := snd (set_grpc_response_data status_code response_size (p_ctx p))\<rparr>) of
             None \<Rightarrow> Trapped
           | Some p' \<Rightarrow> pipeline_eval L N H p'))"

definition requires_pause :: "'h pipeline \<Rightarrow> bool" where
  "requires_pause p = is_tripped (barrier (p_ctx p))"

section \<open>The invariant of a pipeline\<close>

text \<open>The guards in flight: the calls whose answers lower the barrier.\<close>

definition guards :: "'h pipeline \<Rightarrow> nat" where
  "guards p = length (filter (\<lambda>(_, t). lowers_barrier t) (deferred_tasks p))"

fun is_noop :: "task \<Rightarrow> bool" where
  "is_noop (Pending_task _ (Noop_processor _) _) = True"
| "is_noop _ = False"

definition pipeline_inv :: "('h \<Rightarrow> u32 set) \<Rightarrow> 'h pipeline \<Rightarrow> bool" where
  "pipeline_inv out p =
     (bt_ok (deferred_tasks p)
      \<and> (\<forall>t \<in> set (task_queue p). \<not> is_pending t)
      \<and> (\<forall>t \<in> snd ` set (deferred_tasks p). is_pending t)
      \<and> grpc_response_data (p_ctx p) = None
      \<and> fst ` set (deferred_tasks p) \<subseteq> out (ctx_host (p_ctx p))
      \<and> (\<not> terminated p \<longrightarrow> unat (count (barrier (p_ctx p))) = guards p)
      \<and> (terminated p \<longrightarrow> task_queue p = [] \<and> teardown_tasks p = []
           \<and> (\<forall>t \<in> snd ` set (deferred_tasks p). is_noop t)))"

lemma filter_bt_insert:
  "k \<notin> fst ` set m \<Longrightarrow> length (filter P (bt_insert k v m)) = length (filter P m) + (if P (k, v) then 1 else 0)"
  by (induction k v m rule: bt_insert.induct) auto

lemma snd_bt_insert: "snd ` set (bt_insert k v m) \<subseteq> insert v (snd ` set m)"
  by (induction k v m rule: bt_insert.induct) auto

lemma ball_bt_insert:
  "P v \<Longrightarrow> \<forall>t \<in> snd ` set m. P t \<Longrightarrow> \<forall>t \<in> snd ` set (bt_insert k v m). P t"
  by (metis insertE snd_bt_insert subsetD)

lemma filter_bt_remove:
  assumes "bt_ok m" and "map_of m k = Some v"
  shows "length (filter P m) = length (filter P (bt_remove k m)) + (if P (k, v) then 1 else 0)"
  using assms
proof (induction m)
  case (Cons e m)
  show ?case
  proof (cases "fst e = k")
    case True
    then have "k \<notin> fst ` set m" using Cons.prems(1) by (force simp: bt_ok_def)
    then have "bt_remove k m = m" by (force simp: bt_remove_def filter_id_conv)
    with True Cons.prems show ?thesis by (cases e) (auto simp: bt_remove_def)
  next
    case False
    then show ?thesis using Cons by (cases e) (auto simp: bt_remove_def bt_ok_def)
  qed
qed simp

lemma guards_le_calls:
  assumes "pipeline_inv out p"
  shows "guards p \<le> card (out (ctx_host (p_ctx p)))"
proof -
  have "distinct (map fst (deferred_tasks p))"
    using assms strict_sorted_iff [of "map fst (deferred_tasks p)"] by (simp add: pipeline_inv_def bt_ok_def)
  then have "length (deferred_tasks p) = card (fst ` set (deferred_tasks p))"
    by (metis distinct_card length_map set_map)
  also have "\<dots> \<le> card (out (ctx_host (p_ctx p)))"
    using assms by (intro card_mono) (auto simp: pipeline_inv_def)
  finally show ?thesis
    unfolding guards_def by (meson le_trans length_filter_le)
qed

lemma inv_quiet:
  assumes "pipeline_inv out p" and "quiet out (p_ctx p) ctx"
  shows "pipeline_inv out (p\<lparr>p_ctx := ctx\<rparr>)"
  using assms by (simp add: pipeline_inv_def quiet_def same_control_def guards_def)

lemma inv_complete: "pipeline_inv out (complete_task i p) = pipeline_inv out p"
  by (simp add: complete_task_def pipeline_inv_def guards_def split: option.split)

lemma complete_task_terminated [simp]: "terminated (complete_task i p) = terminated p"
  by (simp add: complete_task_def split: option.split)

lemma inv_queue:
  assumes "pipeline_inv out p" and "\<forall>t \<in> set q. \<not> is_pending t" and "\<not> terminated p"
  shows "pipeline_inv out (p\<lparr>task_queue := q\<rparr>)"
  using assms by (simp add: pipeline_inv_def guards_def)

lemma inv_defer:
  assumes T: "token_laws H out" and inv: "pipeline_inv out p" and live: "\<not> terminated p"
    and e: "run_effect H out t (p_ctx p) (Deferred tok pend) ctx"
  shows "pipeline_inv out (defer_task tok pend (p\<lparr>p_ctx := ctx\<rparr>))"
proof -
  have fresh: "tok \<notin> out (ctx_host (p_ctx p))" and bound: "card (out (ctx_host (p_ctx p))) + 1 < 2 ^ 32"
    and out: "out (ctx_host ctx) = insert tok (out (ctx_host (p_ctx p)))"
    using e T by (auto simp: run_effect_def token_laws_def)
  let ?b = "count (barrier (p_ctx p))"
  have new: "tok \<notin> fst ` set (deferred_tasks p)" using inv fresh by (auto simp: pipeline_inv_def)
  have "unat ?b + 1 < 2 ^ 32"
    using guards_le_calls [OF inv] inv live bound by (simp add: pipeline_inv_def)
  then have "unat (?b + 1) = unat ?b + 1" by (simp add: unat_word_ariths)
  then have "unat (count (barrier ctx)) = guards p + (if lowers_barrier pend then 1 else 0)"
    using e inv live by (simp add: run_effect_def pipeline_inv_def barrier_raise_def)
  moreover have "guards (defer_task tok pend (p\<lparr>p_ctx := ctx\<rparr>)) = guards p + (if lowers_barrier pend then 1 else 0)"
    using new by (simp add: guards_def defer_task_def filter_bt_insert)
  moreover have "grpc_response_data ctx = None" "is_pending pend"
    using e inv by (simp_all add: run_effect_def same_control_def pipeline_inv_def)
  moreover have "bt_ok (bt_insert tok pend (deferred_tasks p))"
    using inv by (intro btree_map.invar_insert) (simp add: pipeline_inv_def)
  moreover have "fst ` set (bt_insert tok pend (deferred_tasks p)) \<subseteq> out (ctx_host ctx)"
    using inv out by (auto simp: set_bt_insert pipeline_inv_def)
  moreover have "\<forall>t \<in> snd ` set (bt_insert tok pend (deferred_tasks p)). is_pending t"
    using inv by (intro ball_bt_insert \<open>is_pending pend\<close>) (simp add: pipeline_inv_def)
  ultimately show ?thesis
    using inv live by (simp add: pipeline_inv_def defer_task_def)
qed

section \<open>Teardown\<close>

text \<open>A pipeline that is being torn down waits only for answers it will ignore.\<close>

definition teardown_inv :: "('h \<Rightarrow> u32 set) \<Rightarrow> 'h pipeline \<Rightarrow> bool" where
  "teardown_inv out p =
     (bt_ok (deferred_tasks p)
      \<and> (\<forall>t \<in> snd ` set (deferred_tasks p). is_noop t)
      \<and> task_queue p = [] \<and> grpc_response_data (p_ctx p) = None
      \<and> fst ` set (deferred_tasks p) \<subseteq> out (ctx_host (p_ctx p))
      \<and> (\<not> terminated p \<longrightarrow> unat (count (barrier (p_ctx p))) = guards p))"

lemma noop_is_pending: "is_noop t \<Longrightarrow> is_pending t"
  by (cases t rule: is_noop.cases) auto

lemma teardown_inv_done: "teardown_inv out p \<Longrightarrow> teardown_tasks p = [] \<Longrightarrow> pipeline_inv out p"
  by (simp add: teardown_inv_def pipeline_inv_def noop_is_pending)

lemma teardown_execute_effect:
  assumes T: "tracks_calls H out" and "teardown_execute L H a ctx = (r, ctx')"
  shows "same_control ctx ctx' \<and> (case r of Teardown_done \<Rightarrow> out (ctx_host ctx') = out (ctx_host ctx)
     | Teardown_deferred tok \<Rightarrow> out (ctx_host ctx') = insert tok (out (ctx_host ctx))
         \<and> (fresh_tokens H out \<longrightarrow> tok \<notin> out (ctx_host ctx)))"
proof -
  obtain s where a: "a = Export_traces s" by (cases a)
  let ?c = "end_request_span H ctx"
  obtain spans sp where sp: "take_pending_spans (w_spans (backend ?c)) = (spans, sp)" by force
  let ?d = "?c\<lparr>backend := (backend ?c)\<lparr>w_spans := sp\<rparr>\<rparr>"
  have "out (ctx_host ?c) = out (ctx_host ctx)"
    by (auto simp: end_request_span_def split: prod.split dest: tracks_callsD(6) [OF T])
  then have d: "same_control ctx ?d" "out (ctx_host ?d) = out (ctx_host ctx)"
    by (simp_all add: end_request_span_control)
  show ?thesis
  proof (cases "spans = []")
    case True
    with assms(2) a sp d show ?thesis by (auto simp: teardown_execute_def Let_def)
  next
    case False
    obtain x ctx2 where x: "dispatch_export L H s spans ?d = (x, ctx2)" by force
    then have "same_control ctx ctx2" using d(1) dispatch_export_control by (blast intro: same_control_trans)
    moreover have "case x of Ok tok \<Rightarrow> out (ctx_host ctx2) = insert tok (out (ctx_host ctx))
         \<and> (fresh_tokens H out \<longrightarrow> tok \<notin> out (ctx_host ctx)) | Err _ \<Rightarrow> out (ctx_host ctx2) = out (ctx_host ctx)"
      using x False d(2) ctx_dispatch_tokens [OF T]
      by (fastforce simp: dispatch_export_def split: result.splits)
    ultimately show ?thesis
      using assms(2) a sp False x by (auto simp: teardown_execute_def Let_def split: result.splits)
  qed
qed

lemma run_teardown_action_inv:
  assumes T: "token_laws H out" and inv: "teardown_inv out p"
  shows "teardown_inv out (run_teardown_action L H a p)
    \<and> teardown_tasks (run_teardown_action L H a p) = teardown_tasks p
    \<and> terminated (run_teardown_action L H a p) = terminated p"
proof -
  obtain r ctx where e: "teardown_execute L H a (p_ctx p) = (r, ctx)" by force
  have eff: "same_control (p_ctx p) ctx" "case r of Teardown_done \<Rightarrow> out (ctx_host ctx) = out (ctx_host (p_ctx p))
     | Teardown_deferred tok \<Rightarrow> out (ctx_host ctx) = insert tok (out (ctx_host (p_ctx p)))
         \<and> (fresh_tokens H out \<longrightarrow> tok \<notin> out (ctx_host (p_ctx p)))"
    using teardown_execute_effect [OF _ e, of out] T by (simp_all add: token_laws_def)
  show ?thesis
  proof (cases r)
    case Teardown_done
    with e eff inv show ?thesis
      by (simp add: run_teardown_action_def teardown_inv_def same_control_def guards_def)
  next
    case (Teardown_deferred tok)
    let ?t = "Pending_task (''teardown_'' @ show_nat (unat tok)) (Noop_processor False) False"
    have new: "tok \<notin> fst ` set (deferred_tasks p)"
      using eff(2) T inv Teardown_deferred by (auto simp: token_laws_def teardown_inv_def)
    have "guards (defer_task tok ?t (p\<lparr>p_ctx := ctx\<rparr>)) = guards p"
      using new by (simp add: guards_def defer_task_def filter_bt_insert)
    moreover have "bt_ok (bt_insert tok ?t (deferred_tasks p))"
      using inv by (intro btree_map.invar_insert) (simp add: teardown_inv_def)
    moreover have "\<forall>t \<in> snd ` set (bt_insert tok ?t (deferred_tasks p)). is_noop t"
      using inv by (intro ball_bt_insert) (simp_all add: teardown_inv_def)
    moreover have "fst ` set (bt_insert tok ?t (deferred_tasks p)) \<subseteq> out (ctx_host ctx)"
      using inv eff(2) Teardown_deferred by (auto simp: set_bt_insert teardown_inv_def)
    ultimately show ?thesis
      using e eff(1) inv Teardown_deferred
      by (simp add: run_teardown_action_def teardown_inv_def same_control_def defer_task_def)
  qed
qed

lemma run_teardown_inv:
  "token_laws H out \<Longrightarrow> teardown_inv out p \<Longrightarrow>
     teardown_inv out (fold (run_teardown_action L H) as p)
     \<and> teardown_tasks (fold (run_teardown_action L H) as p) = teardown_tasks p
     \<and> terminated (fold (run_teardown_action L H) as p) = terminated p"
  by (induction as arbitrary: p) (simp_all add: run_teardown_action_inv)

lemma execute_teardown_inv:
  assumes T: "token_laws H out" and "bt_ok (deferred_tasks p)" and "task_queue p = []"
    and "grpc_response_data (p_ctx p) = None" and "fst ` set (deferred_tasks p) \<subseteq> out (ctx_host (p_ctx p))"
    and "\<not> terminated p \<longrightarrow> deferred_tasks p = [] \<and> unat (count (barrier (p_ctx p))) = 0"
  shows "pipeline_inv out (execute_teardown L H p) \<and> terminated (execute_teardown L H p) = terminated p"
proof -
  let ?p = "(replace_deferred_with_noop p)\<lparr>teardown_tasks := []\<rparr>"
  have keys: "map fst (deferred_tasks ?p) = map fst (deferred_tasks p)"
    by (auto simp: replace_deferred_with_noop_def)
  then have "fst ` set (deferred_tasks ?p) = fst ` set (deferred_tasks p)" by (metis set_map)
  then have "teardown_inv out ?p"
    using assms keys by (auto simp: teardown_inv_def bt_ok_def guards_def)
       (auto simp: replace_deferred_with_noop_def noop_pending_def Let_def)
  from run_teardown_inv [OF T this] show ?thesis
    by (auto simp: execute_teardown_def replace_deferred_with_noop_def intro: teardown_inv_done)
qed

section \<open>Every operation keeps the invariant\<close>

lemma run_effect_keeps:
  assumes "run_effect H out t ctx r ctx'"
  shows "grpc_response_data ctx' = grpc_response_data ctx \<and> out (ctx_host ctx) \<subseteq> out (ctx_host ctx')"
  using assms by (cases r) (auto simp: run_effect_def quiet_def same_control_def)

lemma terminate_pipeline_inv:
  assumes T: "token_laws H out" and "bt_ok (deferred_tasks p)" and "grpc_response_data (p_ctx p) = None"
    and "fst ` set (deferred_tasks p) \<subseteq> out (ctx_host (p_ctx p))" and "\<not> is_pending t"
    and "terminate_pipeline L N H t p = Some p'"
  shows "pipeline_inv out p' \<and> terminated p'"
proof -
  obtain r ctx where a: "task_apply L N H t (p_ctx p) = (r, ctx)" by force
  have "run_effect H out t (p_ctx p) r ctx"
    using T assms(5) a by (intro run_effect_task) (simp_all add: token_laws_def)
  note k = run_effect_keeps [OF this]
  have p': "p' = execute_teardown L H (p\<lparr>p_ctx := ctx, task_queue := [], terminated := True\<rparr>)"
    using assms(6) a by (cases r) (auto simp: terminate_pipeline_def)
  show ?thesis unfolding p'
    using execute_teardown_inv [OF T, of "p\<lparr>p_ctx := ctx, task_queue := [], terminated := True\<rparr>" L] assms k by auto
qed

lemma state_from_InProgress: "pipeline_state_from p = InProgress p' \<Longrightarrow> p' = p"
  by (simp add: pipeline_state_from_def split: if_splits)

text \<open>What holds of a state an operation returns.\<close>

definition state_ok :: "('h \<Rightarrow> u32 set) \<Rightarrow> bool \<Rightarrow> 'h pipeline_state \<Rightarrow> bool" where
  "state_ok out was_terminated st =
     (\<forall>p. st = InProgress p \<longrightarrow> pipeline_inv out p \<and> (was_terminated \<longrightarrow> terminated p))"

lemma eval_loop_inv:
  assumes T: "token_laws H out"
  shows "pipeline_inv out p \<Longrightarrow> \<forall>t \<in> set ts. \<not> is_pending t \<Longrightarrow> \<not> terminated p \<Longrightarrow>
    (case eval_loop L N H ts p of
       Loop_end p' \<Rightarrow> pipeline_inv out p' \<and> \<not> terminated p'
     | Loop_return st \<Rightarrow> state_ok out False st)"
proof (induction ts arbitrary: p)
  case (Cons t ts)
  obtain r ctx where a: "task_apply L N H t (p_ctx p) = (r, ctx)" by force
  have e: "run_effect H out t (p_ctx p) r ctx"
    using T Cons.prems(2) a by (intro run_effect_task) (simp_all add: token_laws_def)
  let ?p = "p\<lparr>p_ctx := ctx\<rparr>"
  have q: "pipeline_inv out ?p" if "quiet out (p_ctx p) ctx" using Cons.prems(1) that by (rule inv_quiet)
  show ?case
  proof (cases "blocked p t")
    case True
    have "pipeline_inv out (p\<lparr>task_queue := task_queue p @ [t]\<rparr>)"
      using Cons.prems by (intro inv_queue) (auto simp: pipeline_inv_def)
    with Cons True show ?thesis by simp
  next
    case False
    show ?thesis
    proof (cases r)
      case Done
      then have "pipeline_inv out (complete_task (task_id t) ?p)" using e q by (simp add: inv_complete run_effect_def)
      then show ?thesis using Cons False a Done by (simp add: complete_task_def split: option.split)
    next
      case (Deferred tok pend)
      from inv_defer [OF T Cons.prems(1,3)] e Deferred
      have "pipeline_inv out (defer_task tok pend ?p)" by blast
      then show ?thesis using Cons False a Deferred by (simp add: defer_task_def)
    next
      case (Requeued xs)
      then have "pipeline_inv out (?p\<lparr>task_queue := task_queue p @ xs\<rparr>)"
        using e q Cons.prems by (intro inv_queue) (auto simp: run_effect_def pipeline_inv_def)
      then show ?thesis using Cons False a Requeued by simp
    next
      case Failed
      then show ?thesis using Cons False a e q by (simp add: run_effect_def)
    next
      case (Terminate x)
      then have x: "\<not> is_pending x" and inv: "pipeline_inv out ?p" using e q by (simp_all add: run_effect_def)
      have "pipeline_inv out p'" if "terminate_pipeline L N H x ?p = Some p'" for p'
        using terminate_pipeline_inv [OF T _ _ _ x that] inv by (simp add: pipeline_inv_def)
      then show ?thesis using False a Terminate
        by (auto simp: state_ok_def split: option.split dest: state_from_InProgress)
    qed (use False a in \<open>simp add: state_ok_def\<close>)
  qed
qed simp

lemma eval_idle:
  assumes q: "task_queue p = []" and t: "teardown_tasks p = []"
  shows "pipeline_eval L N H p = pipeline_state_from p"
proof -
  from q have r: "p\<lparr>task_queue := []\<rparr> = p" by simp
  show ?thesis unfolding pipeline_eval_def q r by (simp add: t)
qed

lemma eval_terminated:
  "pipeline_inv out p \<Longrightarrow> terminated p \<Longrightarrow> pipeline_eval L N H p = pipeline_state_from p"
  by (rule eval_idle) (simp_all add: pipeline_inv_def)

lemma pipeline_eval_inv:
  assumes T: "token_laws H out" and inv: "pipeline_inv out p"
  shows "state_ok out (terminated p) (pipeline_eval L N H p)"
proof (cases "terminated p")
  case True
  with inv show ?thesis
    by (auto simp: eval_terminated [OF inv] state_ok_def dest: state_from_InProgress)
next
  case False
  let ?r = "eval_loop L N H (task_queue p) (p\<lparr>task_queue := []\<rparr>)"
  have l: "case ?r of Loop_end p' \<Rightarrow> pipeline_inv out p' \<and> \<not> terminated p' | Loop_return st \<Rightarrow> state_ok out False st"
    using inv False by (intro eval_loop_inv [OF T] inv_queue) (auto simp: pipeline_inv_def)
  have "pipeline_inv out (execute_teardown L H p')"
    if "?r = Loop_end p'" "task_queue p' = []" "deferred_tasks p' = []" for p'
    using l that execute_teardown_inv [OF T, of p' L] by (auto simp: pipeline_inv_def guards_def)
  with l False show ?thesis
    by (auto simp: pipeline_eval_def state_ok_def split: loop_result.splits if_splits dest: state_from_InProgress)
qed

text \<open>The host delivers an answer: the call is no longer in flight, and whatever else has
  happened to the world, the calls of the pipeline that are still unanswered are.\<close>

definition delivered :: "('h \<Rightarrow> u32 set) \<Rightarrow> u32 \<Rightarrow> 'h world \<Rightarrow> 'h pipeline \<Rightarrow> bool" where
  "delivered out tok w p = (fst ` set (deferred_tasks p) - {tok} \<subseteq> out (w_host w))"

definition set_world :: "'h world \<Rightarrow> 'h pipeline \<Rightarrow> 'h pipeline" where
  "set_world w p = p\<lparr>p_ctx := (p_ctx p)\<lparr>backend := w\<rparr>\<rparr>"

lemma barrier_lower_unat:
  "unat (count b) = Suc n \<Longrightarrow> unat (count (barrier_lower b)) = n"
  by (cases b) (auto simp: barrier_lower_def unat_minus_one)

text \<open>The state between taking a pending task from the pipeline and handling its answer.\<close>

definition answered :: "('h \<Rightarrow> u32 set) \<Rightarrow> task \<Rightarrow> 'h pipeline \<Rightarrow> bool" where
  "answered out t p =
     (bt_ok (deferred_tasks p) \<and> is_pending t
      \<and> (\<forall>t \<in> set (task_queue p). \<not> is_pending t) \<and> (\<forall>t \<in> snd ` set (deferred_tasks p). is_pending t)
      \<and> fst ` set (deferred_tasks p) \<subseteq> out (ctx_host (p_ctx p))
      \<and> (\<not> terminated p \<longrightarrow> unat (count (barrier (p_ctx p))) = guards p + (if lowers_barrier t then 1 else 0))
      \<and> (terminated p \<longrightarrow> is_noop t \<and> task_queue p = [] \<and> teardown_tasks p = []
           \<and> (\<forall>t \<in> snd ` set (deferred_tasks p). is_noop t)))"

lemma answered_effect:
  assumes "answered out t p" and "answer_effect out t (p_ctx p) r ctx" and "r \<noteq> No_return"
  shows "pipeline_inv out (p\<lparr>p_ctx := ctx\<rparr>)"
proof -
  have "unat (count (barrier ctx)) = guards p" if "\<not> terminated p"
    using assms that barrier_lower_unat by (auto simp: answered_def answer_effect_def)
  with assms show ?thesis
    by (auto simp: answered_def answer_effect_def pipeline_inv_def guards_def)
qed

lemma noop_apply:
  assumes "is_noop t"
  shows "fst (task_apply L N H t ctx) = Done" "backend (snd (task_apply L N H t ctx)) = backend ctx"
  using assms by (cases t rule: is_noop.cases;
      simp add: processor_apply_def get_grpc_response_data_def lower_barrier_def)+

lemma digest_answer_inv:
  assumes T: "token_laws H out" and inv: "answered out t p" and d: "digest_answer L N H t p = Some p'"
  shows "pipeline_inv out p' \<and> (terminated p \<longrightarrow> terminated p')"
proof -
  obtain r ctx where a: "task_apply L N H t (p_ctx p) = (r, ctx)" by force
  have e: "answer_effect out t (p_ctx p) r ctx"
    using T inv a by (intro answer_effect_task) (simp_all add: token_laws_def answered_def)
  let ?p = "p\<lparr>p_ctx := ctx\<rparr>"
  have q: "pipeline_inv out ?p" if "r \<noteq> No_return" using inv e that by (rule answered_effect)
  have nt: "\<not> terminated p" if "r \<noteq> Done"
    using inv that noop_apply(1) [of t L N H "p_ctx p"] a by (auto simp: answered_def)
  show ?thesis
  proof (cases r)
    case (Requeued xs)
    then have "pipeline_inv out (?p\<lparr>task_queue := xs @ task_queue p\<rparr>)"
      using q nt e inv by (intro inv_queue) (auto simp: answer_effect_def answer_outcome_def answered_def)
    with d a Requeued nt show ?thesis by (auto simp: digest_answer_def inv_complete)
  next
    case (Terminate x)
    then have x: "\<not> is_pending x" using e by (simp add: answer_effect_def answer_outcome_def)
    from Terminate d a have "terminate_pipeline L N H x ?p = Some p'" by (simp add: digest_answer_def)
    from terminate_pipeline_inv [OF T _ _ _ x this] q Terminate show ?thesis by (simp add: pipeline_inv_def)
  next
    case (Deferred tok pend)
    with e show ?thesis by (simp add: answer_effect_def answer_outcome_def)
  qed (use d a q in \<open>auto simp: digest_answer_def inv_complete\<close>)
qed

lemma snd_bt_remove: "snd ` set (bt_remove k m) \<subseteq> snd ` set m"
  by (auto simp: bt_remove_def)

lemma fst_bt_remove: "fst ` set (bt_remove k m) = fst ` set m - {k}"
  by (auto simp: bt_remove_def)

lemma digest_inv:
  assumes T: "token_laws H out" and inv: "pipeline_inv out p" and w: "delivered out tok w p"
    and known: "map_of (deferred_tasks p) tok \<noteq> None"
  shows "state_ok out (terminated p) (digest L N H tok st n (set_world w p))"
proof -
  from known obtain t where t: "map_of (deferred_tasks p) tok = Some t" by blast
  let ?q = "(set_world w p)\<lparr>deferred_tasks := bt_remove tok (deferred_tasks p),
      p_ctx := snd (set_grpc_response_data st n (p_ctx (set_world w p)))\<rparr>"
  have tin: "(tok, t) \<in> set (deferred_tasks p)" using t by (rule map_of_SomeD)
  have ok: "bt_ok (deferred_tasks p)" using inv by (simp add: pipeline_inv_def)
  have same: "barrier (p_ctx ?q) = barrier (p_ctx p)" "ctx_host (p_ctx ?q) = w_host w"
    by (simp_all add: set_world_def set_grpc_response_data_def)
  have sub: "P t \<and> (\<forall>t \<in> snd ` set (bt_remove tok (deferred_tasks p)). P t)"
    if "\<forall>t \<in> snd ` set (deferred_tasks p). P t" for P
    using that tin snd_bt_remove [of tok "deferred_tasks p"] by force
  have pend: "is_pending t \<and> (\<forall>t \<in> snd ` set (bt_remove tok (deferred_tasks p)). is_pending t)"
    using inv by (intro sub) (simp add: pipeline_inv_def)
  have noop: "is_noop t \<and> (\<forall>t \<in> snd ` set (bt_remove tok (deferred_tasks p)). is_noop t)" if "terminated p"
    using inv that by (intro sub) (simp add: pipeline_inv_def)
  have g: "guards p = guards ?q + (if lowers_barrier t then 1 else 0)"
    using filter_bt_remove [OF ok t, of "\<lambda>(_, t). lowers_barrier t"] by (simp add: guards_def)
  have b: "unat (count (barrier (p_ctx p))) = guards p" if "\<not> terminated p"
    using inv that by (simp add: pipeline_inv_def)
  have rest: "bt_ok (bt_remove tok (deferred_tasks p))" "\<forall>t \<in> set (task_queue p). \<not> is_pending t"
    "fst ` set (bt_remove tok (deferred_tasks p)) \<subseteq> out (w_host w)"
    "terminated p \<Longrightarrow> task_queue p = [] \<and> teardown_tasks p = []"
    using inv w btree_map.invar_remove [OF ok] by (simp_all add: fst_bt_remove delivered_def pipeline_inv_def)
  have "answered out t ?q"
    unfolding answered_def same using pend noop b g rest by (simp add: set_world_def)
  note d = digest_answer_inv [OF T this, of L N]
  have eq: "digest L N H tok st n (set_world w p) =
      (case digest_answer L N H t ?q of None \<Rightarrow> Trapped | Some p' \<Rightarrow> pipeline_eval L N H p')"
    using t by (simp add: digest_def set_world_def)
  show ?thesis
  proof (cases "digest_answer L N H t ?q")
    case (Some p')
    from d [OF Some] have "pipeline_inv out p'" "terminated p \<Longrightarrow> terminated p'" by (simp_all add: set_world_def)
    with pipeline_eval_inv [OF T, of p' L N] eq Some show ?thesis by (auto simp: state_ok_def)
  qed (use eq in \<open>simp add: state_ok_def\<close>)
qed

section \<open>Runs of a pipeline\<close>

text \<open>What the filter does with a pipeline that is in progress: evaluate it, hand it the answer
  to one of its calls (the event names the action), or note that a part of a body has arrived.  Between two operations the
  world may change in any way that leaves the calls of the pipeline in flight.\<close>

datatype pipeline_event = Evaluated | Answered u32 "string option" | Body_part | World_changed

inductive pipeline_step ::
  "lib \<Rightarrow> nom \<Rightarrow> 'h hostcalls \<Rightarrow> ('h \<Rightarrow> u32 set) \<Rightarrow> 'h pipeline \<Rightarrow> pipeline_event \<Rightarrow> 'h pipeline \<Rightarrow> bool"
  for L :: lib and N :: nom and H :: "'h hostcalls" and out :: "'h \<Rightarrow> u32 set"
where
  evaluate: "pipeline_eval L N H p = InProgress p' \<Longrightarrow> pipeline_step L N H out p Evaluated p'"
| response: "map_of (deferred_tasks p) tok = Some t \<Longrightarrow> delivered out tok w p \<Longrightarrow>
    digest L N H tok st n (set_world w p) = InProgress p' \<Longrightarrow>
    pipeline_step L N H out p (Answered tok (task_id t)) p'"
| request_part: "pipeline_step L N H out p Body_part
    (p\<lparr>p_ctx := set_current_request_body_buffer_size n eos (p_ctx p)\<rparr>)"
| response_part: "pipeline_step L N H out p Body_part
    (p\<lparr>p_ctx := set_current_response_body_buffer_size n eos (p_ctx p)\<rparr>)"
| world: "fst ` set (deferred_tasks p) \<subseteq> out (w_host w) \<Longrightarrow>
    pipeline_step L N H out p World_changed (set_world w p)"

inductive_cases pipeline_stepE: "pipeline_step L N H out p ev p'"

inductive pipeline_run ::
  "lib \<Rightarrow> nom \<Rightarrow> 'h hostcalls \<Rightarrow> ('h \<Rightarrow> u32 set) \<Rightarrow> 'h pipeline \<Rightarrow> pipeline_event list \<Rightarrow> 'h pipeline \<Rightarrow> bool"
  for L :: lib and N :: nom and H :: "'h hostcalls" and out :: "'h \<Rightarrow> u32 set"
where
  start: "pipeline_run L N H out p [] p"
| step: "pipeline_run L N H out p evs q \<Longrightarrow> pipeline_step L N H out q ev r \<Longrightarrow>
    pipeline_run L N H out p (evs @ [ev]) r"

text \<open>The pipeline a request starts with.\<close>

definition fresh_pipeline :: "'h pipeline \<Rightarrow> bool" where
  "fresh_pipeline p =
     ((\<forall>t \<in> set (task_queue p). \<not> is_pending t) \<and> deferred_tasks p = [] \<and> \<not> terminated p
      \<and> grpc_response_data (p_ctx p) = None \<and> barrier (p_ctx p) = Barrier 0)"

lemma fresh_inv: "fresh_pipeline p \<Longrightarrow> pipeline_inv out p"
  by (simp add: fresh_pipeline_def pipeline_inv_def guards_def bt_ok_def)

lemma pipeline_step_inv:
  assumes T: "token_laws H out"
  shows "pipeline_step L N H out p ev p' \<Longrightarrow> pipeline_inv out p \<Longrightarrow>
    pipeline_inv out p' \<and> (terminated p \<longrightarrow> terminated p')"
proof (induction rule: pipeline_step.induct)
  case (evaluate p p')
  with pipeline_eval_inv [OF T, of p L N] show ?case by (simp add: state_ok_def)
next
  case (response p tok t w st n p')
  with digest_inv [OF T response(4) response(2), of L N st n] show ?case by (simp add: state_ok_def)
qed (simp_all add: pipeline_inv_def guards_def set_world_def set_current_request_body_buffer_size_def
    set_current_response_body_buffer_size_def)

interpretation pipeline: progress_system "\<lambda>p p'. \<exists>ev. pipeline_step L N H out p ev p'"
    "\<lambda>p. token_laws H out \<and> pipeline_inv out p" "\<lambda>p p'. terminated p \<longrightarrow> terminated p'"
  for L :: lib and N :: nom and H :: "'h hostcalls" and out :: "'h \<Rightarrow> u32 set"
  by unfold_locales (auto dest: pipeline_step_inv)

lemma pipeline_run_steps:
  "pipeline_run L N H out p evs p' \<Longrightarrow> (\<lambda>p p'. \<exists>ev. pipeline_step L N H out p ev p')\<^sup>*\<^sup>* p p'"
  by (induction rule: pipeline_run.induct) (auto intro: rtranclp.rtrancl_into_rtrancl)

lemma pipeline_steps_inv:
  assumes "token_laws H out" and "pipeline_run L N H out p evs p'" and "pipeline_inv out p"
  shows "pipeline_inv out p' \<and> (terminated p \<longrightarrow> terminated p')"
  using pipeline.run_progress [OF pipeline_run_steps [OF assms(2)]] assms(1,3) by blast

lemma pipeline_run_inv:
  assumes T: "token_laws H out" and "fresh_pipeline p" and "pipeline_run L N H out p evs p'"
  shows "pipeline_inv out p'"
  using pipeline_steps_inv [OF T assms(3)] fresh_inv [OF assms(2)] by blast

end
