(* ===== verification/Example.thy ===== *)
theory Example
  imports Executor
begin

text \<open>
  A concrete request for hostname \<open>h\<close>: a host that can have one call in flight, a library in which the
  expression \<open>EUnspecified\<close> is an empty request message and every other one is \<open>true\<close>, and a
  guard action on a service whose descriptors are known.  The witnesses of the properties of
  pipelines evaluate it.
\<close>

definition flow_lib :: lib where
  "flow_lib = (demo_lib EUnspecified)
     \<lparr>cel_resolve := \<lambda>e _. if e = EUnspecified then Ok (VStruct ''M'' []) else Ok (VBool True)\<rparr>"

definition flow_host :: "bool hostcalls" where
  "flow_host = \<lparr>hc_get_property = (\<lambda>p _. Ok (if p = [''request'', ''host''] then Some ''h'' else None)), hc_get_map = (\<lambda>_ _. Ok []),
     hc_get_map_value = (\<lambda>_ _ _. Ok None), hc_set_property = (\<lambda>_ _ h. (Ok (), h)),
     hc_set_map = (\<lambda>_ _ h. (Ok (), h)), hc_get_buffer = (\<lambda>_ _ _ _. Ok (Some [])),
     hc_dispatch_grpc_call = (\<lambda>_ _ _ _ _ _ h. if h then (Err (Other_status 1), h) else (Ok 7, True)),
     hc_send_http_response = (\<lambda>_ _ _ h. (Ok (), h)), hc_increment_metric = (\<lambda>_ _ h. h),
     hc_define_metric = (\<lambda>_. Ok 0), hc_resume_http_request = id, hc_resume_http_response = id,
     hc_set_tick_period = (\<lambda>_ h. (Ok (), h)), hc_random_uuid = (\<lambda>_. ''uuid''),
     hc_span_enabled = (\<lambda>_. False), hc_enter_span = (\<lambda>_ h. h), hc_exit_span = (\<lambda>h. ([], h)),
     hc_current_span = (\<lambda>_. Otel_context 0),
     hc_get_log_level = (\<lambda>_. Ok Level_Info)\<rparr>"

definition flow_calls :: "bool \<Rightarrow> u32 set" where
  "flow_calls h = (if h then {7} else {})"

lemma flow_token_laws: "token_laws flow_host flow_calls"
  by (auto simp: token_laws_def tracks_calls_def fresh_tokens_def flow_host_def flow_calls_def split: if_splits)

definition flow_expr :: "cel_expr \<Rightarrow> string list \<Rightarrow> expression" where
  "flow_expr e body_values = \<lparr>expr_attributes = [], expr_request_body_values = [],
     expr_response_body_values = body_values, expr_expression = e, expr_extended = False,
     expr_needs_grpc = False, expr_source = []\<rparr>"

definition flow_task :: "string \<Rightarrow> string list \<Rightarrow> string list \<Rightarrow> dynamic_task" where
  "flow_task i deps body_values = \<lparr>dt_task_id = i, dt_service = demo_service, dt_name = ''r'',
     dt_message_builder = flow_expr EUnspecified body_values, dt_on_reply = [], dt_predicates = [],
     dt_dependencies = deps, dt_is_guard = True\<rparr>"

definition flow_world :: "bool \<Rightarrow> bool world" where
  "flow_world h = \<lparr>w_host = h, w_descriptors = w_descriptors (backend demo_ctx),
     w_cel_envs = [(0, [])], w_spans = span_processor_new, w_filters = no_handles\<rparr>"

definition flow_ctx :: "bool req_resp_ctx" where
  "flow_ctx = req_resp_ctx_new (flow_world False)"

definition flow_pipeline :: "task list \<Rightarrow> bool pipeline" where
  "flow_pipeline ts = with_tasks ts (pipeline_new flow_ctx)"

lemma flow_eval:
  "\<exists>c'. expression_eval flow_lib flow_host (flow_expr EUnspecified []) ctx c
     = (Ok (Available (VStruct ''M'' [])), ctx, c')"
  by (simp add: expression_eval_def flow_expr_def ensure_attributes_def build_data_map_def host_paths_def
      attribute_map_new_def Let_def request_with_grpc_def eval_with_map_def flow_lib_def)

lemma flow_eval_pending:
  "\<exists>c'. expression_eval flow_lib flow_host (flow_expr EUnspecified [k]) flow_ctx c = (Ok Pending, flow_ctx, c')"
  by (simp add: expression_eval_def flow_expr_def ensure_attributes_def build_data_map_def host_paths_def
      attribute_map_new_def Let_def request_with_grpc_def eval_with_map_def get_response_body_value_def
      flow_ctx_def req_resp_ctx_new_def)

lemma flow_env: "map_of (w_cel_envs (backend ctx)) 0 = Some env \<Longrightarrow> service_cel_env demo_service ctx = (Ok env, ctx)"
  by (simp add: service_cel_env_def demo_service_def)

lemma flow_dispatch:
  "\<exists>ctx'. dispatch_value flow_lib flow_host demo_service (VStruct ''M'' []) flow_ctx = (Ok 7, ctx')"
proof -
  obtain i ctx1 where r: "request_id flow_host flow_ctx = (i, ctx1)" by force
  have "quiet (\<lambda>h. if h then {7} else {}) flow_ctx ctx1" using r by (rule request_id_quiet)
  then have "ctx_host ctx1 = False" by (simp add: quiet_def flow_ctx_def req_resp_ctx_new_def flow_world_def split: if_splits)
  then have call: "\<exists>ctx'. ctx_dispatch_grpc_call L flow_host u sv m msg t flow_ctx = (Ok 7, ctx')" for L u sv m msg t
    using r by (simp add: ctx_dispatch_grpc_call_def host_dispatch_grpc_call_def)
      (simp add: flow_host_def)
  have "w_descriptors (backend flow_ctx) = w_descriptors (backend demo_ctx)"
    by (simp add: flow_ctx_def req_resp_ctx_new_def flow_world_def)
  then have m: "method_descriptor demo_service (w_descriptors (backend flow_ctx)) = Ok (demo_pool, ''M'', ''M'')"
    by (simp add: demo_method)
  have msg: "cel_to_dynamic_message flow_lib demo_pool (VStruct ''M'' []) ''M'' = Ok (PMessage ''M'' [])"
    by (simp add: cel_to_dynamic_message_def struct_to_dynamic_message_def demo_pool_def desc_of_def)
  have "encode_message flow_lib demo_pool (PMessage ''M'' []) = Ok []" by (simp add: flow_lib_def demo_lib_def)
  with m msg call show ?thesis by (simp add: dispatch_value_def)
qed

lemma flow_apply:
  "\<exists>ctx'. task_apply flow_lib N flow_host (Failure_mode (Dynamic (flow_task i deps [])) abort) flow_ctx =
     (Deferred 7 (Failure_mode (Pending_task i (Process_dynamic demo_service i ''r'' [] True) True) abort), ctx')"
proof -
  obtain ctx1 where d: "dispatch_value flow_lib flow_host demo_service (VStruct ''M'' []) flow_ctx = (Ok 7, ctx1)"
    using flow_dispatch by blast
  have e: "service_cel_env demo_service flow_ctx = (Ok [], flow_ctx)"
    by (rule flow_env) (simp add: flow_ctx_def req_resp_ctx_new_def flow_world_def)
  obtain c' where x: "expression_eval flow_lib flow_host (flow_expr EUnspecified []) flow_ctx
      (cel_context_default\<lparr>cc_env := Some []\<rparr>) = (Ok (Available (VStruct ''M'' [])), flow_ctx, c')"
    using flow_eval by blast
  show ?thesis
    using d e x by (simp add: dynamic_apply_def predicates_apply_def flow_task_def dynamic_dispatch_def)
qed

lemma flow_fresh: "\<forall>t \<in> set ts. \<not> is_pending t \<Longrightarrow> fresh_pipeline (flow_pipeline ts)"
  by (simp add: fresh_pipeline_def flow_pipeline_def with_tasks_def pipeline_new_def flow_ctx_def req_resp_ctx_new_def)

lemma flow_start:
  "\<exists>ctx'. pipeline_eval flow_lib N flow_host (flow_pipeline [Failure_mode (Dynamic (flow_task i [] [])) abort]) =
     InProgress ((flow_pipeline [])\<lparr>p_ctx := ctx', deferred_tasks :=
       [(7, Failure_mode (Pending_task i (Process_dynamic demo_service i ''r'' [] True) True) abort)]\<rparr>)"
proof -
  from flow_apply [of N i "[]" abort] obtain ctx' where
    "task_apply flow_lib N flow_host (Failure_mode (Dynamic (flow_task i [] [])) abort) flow_ctx =
      (Deferred 7 (Failure_mode (Pending_task i (Process_dynamic demo_service i ''r'' [] True) True) abort), ctx')"
    by blast
  then show ?thesis
    by (intro exI [of _ ctx'])
      (simp add: pipeline_eval_def flow_pipeline_def with_tasks_def pipeline_new_def blocked_def flow_task_def
        defer_task_def pipeline_state_from_def del: task_apply.simps)
qed

section \<open>A request that is denied\<close>

text \<open>The second call is refused while the first is in flight; its failure mode denies the request.\<close>

definition flow_denied :: "bool pipeline" where
  "flow_denied = flow_pipeline [Failure_mode (Dynamic (flow_task ''0'' [] [])) True,
     Failure_mode (Dynamic (flow_task ''1'' [] [])) True]"

lemma flow_busy_dispatch:
  assumes "ctx_host ctx"
  shows "\<exists>e ctx'. dispatch_value flow_lib flow_host demo_service v ctx = (Err e, ctx')"
proof -
  have "quiet (\<lambda>h. if h then {7} else {}) ctx (snd (request_id flow_host ctx))"
    by (rule request_id_quiet) (rule prod.collapse [symmetric])
  then have "ctx_host (snd (request_id flow_host ctx))" using assms by (simp add: quiet_def split: if_splits)
  then have "\<exists>e ctx'. ctx_dispatch_grpc_call flow_lib flow_host u sv m msg t ctx = (Err e, ctx')" for u sv m msg t
    by (simp add: ctx_dispatch_grpc_call_def host_dispatch_grpc_call_def split_beta flow_host_def)
  then show ?thesis by (auto simp: dispatch_value_def split: result.split prod.split)
qed

lemma flow_busy:
  assumes "ctx_host ctx"
  shows "\<exists>ctx'. dynamic_apply flow_lib flow_host (flow_task i deps []) ctx = (Failed, ctx')"
proof -
  obtain env ctx1 where e: "service_cel_env demo_service ctx = (env, ctx1)" by force
  have "quiet (\<lambda>h. if h then {7} else {}) ctx ctx1" using e by (rule service_cel_env_quiet)
  then have h: "ctx_host ctx1" using assms by (simp add: quiet_def split: if_splits)
  obtain er ctx2 where d: "dispatch_value flow_lib flow_host demo_service (VStruct ''M'' []) ctx1 = (Err er, ctx2)"
    using flow_busy_dispatch [OF h] by blast
  have x: "\<exists>c'. expression_eval flow_lib flow_host (flow_expr EUnspecified []) ctx1 c =
      (Ok (Available (VStruct ''M'' [])), ctx1, c')" for c by (rule flow_eval)
  show ?thesis
  proof (cases env)
    case (Ok ev)
    obtain c' where "expression_eval flow_lib flow_host (flow_expr EUnspecified []) ctx1
        (cel_context_default\<lparr>cc_env := Some ev\<rparr>) = (Ok (Available (VStruct ''M'' [])), ctx1, c')" using x by blast
    with e d Ok show ?thesis by (simp add: dynamic_apply_def predicates_apply_def flow_task_def dynamic_dispatch_def)
  qed (use e in \<open>simp add: dynamic_apply_def predicates_apply_def flow_task_def dynamic_dispatch_def\<close>)
qed

lemma send_reply_returns: "fst (task_apply L N H (Send_reply t) ctx) \<noteq> No_return"
  by (auto simp: send_reply_apply_def with_gate_def send_reply_body_def Let_def split: prod.splits gate.splits
      result.splits attribute_state.splits cel_value.splits option.splits)

lemma terminate_reply:
  "\<exists>ctx'. terminate_pipeline L N H (Send_reply t) p =
     Some (execute_teardown L H (p\<lparr>p_ctx := ctx', task_queue := [], terminated := True\<rparr>))"
proof -
  obtain r ctx' where a: "task_apply L N H (Send_reply t) (p_ctx p) = (r, ctx')" by force
  with send_reply_returns [of L N H t "p_ctx p"] have "r \<noteq> No_return" by simp
  with a show ?thesis by (intro exI [of _ ctx']) (cases r; simp add: terminate_pipeline_def)
qed

lemma flow_default_reply: "\<exists>t. terminate_default flow_lib = Terminate (Send_reply t)"
  by (simp add: terminate_default_def send_reply_default_def send_reply_new_def expression_new_def
      new_expression_def flow_lib_def demo_lib_def Let_def)

lemma flow_terminates:
  "\<exists>p'. pipeline_eval flow_lib N flow_host flow_denied = InProgress p' \<and> terminated p'
     \<and> map fst (deferred_tasks p') = [7]"
proof -
  let ?t0 = "Failure_mode (Dynamic (flow_task ''0'' [] [])) True"
  let ?t1 = "Failure_mode (Dynamic (flow_task ''1'' [] [])) True"
  obtain pend ctx1 where a0: "task_apply flow_lib N flow_host ?t0 flow_ctx = (Deferred 7 pend, ctx1)"
    using flow_apply by blast
  have "run_effect flow_host flow_calls ?t0 flow_ctx (Deferred 7 pend) ctx1"
    using flow_token_laws by (intro run_effect_task [OF _ _ a0]) (simp_all add: token_laws_def)
  then have "7 \<in> flow_calls (ctx_host ctx1)" by (simp add: run_effect_def)
  then have "ctx_host ctx1" by (simp add: flow_calls_def split: if_splits)
  then obtain x ctx2 where a1: "task_apply flow_lib N flow_host ?t1 ctx1 = (Terminate (Send_reply x), ctx2)"
    using flow_busy [of ctx1 "''1''" "[]"] flow_default_reply by auto
  let ?p = "(flow_pipeline [])\<lparr>p_ctx := ctx2, deferred_tasks := [(7, pend)]\<rparr>"
  obtain ctx3 where tm: "terminate_pipeline flow_lib N flow_host (Send_reply x) ?p =
      Some (execute_teardown flow_lib flow_host (?p\<lparr>p_ctx := ctx3, task_queue := [], terminated := True\<rparr>))"
    using terminate_reply by blast
  have loop: "eval_loop flow_lib N flow_host [?t0, ?t1] (flow_pipeline []) = Loop_return
      (pipeline_state_from (execute_teardown flow_lib flow_host (?p\<lparr>p_ctx := ctx3, task_queue := [], terminated := True\<rparr>)))"
    using a0 a1 tm
    by (simp add: blocked_def flow_task_def flow_pipeline_def with_tasks_def pipeline_new_def defer_task_def
        del: task_apply.simps)
  show ?thesis
    using loop by (simp add: pipeline_eval_def flow_denied_def flow_pipeline_def with_tasks_def pipeline_new_def
        execute_teardown_def replace_deferred_with_noop_def pipeline_state_from_def)
qed

end
