(* ===== verification/Pipeline_Runs.thy ===== *)
theory Pipeline_Runs
  imports Example
begin

text \<open>
  Properties of whole runs of a pipeline: how many calls a request can lead to, what a
  terminated pipeline still does, and what waiting for a dependency means.
\<close>

section \<open>How much work is left\<close>

text \<open>An upper bound on the answers a task can still lead to, counting only calls of actions whose
  id is in \<open>I\<close>: one for a call that is to be made or is in flight, and those of the \<^verbatim>\<open>onReply\<close>
  actions below it.\<close>

fun action_weight :: "string set \<Rightarrow> action \<Rightarrow> nat" and operation_weight :: "string set \<Rightarrow> string \<Rightarrow> operation \<Rightarrow> nat" where
  "action_weight I (Action i _ _ op _ _ _) = operation_weight I i op"
| "operation_weight I i (Op_Grpc _ _ _ on_reply) =
     of_bool (i \<in> I) + sum_list (map (action_weight I) on_reply)"
| "operation_weight I i _ = 0"

abbreviation actions_weight :: "string set \<Rightarrow> action list \<Rightarrow> nat" where
  "actions_weight I as \<equiv> sum_list (map (action_weight I) as)"

fun task_weight :: "string set \<Rightarrow> task \<Rightarrow> nat" where
  "task_weight I (Dynamic d) = of_bool (dt_task_id d \<in> I) + actions_weight I (dt_on_reply d)"
| "task_weight I (Failure_mode t _) = task_weight I t"
| "task_weight I (Tracing_decorator t _ _ _) = task_weight I t"
| "task_weight I (Pending_task i (Process_dynamic _ _ _ on_reply _) _) =
     of_bool (i \<in> I) + actions_weight I on_reply"
| "task_weight I (Pending_task i (Noop_processor _) _) = of_bool (i \<in> I)"
| "task_weight I _ = 0"

abbreviation tasks_weight :: "string set \<Rightarrow> task list \<Rightarrow> nat" where
  "tasks_weight I ts \<equiv> sum_list (map (task_weight I) ts)"

fun outcome_weight :: "string set \<Rightarrow> task_outcome \<Rightarrow> nat" where
  "outcome_weight I (Deferred _ p) = task_weight I p"
| "outcome_weight I (Requeued ts) = tasks_weight I ts"
| "outcome_weight I _ = 0"

definition teardown_ids :: "string set" where
  "teardown_ids = range (\<lambda>n. ''teardown_'' @ show_nat n)"

definition teardown_weight :: "string set \<Rightarrow> 'h pipeline \<Rightarrow> nat" where
  "teardown_weight I p = (if I \<inter> teardown_ids = {} then 0 else length (teardown_tasks p))"

definition pipeline_weight :: "string set \<Rightarrow> 'h pipeline \<Rightarrow> nat" where
  "pipeline_weight I p =
     tasks_weight I (task_queue p) + tasks_weight I (map snd (deferred_tasks p)) + teardown_weight I p"

definition id_weight :: "string set \<Rightarrow> task \<Rightarrow> nat" where
  "id_weight I t = (case task_id t of Some i \<Rightarrow> of_bool (i \<in> I) | None \<Rightarrow> 0)"

lemma id_weight_le: "id_weight I t \<le> task_weight I t"
  by (induction I t rule: task_weight.induct) (auto simp: id_weight_def)

lemma id_weight_wrap:
  "id_weight I (Failure_mode t ab) = id_weight I t" "id_weight I (Tracing_decorator t sp nm src) = id_weight I t"
  by (simp_all add: id_weight_def)

lemma pending_id: "is_pending t \<Longrightarrow> task_id t \<noteq> None"
  by (induction t rule: is_pending.induct) auto

lemma terminate_default_weight [simp]: "outcome_weight I (terminate_default L) = 0"
  using terminate_default_cases [of L] by auto

lemma with_gate_weight:
  assumes "with_gate g self body = (r, ctx')" and "\<And>ctx. body ctx = (r, ctx') \<Longrightarrow> outcome_weight I r \<le> task_weight I self"
  shows "outcome_weight I r \<le> task_weight I self"
  using assms by (auto simp: with_gate_def split: prod.splits gate.splits)

lemma modify_headers_weight:
  "modify_headers_apply L H t ctx = (r, ctx') \<Longrightarrow> outcome_weight I r \<le> task_weight I (Modify_headers t)"
  unfolding modify_headers_apply_def
  by (erule with_gate_weight)
     (auto simp: modify_headers_body_def modify_headers_run_def Let_def split: headers_mode.splits prod.splits
       result.splits attribute_state.splits option.splits if_splits)

lemma send_reply_weight:
  "send_reply_apply L H t ctx = (r, ctx') \<Longrightarrow> outcome_weight I r \<le> task_weight I (Send_reply t)"
  unfolding send_reply_apply_def
  by (erule with_gate_weight)
     (auto simp: send_reply_body_def Let_def split: prod.splits
       result.splits attribute_state.splits cel_value.splits option.splits if_splits)

lemma store_weight:
  "store_apply L H t ctx = (r, ctx') \<Longrightarrow> outcome_weight I r \<le> task_weight I (Store t)"
  unfolding store_apply_def
  by (erule with_gate_weight)
     (auto simp: store_body_def store_run_def Let_def split: store_mode.splits prod.splits
       result.splits attribute_state.splits if_splits)

lemma token_usage_weight:
  "lift_token_usage x = (r, ctx') \<Longrightarrow> outcome_weight I r = 0"
  by (auto simp: lift_token_usage_def split: prod.splits token_usage_outcome.splits)

lemma dynamic_weight:
  assumes "dynamic_apply L H t ctx = (r, ctx')"
  shows "outcome_weight I r \<le> task_weight I (Dynamic t)"
proof -
  have "outcome_weight I r \<le> task_weight I (Dynamic t)" if "dynamic_dispatch L H t c = (r, ctx')" for c
    using that by (auto simp: dynamic_dispatch_def requeue_or_fail_def split: prod.splits result.splits
        attribute_state.splits if_splits)
  with assms show ?thesis
    by (auto simp: dynamic_apply_def requeue_or_fail_def split: prod.splits result.splits
        attribute_state.splits bool.splits if_splits)
qed

lemma reply_operation_weight:
  assumes "reply_operation L H a ctx c = (s, ctx', c')"
  shows "case s of Reply_end r \<Rightarrow> outcome_weight I r = 0 | Reply_tasks ts \<Rightarrow> tasks_weight I ts \<le> action_weight I a"
proof -
  have d: "task_weight I (Dynamic (fst (new_with_attributes L H t ctx))) = task_weight I (Dynamic t)" for t
    using new_with_attributes_quiet [of L H t ctx] by (metis prod.collapse)
  show ?thesis
  proof (cases a)
    case (Action i pr tm op ds so g)
    show ?thesis
    proof (cases op)
      case (Op_Grpc si v mb as)
      with assms Action d show ?thesis
        by (auto simp: reply_operation_def split: option.splits prod.splits if_splits dest!: new_with_attributes_quiet)
    qed (use assms Action in \<open>auto simp: reply_operation_def Let_def split: prod.splits result.splits
        attribute_state.splits cel_value.splits option.splits if_splits\<close>)
  qed
qed

lemma reply_loop_weight:
  "reply_loop L H as ts ctx c = (r, ctx') \<Longrightarrow> outcome_weight I r \<le> actions_weight I as + tasks_weight I ts"
proof (induction as arbitrary: ts ctx c)
  case (Cons a as)
  obtain b ctx1 c1 where t: "test_with_ctx L H (act_predicate a) ctx c = (b, ctx1, c1)" by (metis prod_cases3)
  obtain s ctx2 c2 where o: "reply_operation L H a ctx1 c1 = (s, ctx2, c2)" by (metis prod_cases3)
  note w = reply_operation_weight [OF o, of I]
  show ?case
  proof (cases s)
    case (Reply_end x)
    then show ?thesis using Cons.prems t o w Cons.IH [of ts ctx1 c1]
      by (auto split: result.splits attribute_state.splits bool.splits)
  next
    case (Reply_tasks xs)
    then show ?thesis using Cons.prems t o w Cons.IH [of ts ctx1 c1] Cons.IH [of "ts @ xs" ctx2 c2]
      by (auto split: result.splits attribute_state.splits bool.splits)
  qed
qed (auto split: if_splits)

lemma processor_weight:
  assumes "processor_apply L H p ctx = (r, ctx')"
  shows "outcome_weight I r + of_bool (i \<in> I) \<le> task_weight I (Pending_task i p g)"
proof (cases p)
  case (Process_dynamic s tid n as gd)
  have "outcome_weight I x \<le> actions_weight I as" if "process_dynamic_response L H s tid n as ctx = (x, c)" for x c
    using that by (auto simp: process_dynamic_response_def split: prod.splits result.splits if_splits
        dest: reply_loop_weight)
  with assms Process_dynamic show ?thesis
    by (auto simp: processor_apply_def split: prod.splits task_outcome.splits)
qed (use assms in \<open>auto simp: processor_apply_def\<close>)

lemma task_apply_weight:
  "task_apply L N H t ctx = (r, ctx') \<Longrightarrow>
     outcome_weight I r \<le> task_weight I t
     \<and> (is_pending t \<longrightarrow> outcome_weight I r + id_weight I t \<le> task_weight I t)"
proof (induction t arbitrary: r ctx')
  case (Failure_mode t ab)
  obtain r1 ctx1 where a: "task_apply L N H t ctx = (r1, ctx1)" by force
  with Failure_mode show ?case
    by (cases r1) (auto simp: Let_def id_weight_wrap intro: le_trans [OF id_weight_le] split: if_splits)
next
  case (Tracing_decorator t sp nm src)
  obtain r1 ctx1 where a: "task_apply L N H t ctx = (r1, ctx1)" by force
  with Tracing_decorator show ?case by (cases r1) (auto simp: comp_def id_weight_wrap)
next
  case (Pending_task i p g)
  with processor_weight [of L H p ctx r ctx' I i g] show ?case by (simp add: id_weight_def)
next
  case (Dynamic d)
  with dynamic_weight [of L H d ctx r ctx' I] show ?case by simp
qed (auto dest: dynamic_weight modify_headers_weight send_reply_weight store_weight token_usage_weight)

lemma weight_bt_insert:
  "tasks_weight I (map snd (bt_insert k v m)) \<le> task_weight I v + tasks_weight I (map snd m)"
  by (induction k v m rule: bt_insert.induct) auto

lemma weight_bt_remove:
  "map_of m k = Some v \<Longrightarrow> tasks_weight I (map snd (bt_remove k m)) + task_weight I v \<le> tasks_weight I (map snd m)"
proof (induction m)
  case (Cons e m)
  have "tasks_weight I (map snd (bt_remove k m)) \<le> tasks_weight I (map snd m)"
    by (induction m) (auto simp: bt_remove_def)
  with Cons show ?case by (cases e) (auto simp: bt_remove_def)
qed simp

lemma id_weights_le: "sum_list (map (id_weight I) ts) \<le> tasks_weight I ts"
  by (induction ts) (auto intro: add_mono id_weight_le)

lemma id_weights_filter:
  "length (filter (\<lambda>(_, t). \<exists>i\<in>I. task_id t = Some i) m) = sum_list (map (id_weight I) (map snd m))"
  by (induction m) (auto simp: id_weight_def split: option.split)

text \<open>Queued tasks are not waiting for an answer, deferred ones are.\<close>

definition shape_ok :: "'h pipeline \<Rightarrow> bool" where
  "shape_ok p = ((\<forall>t \<in> set (task_queue p). \<not> is_pending t) \<and> (\<forall>t \<in> snd ` set (deferred_tasks p). is_pending t))"

lemma inv_shape: "pipeline_inv out p \<Longrightarrow> shape_ok p"
  by (simp add: pipeline_inv_def shape_ok_def)

lemma run_shape:
  assumes "\<not> is_pending t" and "task_apply L N H t ctx = (r, ctx')"
  shows "case r of Deferred tok p \<Rightarrow> is_pending p | Requeued ts \<Rightarrow> \<forall>x \<in> set ts. \<not> is_pending x | _ \<Rightarrow> True"
proof -
  have "tracks_calls H (\<lambda>_. UNIV)" by (simp add: tracks_calls_def)
  from run_effect_task [OF this assms] show ?thesis by (auto simp: run_effect_def split: task_outcome.splits)
qed

lemma defer_weight: "pipeline_weight I (defer_task tok t p) \<le> pipeline_weight I p + task_weight I t"
  using weight_bt_insert [of I tok t "deferred_tasks p"] by (simp add: pipeline_weight_def teardown_weight_def defer_task_def)

lemma defer_shape:
  assumes "shape_ok p" and "is_pending t"
  shows "shape_ok (defer_task tok t p)"
proof -
  have "\<forall>t \<in> snd ` set (bt_insert tok t (deferred_tasks p)). is_pending t"
    using assms by (intro ball_bt_insert) (simp_all add: shape_ok_def)
  with assms(1) show ?thesis by (simp add: shape_ok_def defer_task_def)
qed

lemma run_teardown_action_weight:
  "shape_ok p \<Longrightarrow> shape_ok (run_teardown_action L H a p)
     \<and> pipeline_weight I (run_teardown_action L H a p) \<le> pipeline_weight I p + of_bool (I \<inter> teardown_ids \<noteq> {})"
proof -
  assume p: "shape_ok p"
  obtain r ctx where e: "teardown_execute L H a (p_ctx p) = (r, ctx)" by force
  let ?q = "p\<lparr>p_ctx := ctx\<rparr>"
  have q: "shape_ok ?q" "pipeline_weight I ?q = pipeline_weight I p"
    using p by (simp_all add: shape_ok_def pipeline_weight_def teardown_weight_def)
  show ?thesis
  proof (cases r)
    case (Teardown_deferred tok)
    let ?t = "Pending_task (''teardown_'' @ show_nat (unat tok)) (Noop_processor False) False"
    have "shape_ok (defer_task tok ?t ?q)" using q(1) by (rule defer_shape) simp
    moreover have "task_weight I ?t \<le> of_bool (I \<inter> teardown_ids \<noteq> {})" by (auto simp: teardown_ids_def)
    with defer_weight [of I tok ?t ?q] q(2)
    have "pipeline_weight I (defer_task tok ?t ?q) \<le> pipeline_weight I p + of_bool (I \<inter> teardown_ids \<noteq> {})" by linarith
    ultimately show ?thesis using e Teardown_deferred by (simp add: run_teardown_action_def)
  qed (use e q in \<open>simp add: run_teardown_action_def\<close>)
qed

lemma run_teardown_weight:
  "shape_ok p \<Longrightarrow> shape_ok (fold (run_teardown_action L H) as p)
     \<and> pipeline_weight I (fold (run_teardown_action L H) as p) 
       \<le> (if I \<inter> teardown_ids = {} then 0 else length as) + pipeline_weight I p"
proof (induction as arbitrary: p)
  case (Cons a as)
  note a = run_teardown_action_weight [OF Cons.prems, of L H a I]
  from Cons.IH [of "run_teardown_action L H a p"] a show ?case by (auto split: if_splits)
qed simp

lemma replace_weight:
  assumes "shape_ok p"
  shows "shape_ok (replace_deferred_with_noop p)
    \<and> pipeline_weight I (replace_deferred_with_noop p) \<le> pipeline_weight I p"
proof -
  have t: "task_weight I (noop_pending t) \<le> task_weight I t" if "is_pending t" for t
    using pending_id [OF that] id_weight_le [of I t] by (auto simp: noop_pending_def Let_def id_weight_def)
  have "tasks_weight I (map (snd \<circ> (\<lambda>(k, t). (k, noop_pending t))) m) \<le> tasks_weight I (map snd m)"
    if "\<forall>t \<in> snd ` set m. is_pending t" for m :: "(u32 \<times> task) list"
    using that t by (induction m) (force simp: add_mono)+
  with assms show ?thesis
    by (auto simp: shape_ok_def replace_deferred_with_noop_def pipeline_weight_def teardown_weight_def
        noop_pending_def Let_def)
qed

lemma execute_teardown_weight:
  assumes "shape_ok p"
  shows "shape_ok (execute_teardown L H p) \<and> pipeline_weight I (execute_teardown L H p) \<le> pipeline_weight I p"
proof -
  let ?p = "(replace_deferred_with_noop p)\<lparr>teardown_tasks := []\<rparr>"
  have td: "teardown_tasks (replace_deferred_with_noop p) = teardown_tasks p"
    by (simp add: replace_deferred_with_noop_def)
  have "shape_ok ?p" "(if I \<inter> teardown_ids = {} then 0 else length (teardown_tasks p)) + pipeline_weight I ?p
      \<le> pipeline_weight I p"
    using replace_weight [OF assms, of I] td
    by (simp_all add: shape_ok_def pipeline_weight_def teardown_weight_def split: if_splits)
  with run_teardown_weight [of ?p L H "teardown_tasks p" I] show ?thesis by (simp add: execute_teardown_def)
qed

definition weight_ok :: "string set \<Rightarrow> nat \<Rightarrow> 'h pipeline_state \<Rightarrow> bool" where
  "weight_ok I n st = (\<forall>p. st = InProgress p \<longrightarrow> pipeline_weight I p \<le> n)"

lemma weight_ok_state: "pipeline_weight I p \<le> n \<Longrightarrow> weight_ok I n (pipeline_state_from p)"
  by (auto simp: weight_ok_def dest: state_from_InProgress)

lemma complete_weight [simp]:
  "pipeline_weight I (complete_task i p) = pipeline_weight I p" "shape_ok (complete_task i p) = shape_ok p"
  by (simp_all add: complete_task_def pipeline_weight_def teardown_weight_def shape_ok_def split: option.split)

lemma set_world_weight [simp]:
  "pipeline_weight I (set_world w p) = pipeline_weight I p" "shape_ok (set_world w p) = shape_ok p"
  by (simp_all add: set_world_def pipeline_weight_def teardown_weight_def shape_ok_def)

lemma ctx_weight [simp]: "pipeline_weight I (p\<lparr>p_ctx := c\<rparr>) = pipeline_weight I p"
  by (simp add: pipeline_weight_def teardown_weight_def)

lemma terminate_weight:
  assumes "shape_ok p" and "terminate_pipeline L N H t p = Some p'"
  shows "shape_ok p' \<and> pipeline_weight I p' \<le> pipeline_weight I p"
proof -
  obtain r ctx where a: "task_apply L N H t (p_ctx p) = (r, ctx)" by force
  let ?q = "p\<lparr>p_ctx := ctx, task_queue := [], terminated := True\<rparr>"
  have "p' = execute_teardown L H ?q" using assms(2) a by (cases r) (auto simp: terminate_pipeline_def)
  moreover have "shape_ok ?q" "pipeline_weight I ?q \<le> pipeline_weight I p"
    using assms(1) by (simp_all add: shape_ok_def pipeline_weight_def teardown_weight_def)
  ultimately show ?thesis using execute_teardown_weight [of ?q L H I] by simp
qed

lemma eval_loop_weight:
  "shape_ok p \<Longrightarrow> \<forall>t \<in> set ts. \<not> is_pending t \<Longrightarrow> pipeline_weight I p + tasks_weight I ts \<le> n \<Longrightarrow>
    (case eval_loop L N H ts p of
       Loop_end p' \<Rightarrow> shape_ok p' \<and> pipeline_weight I p' \<le> n
     | Loop_return st \<Rightarrow> weight_ok I n st)"
proof (induction ts arbitrary: p)
  case (Cons t ts)
  obtain r ctx where a: "task_apply L N H t (p_ctx p) = (r, ctx)" by force
  let ?p = "p\<lparr>p_ctx := ctx\<rparr>"
  have w: "outcome_weight I r \<le> task_weight I t" using task_apply_weight [OF a, of I] by simp
  have t: "\<not> is_pending t" using Cons.prems(2) by simp
  have s: "case r of Deferred tok p \<Rightarrow> is_pending p | Requeued ts \<Rightarrow> \<forall>x \<in> set ts. \<not> is_pending x | _ \<Rightarrow> True"
    using t a by (rule run_shape)
  have p: "shape_ok ?p" "pipeline_weight I ?p = pipeline_weight I p"
    using Cons.prems(1) by (simp_all add: shape_ok_def pipeline_weight_def teardown_weight_def)
  show ?case
  proof (cases "blocked p t")
    case True
    let ?q = "p\<lparr>task_queue := task_queue p @ [t]\<rparr>"
    have "shape_ok ?q" "pipeline_weight I ?q = pipeline_weight I p + task_weight I t"
      using Cons.prems(1) t by (auto simp: shape_ok_def pipeline_weight_def teardown_weight_def)
    with Cons.IH [of ?q] Cons.prems True show ?thesis by simp
  next
    case False
    show ?thesis
    proof (cases r)
      case Done
      with Cons.IH [of "complete_task (task_id t) ?p"] Cons.prems p False a show ?thesis by simp
    next
      case (Deferred tok pend)
      with s p have "shape_ok (defer_task tok pend ?p)" by (intro defer_shape) simp_all
      with Cons.IH [of "defer_task tok pend ?p"] Cons.prems p w defer_weight [of I tok pend ?p] False a Deferred
      show ?thesis by simp
    next
      case (Requeued xs)
      let ?q = "?p\<lparr>task_queue := task_queue p @ xs\<rparr>"
      have "shape_ok ?q" "pipeline_weight I ?q = pipeline_weight I p + tasks_weight I xs"
        using p s Requeued by (auto simp: shape_ok_def pipeline_weight_def teardown_weight_def)
      with Cons.IH [of ?q] Cons.prems w False a Requeued show ?thesis by simp
    next
      case Failed
      with Cons.IH [of ?p] Cons.prems p False a show ?thesis by simp
    next
      case (Terminate x)
      have "weight_ok I n (pipeline_state_from p')" if "terminate_pipeline L N H x ?p = Some p'" for p'
        using terminate_weight [OF p(1) that, of I] p(2) Cons.prems(3) by (intro weight_ok_state) simp
      with Terminate False a show ?thesis by (auto simp: weight_ok_def split: option.split)
    qed (use False a in \<open>simp add: weight_ok_def\<close>)
  qed
qed simp

lemma pipeline_eval_weight:
  assumes "shape_ok p"
  shows "weight_ok I (pipeline_weight I p) (pipeline_eval L N H p)"
proof -
  let ?r = "eval_loop L N H (task_queue p) (p\<lparr>task_queue := []\<rparr>)"
  have l: "case ?r of Loop_end p' \<Rightarrow> shape_ok p' \<and> pipeline_weight I p' \<le> pipeline_weight I p
     | Loop_return st \<Rightarrow> weight_ok I (pipeline_weight I p) st"
    using assms by (intro eval_loop_weight) (auto simp: shape_ok_def pipeline_weight_def teardown_weight_def)
  show ?thesis
  proof (cases ?r)
    case (Loop_end p')
    with l execute_teardown_weight [of p' L H I] show ?thesis
      by (auto simp: pipeline_eval_def intro!: weight_ok_state)
  qed (use l in \<open>simp add: pipeline_eval_def\<close>)
qed

lemma digest_answer_weight:
  assumes "shape_ok p" and "is_pending t" and d: "digest_answer L N H t p = Some p'"
  shows "shape_ok p' \<and> pipeline_weight I p' + id_weight I t \<le> pipeline_weight I p + task_weight I t"
proof -
  obtain r ctx where a: "task_apply L N H t (p_ctx p) = (r, ctx)" by force
  let ?p = "p\<lparr>p_ctx := ctx\<rparr>"
  have w: "outcome_weight I r + id_weight I t \<le> task_weight I t" using task_apply_weight [OF a, of I] assms(2) by simp
  have "tracks_calls H (\<lambda>_. UNIV)" by (simp add: tracks_calls_def)
  from answer_effect_task [OF this assms(2) a] have s: "answer_outcome r" by (simp add: answer_effect_def)
  have p: "shape_ok ?p" "pipeline_weight I ?p = pipeline_weight I p"
    using assms(1) by (simp_all add: shape_ok_def pipeline_weight_def teardown_weight_def)
  show ?thesis
  proof (cases r)
    case (Requeued xs)
    let ?q = "?p\<lparr>task_queue := xs @ task_queue p\<rparr>"
    have "shape_ok ?q" "pipeline_weight I ?q = pipeline_weight I p + tasks_weight I xs"
      using p s Requeued by (auto simp: shape_ok_def pipeline_weight_def teardown_weight_def answer_outcome_def)
    with d a Requeued w show ?thesis by (auto simp: digest_answer_def)
  next
    case (Terminate x)
    with d a have "terminate_pipeline L N H x ?p = Some p'" by (simp add: digest_answer_def)
    from terminate_weight [OF p(1) this, of I] p(2) w show ?thesis by simp
  next
    case (Deferred tok pend)
    with s show ?thesis by (simp add: answer_outcome_def)
  qed (use d a p w in \<open>auto simp: digest_answer_def\<close>)
qed

lemma digest_weight:
  assumes "shape_ok p" and t: "map_of (deferred_tasks p) tok = Some t"
    and "digest L N H tok st n p = InProgress p'"
  shows "pipeline_weight I p' + id_weight I t \<le> pipeline_weight I p"
proof -
  let ?q = "p\<lparr>deferred_tasks := bt_remove tok (deferred_tasks p),
      p_ctx := snd (set_grpc_response_data st n (p_ctx p))\<rparr>"
  have pend: "is_pending t" using assms(1) map_of_SomeD [OF t] by (force simp: shape_ok_def)
  have q: "shape_ok ?q" using assms(1) by (auto simp: shape_ok_def bt_remove_def)
  have le: "pipeline_weight I ?q + task_weight I t \<le> pipeline_weight I p"
    using weight_bt_remove [OF t, of I] by (simp add: pipeline_weight_def teardown_weight_def)
  from assms(3) t obtain p1 where d: "digest_answer L N H t ?q = Some p1" and e: "pipeline_eval L N H p1 = InProgress p'"
    by (auto simp: digest_def split: option.splits)
  from digest_answer_weight [OF q pend d, of I] pipeline_eval_weight [of p1 I L N H] e le show ?thesis
    by (auto simp: weight_ok_def)
qed

text \<open>The answers of a run to the calls of the actions with an id in \<open>I\<close>.\<close>

fun answers :: "string set \<Rightarrow> pipeline_event list \<Rightarrow> nat" where
  "answers I (Answered tok (Some i) # evs) = of_bool (i \<in> I) + answers I evs"
| "answers I (_ # evs) = answers I evs"
| "answers I [] = 0"

lemma answers_append [simp]: "answers I (evs @ evs') = answers I evs + answers I evs'"
  by (induction I evs rule: answers.induct) auto

lemma answers_answered: "answers I [Answered tok (task_id t)] = id_weight I t"
  by (cases "task_id t") (simp_all add: id_weight_def)

lemma step_weight:
  assumes "pipeline_step L N H out p ev p'" and "shape_ok p"
  shows "pipeline_weight I p' + answers I [ev] \<le> pipeline_weight I p"
  using assms
proof (cases rule: pipeline_step.cases)
  case evaluate
  with pipeline_eval_weight [OF assms(2), of I L N H] show ?thesis by (simp add: weight_ok_def)
next
  case (response tok t w st n)
  have "deferred_tasks (set_world w p) = deferred_tasks p" by (simp add: set_world_def)
  with digest_weight [of "set_world w p" tok t L N H st n p' I] response assms(2) show ?thesis
    by (simp only: answers_answered set_world_weight)
qed (simp_all add: pipeline_weight_def teardown_weight_def set_world_def)

lemma run_weight:
  assumes T: "token_laws H out"
  shows "pipeline_run L N H out p evs p' \<Longrightarrow> pipeline_inv out p \<Longrightarrow>
    pipeline_weight I p' + answers I evs \<le> pipeline_weight I p"
proof (induction rule: pipeline_run.induct)
  case (step p evs q ev r)
  have "shape_ok q" using pipeline_steps_inv [OF T step.hyps(1) step.prems] inv_shape by blast
  from step_weight [OF step.hyps(2) this, of I] step show ?case by simp
qed simp

text \<open>The calls in flight of the actions with an id in \<open>I\<close>.\<close>

definition calls_in_flight :: "string set \<Rightarrow> 'h pipeline \<Rightarrow> nat" where
  "calls_in_flight I p = length (filter (\<lambda>(_, t). \<exists>i\<in>I. task_id t = Some i) (deferred_tasks p))"

lemma run_calls:
  assumes "token_laws H out" and "pipeline_run L N H out p evs p'" and "pipeline_inv out p"
  shows "answers I evs + calls_in_flight I p' + tasks_weight I (task_queue p') \<le> pipeline_weight I p"
proof -
  have "calls_in_flight I p' \<le> tasks_weight I (map snd (deferred_tasks p'))"
    unfolding calls_in_flight_def id_weights_filter by (rule id_weights_le)
  with run_weight [OF assms, of I] show ?thesis by (simp add: pipeline_weight_def)
qed

section \<open>Waiting for a dependency\<close>

lemma eval_loop_completed:
  "eval_loop L N H ts p = Loop_end p' \<Longrightarrow> completed_tasks p \<subseteq> completed_tasks p'"
proof (induction ts arbitrary: p)
  case (Cons t ts)
  show ?case
  proof (cases "blocked p t")
    case True
    with Cons.prems Cons.IH show ?thesis by fastforce
  next
    case False
    then show ?thesis
      using Cons.prems by (auto simp: complete_task_def defer_task_def split: prod.splits task_outcome.splits
          option.splits dest!: Cons.IH)
  qed
qed simp

text \<open>\<open>with_queued t q p\<close>: \<open>p\<close> is \<open>q\<close> with \<open>t\<close> somewhere in its queue.\<close>

definition with_queued :: "task \<Rightarrow> 'h pipeline \<Rightarrow> 'h pipeline \<Rightarrow> bool" where
  "with_queued t q p = (\<exists>xs ys. task_queue q = xs @ ys \<and> p = q\<lparr>task_queue := xs @ t # ys\<rparr>)"

lemma with_queued_upd:
  assumes "with_queued t q p"
  shows "with_queued t (q\<lparr>p_ctx := c\<rparr>) (p\<lparr>p_ctx := c\<rparr>)"
    "with_queued t (q\<lparr>p_ctx := c, task_queue := task_queue q @ zs\<rparr>) (p\<lparr>p_ctx := c, task_queue := task_queue p @ zs\<rparr>)"
    "with_queued t (q\<lparr>task_queue := task_queue q @ zs\<rparr>) (p\<lparr>task_queue := task_queue p @ zs\<rparr>)"
    "with_queued t (complete_task i q) (complete_task i p)"
    "with_queued t (defer_task tok x q) (defer_task tok x p)"
proof -
  from assms obtain xs ys where q: "task_queue q = xs @ ys" and p: "p = q\<lparr>task_queue := xs @ t # ys\<rparr>"
    by (auto simp: with_queued_def)
  have ex: "with_queued t q1 (q1\<lparr>task_queue := as @ t # bs\<rparr>)" if "task_queue q1 = as @ bs" for as bs and q1 :: "'a pipeline"
    using that by (auto simp: with_queued_def)
  show "with_queued t (q\<lparr>p_ctx := c\<rparr>) (p\<lparr>p_ctx := c\<rparr>)"
    using ex [of "q\<lparr>p_ctx := c\<rparr>" xs ys] q by (cases q) (simp add: p)
  show "with_queued t (q\<lparr>p_ctx := c, task_queue := task_queue q @ zs\<rparr>) (p\<lparr>p_ctx := c, task_queue := task_queue p @ zs\<rparr>)"
    using ex [of "q\<lparr>p_ctx := c, task_queue := task_queue q @ zs\<rparr>" xs "ys @ zs"] q by (cases q) (simp add: p)
  show "with_queued t (q\<lparr>task_queue := task_queue q @ zs\<rparr>) (p\<lparr>task_queue := task_queue p @ zs\<rparr>)"
    using ex [of "q\<lparr>task_queue := task_queue q @ zs\<rparr>" xs "ys @ zs"] q by (cases q) (simp add: p)
  show "with_queued t (complete_task i q) (complete_task i p)"
    using ex [of "complete_task i q" xs ys] q by (cases q; cases i) (simp_all add: p complete_task_def)
  show "with_queued t (defer_task tok x q) (defer_task tok x p)"
    using ex [of "defer_task tok x q" xs ys] q by (cases q) (simp add: p defer_task_def)
qed

lemma eval_loop_with_queued:
  "with_queued t q p \<Longrightarrow> eval_loop L N H ts p = Loop_end p' \<Longrightarrow>
     \<exists>q'. eval_loop L N H ts q = Loop_end q' \<and> with_queued t q' p'"
proof (induction ts arbitrary: p q)
  case (Cons x ts)
  have same: "p_ctx p = p_ctx q" "blocked p x = blocked q x"
    using Cons.prems(1) by (auto simp: with_queued_def blocked_def)
  obtain r ctx where a: "task_apply L N H x (p_ctx q) = (r, ctx)" by force
  note upd = with_queued_upd [OF Cons.prems(1)]
  show ?case
  proof (cases "blocked q x")
    case True
    with Cons.prems(2) same Cons.IH [OF upd(3)] show ?thesis by simp
  next
    case False
    show ?thesis
    proof (cases r)
      case Done
      with Cons.prems(2) same a False Cons.IH [OF with_queued_upd(4) [OF upd(1)]] show ?thesis by simp
    next
      case (Deferred tok y)
      with Cons.prems(2) same a False Cons.IH [OF with_queued_upd(5) [OF upd(1)]] show ?thesis by simp
    next
      case (Requeued ys)
      with Cons.prems(2) same a False Cons.IH [OF upd(2)] show ?thesis by simp
    next
      case Failed
      with Cons.prems(2) same a False Cons.IH [OF upd(1)] show ?thesis by simp
    qed (use Cons.prems(2) same a False in auto)
  qed
qed simp

lemma eval_loop_append:
  "eval_loop L N H (xs @ ys) p =
     (case eval_loop L N H xs p of Loop_end q \<Rightarrow> eval_loop L N H ys q | Loop_return st \<Rightarrow> Loop_return st)"
proof (induction xs arbitrary: p)
  case (Cons x xs)
  then show ?case by (auto split: prod.splits task_outcome.splits)
qed simp

lemma blocked_task_skipped:
  assumes "eval_loop L N H (xs @ t # ys) p = Loop_end p'"
    and "d \<in> set (task_dependencies t)" and "d \<notin> completed_tasks p'"
  shows "\<exists>q. eval_loop L N H (xs @ ys) p = Loop_end q \<and> with_queued t q p'"
proof -
  from assms(1) obtain p1 where p1: "eval_loop L N H xs p = Loop_end p1" and
    r: "eval_loop L N H (t # ys) p1 = Loop_end p'"
    by (auto simp: eval_loop_append split: loop_result.splits)
  from eval_loop_completed [OF r] assms(2,3) have b: "blocked p1 t" by (auto simp: blocked_def list_ex_iff)
  have "with_queued t p1 (p1\<lparr>task_queue := task_queue p1 @ [t]\<rparr>)"
    unfolding with_queued_def by (rule exI [of _ "task_queue p1"], rule exI [of _ "[]"]) simp
  from eval_loop_with_queued [OF this, of L N H ys p'] r b p1 show ?thesis by (simp add: eval_loop_append)
qed

subsection \<open>A dependency that nothing completes\<close>

lemma run_teardown_terminated: "terminated (fold (run_teardown_action L H) as p) = terminated p"
  by (induction as arbitrary: p)
     (simp_all add: run_teardown_action_def defer_task_def split: prod.split teardown_outcome.split)

lemma execute_teardown_terminated: "terminated (execute_teardown L H p) = terminated p"
  by (simp add: execute_teardown_def run_teardown_terminated replace_deferred_with_noop_def)

lemma terminate_terminated: "terminate_pipeline L N H t p = Some p' \<Longrightarrow> terminated p'"
  by (auto simp: terminate_pipeline_def execute_teardown_terminated split: prod.splits task_outcome.splits)

lemma eval_loop_return_terminated:
  "eval_loop L N H ts p = Loop_return (InProgress p') \<Longrightarrow> terminated p'"
proof (induction ts arbitrary: p)
  case (Cons t ts)
  then show ?case
    by (auto split: if_splits prod.splits task_outcome.splits option.splits
        dest!: state_from_InProgress dest: terminate_terminated)
qed simp

lemma eval_loop_end:
  "eval_loop L N H ts p = Loop_end p' \<Longrightarrow>
     terminated p' = terminated p
     \<and> completed_tasks p' \<subseteq> completed_tasks p \<union> {i. \<exists>t \<in> set ts. task_id t = Some i}
     \<and> set (task_queue p) \<subseteq> set (task_queue p')"
proof (induction ts arbitrary: p)
  case (Cons t ts)
  show ?case
  proof (cases "blocked p t")
    case True
    with Cons.prems Cons.IH [of "p\<lparr>task_queue := task_queue p @ [t]\<rparr>"] show ?thesis by auto
  next
    case False
    then show ?thesis
      using Cons.prems by (auto simp: complete_task_def defer_task_def split: prod.splits task_outcome.splits
          option.splits dest!: Cons.IH)
  qed
qed simp

lemma eval_terminated_mono: "pipeline_eval L N H p = InProgress p' \<Longrightarrow> terminated p \<Longrightarrow> terminated p'"
  by (auto simp: pipeline_eval_def execute_teardown_terminated split: loop_result.splits if_splits
      dest!: state_from_InProgress dest: eval_loop_end eval_loop_return_terminated)

subsection \<open>Invariants of a pipeline that is not terminated\<close>

text \<open>A property of the queue and the completed actions that an evaluation keeps, and that taking
  an answer keeps, holds after every run that does not terminate the pipeline.\<close>

locale live_invariant =
  fixes L :: lib and N :: nom and H :: "'h hostcalls" and P :: "'h pipeline \<Rightarrow> bool"
  assumes frame: "P p \<Longrightarrow> P (p\<lparr>p_ctx := c\<rparr>)"
    and eval: "P p \<Longrightarrow> shape_ok p \<Longrightarrow> pipeline_eval L N H p = InProgress p' \<Longrightarrow> \<not> terminated p' \<Longrightarrow> P p'"
    and answer: "P p \<Longrightarrow> shape_ok p \<Longrightarrow> map_of (deferred_tasks p) tok = Some x \<Longrightarrow>
      digest_answer L N H x (p\<lparr>deferred_tasks := bt_remove tok (deferred_tasks p), p_ctx := c\<rparr>) = Some p' \<Longrightarrow>
      \<not> terminated p' \<Longrightarrow> P p'"
begin

lemma digest_keeps:
  assumes p: "P p" and ok: "shape_ok p" and known: "map_of (deferred_tasks p) tok = Some x"
    and e: "digest L N H tok st n p = InProgress p'" and nt: "\<not> terminated p'"
  shows "P p'"
proof -
  let ?q = "p\<lparr>deferred_tasks := bt_remove tok (deferred_tasks p),
      p_ctx := snd (set_grpc_response_data st n (p_ctx p))\<rparr>"
  from e known obtain p1 where a: "digest_answer L N H x ?q = Some p1"
    and e1: "pipeline_eval L N H p1 = InProgress p'" by (auto simp: digest_def split: option.splits)
  have "is_pending x" "shape_ok ?q" using ok map_of_SomeD [OF known] by (force simp: shape_ok_def bt_remove_def)+
  then have "shape_ok p1" using digest_answer_weight a by blast
  moreover have "\<not> terminated p1" using eval_terminated_mono [OF e1] nt by blast
  ultimately show ?thesis using answer [OF p ok known a] eval e1 nt by blast
qed

lemma run_keeps:
  assumes T: "token_laws H out"
  shows "pipeline_run L N H out p evs p' \<Longrightarrow> pipeline_inv out p \<Longrightarrow> P p \<Longrightarrow> \<not> terminated p' \<Longrightarrow> P p'"
proof (induction rule: pipeline_run.induct)
  case (step p evs q ev r)
  have inv: "pipeline_inv out q" using pipeline_steps_inv [OF T step.hyps(1) step.prems(1)] by blast
  have nt: "\<not> terminated q" using pipeline_step_inv [OF T step.hyps(2) inv] step.prems(3) by blast
  have q: "P q" using step nt by blast
  from step.hyps(2) show ?case
  proof (cases rule: pipeline_step.cases)
    case evaluate
    with eval [OF q inv_shape [OF inv]] step.prems(3) show ?thesis by blast
  next
    case (response tok x w st n)
    have "P (set_world w q)" "shape_ok (set_world w q)" "map_of (deferred_tasks (set_world w q)) tok = Some x"
      using frame [OF q] inv_shape [OF inv] response(2) by simp_all (simp_all add: set_world_def)
    with digest_keeps response step.prems(3) show ?thesis by blast
  qed (use frame [OF q] in \<open>simp_all add: set_world_def\<close>)
qed simp

end

text \<open>A task waits for an action that no task of the pipeline can perform.\<close>

definition stuck :: "string \<Rightarrow> task \<Rightarrow> 'h pipeline \<Rightarrow> bool" where
  "stuck d t p = (t \<in> set (task_queue p) \<and> d \<in> set (task_dependencies t) \<and> d \<notin> completed_tasks p
     \<and> pipeline_weight {d} p = 0)"

text \<open>The task of an action waits for the one before it: until the latter is completed it stays
  queued, and no other task performs the action.\<close>

definition waits_for :: "string \<Rightarrow> string \<Rightarrow> task \<Rightarrow> 'h pipeline \<Rightarrow> bool" where
  "waits_for d i t p =
     (d \<in> completed_tasks p
      \<or> t \<in> set (task_queue p) \<and> d \<in> set (task_dependencies t) \<and> task_id t = Some i
        \<and> i \<notin> completed_tasks p \<and> pipeline_weight {i} p \<le> 1)"

lemma task_id_weight: "task_id t = Some d \<Longrightarrow> 0 < task_weight {d} t"
  using id_weight_le [of "{d}" t] by (simp add: id_weight_def)

lemma tasks_weight_pos: "t \<in> set ts \<Longrightarrow> 0 < task_weight I t \<Longrightarrow> 0 < tasks_weight I ts"
  by (induction ts) auto

text \<open>What an evaluation leaves of a task whose dependency is still missing at its end.\<close>

lemma eval_loop_waiting:
  assumes l: "eval_loop L N H ts p = Loop_end p'" and t: "t \<in> set ts" "d \<in> set (task_dependencies t)"
    and d: "d \<notin> completed_tasks p'"
  shows "t \<in> set (task_queue p') \<and> (\<exists>xs ys. ts = xs @ t # ys
    \<and> completed_tasks p' \<subseteq> completed_tasks p \<union> {i. \<exists>x \<in> set (xs @ ys). task_id x = Some i})"
proof -
  obtain xs ys where ts: "ts = xs @ t # ys" using t(1) by (auto dest: split_list)
  from blocked_task_skipped [OF l [unfolded ts] t(2) d] obtain q where
    q: "eval_loop L N H (xs @ ys) p = Loop_end q" "with_queued t q p'" by blast
  with eval_loop_end [OF q(1)] ts show ?thesis by (fastforce simp: with_queued_def)
qed

lemma eval_live:
  assumes "pipeline_eval L N H p = InProgress p'" and "\<not> terminated p'"
  shows "\<exists>p1. eval_loop L N H (task_queue p) (p\<lparr>task_queue := []\<rparr>) = Loop_end p1
    \<and> completed_tasks p' = completed_tasks p1 \<and> (task_queue p1 \<noteq> [] \<longrightarrow> p' = p1)"
proof -
  have c: "completed_tasks (execute_teardown L H q) = completed_tasks q" for q
  proof -
    have "completed_tasks (fold (run_teardown_action L H) as q) = completed_tasks q" for as q
      by (induction as arbitrary: q)
         (simp_all add: run_teardown_action_def defer_task_def split: prod.split teardown_outcome.split)
    then show ?thesis by (simp add: execute_teardown_def replace_deferred_with_noop_def)
  qed
  show ?thesis
  proof (cases "eval_loop L N H (task_queue p) (p\<lparr>task_queue := []\<rparr>)")
    case (Loop_end p1)
    with assms(1) c show ?thesis by (auto simp: pipeline_eval_def split: if_splits dest!: state_from_InProgress)
  next
    case (Loop_return st)
    with assms eval_loop_return_terminated show ?thesis by (simp add: pipeline_eval_def) blast
  qed
qed

text \<open>What taking an answer does to the queue and the completed actions.\<close>

lemma digest_answer_live:
  assumes "digest_answer L N H x p = Some p'" and "\<not> terminated p'"
  shows "set (task_queue p) \<subseteq> set (task_queue p') \<and> completed_tasks p \<subseteq> completed_tasks p'
    \<and> (\<forall>i \<in> completed_tasks p' - completed_tasks p. task_id x = Some i)"
  using assms by (auto simp: digest_answer_def complete_task_def defer_task_def
      split: prod.splits task_outcome.splits option.splits dest: terminate_terminated)

lemma answer_weight:
  assumes ok: "shape_ok p" and known: "map_of (deferred_tasks p) tok = Some x"
    and a: "digest_answer L N H x (p\<lparr>deferred_tasks := bt_remove tok (deferred_tasks p), p_ctx := c\<rparr>) = Some p'"
  shows "pipeline_weight I p' + id_weight I x \<le> pipeline_weight I p"
    "tasks_weight I (task_queue p) + task_weight I x \<le> pipeline_weight I p"
proof -
  let ?q = "p\<lparr>deferred_tasks := bt_remove tok (deferred_tasks p), p_ctx := c\<rparr>"
  have "is_pending x" "shape_ok ?q" using ok map_of_SomeD [OF known] by (force simp: shape_ok_def bt_remove_def)+
  note d = digest_answer_weight [OF this(2,1) a, of I]
  have r: "pipeline_weight I ?q + task_weight I x \<le> pipeline_weight I p"
    using weight_bt_remove [OF known, of I] by (simp add: pipeline_weight_def teardown_weight_def)
  from d r show "pipeline_weight I p' + id_weight I x \<le> pipeline_weight I p" by linarith
  from r show "tasks_weight I (task_queue p) + task_weight I x \<le> pipeline_weight I p" by (simp add: pipeline_weight_def)
qed

interpretation stuck_run: live_invariant L N H "stuck d t" for L :: lib and N :: nom and H :: "'h hostcalls" and d t
proof
  fix p p' :: "'h pipeline"
  assume s: "stuck d t p" and ok: "shape_ok p" and e: "pipeline_eval L N H p = InProgress p'" "\<not> terminated p'"
  have w: "pipeline_weight {d} p' = 0"
    using pipeline_eval_weight [OF ok, of "{d}" L N H] e s by (simp add: weight_ok_def stuck_def)
  from eval_live [OF e] obtain p1 where p1: "eval_loop L N H (task_queue p) (p\<lparr>task_queue := []\<rparr>) = Loop_end p1"
    "task_queue p1 \<noteq> [] \<longrightarrow> p' = p1" by blast
  have "\<forall>x \<in> set (task_queue p). task_id x \<noteq> Some d"
    using s task_id_weight by (fastforce simp: stuck_def pipeline_weight_def)
  with eval_loop_end [OF p1(1)] s have d: "d \<notin> completed_tasks p1" by (auto simp: stuck_def)
  with eval_loop_waiting [OF p1(1)] s have "t \<in> set (task_queue p1)" by (auto simp: stuck_def)
  with p1(2) d w s show "stuck d t p'" by (auto simp: stuck_def)
next
  fix p p' :: "'h pipeline" and tok x c
  assume s: "stuck d t p" and ok: "shape_ok p" and known: "map_of (deferred_tasks p) tok = Some x"
    and a: "digest_answer L N H x (p\<lparr>deferred_tasks := bt_remove tok (deferred_tasks p), p_ctx := c\<rparr>) = Some p'"
    and nt: "\<not> terminated p'"
  note w = answer_weight [OF ok known a, of "{d}"]
  from w s have "task_weight {d} x = 0" by (simp add: stuck_def)
  then have "task_id x \<noteq> Some d" using task_id_weight by fastforce
  with digest_answer_live [OF a nt] w s show "stuck d t p'" by (auto simp: stuck_def)
qed (simp add: stuck_def)

interpretation order_run: live_invariant L N H "waits_for d i t" for L :: lib and N :: nom and H :: "'h hostcalls" and d i t
proof
  fix p p' :: "'h pipeline"
  assume s: "waits_for d i t p" and ok: "shape_ok p" and e: "pipeline_eval L N H p = InProgress p'" "\<not> terminated p'"
  from eval_live [OF e] obtain p1 where p1: "eval_loop L N H (task_queue p) (p\<lparr>task_queue := []\<rparr>) = Loop_end p1"
    "completed_tasks p' = completed_tasks p1" "task_queue p1 \<noteq> [] \<longrightarrow> p' = p1" by blast
  show "waits_for d i t p'"
  proof (cases "d \<in> completed_tasks p1")
    case False
    with eval_loop_completed [OF p1(1)] s have t: "t \<in> set (task_queue p)" "d \<in> set (task_dependencies t)"
      "task_id t = Some i" "i \<notin> completed_tasks p" "pipeline_weight {i} p \<le> 1" by (auto simp: waits_for_def)
    from eval_loop_waiting [OF p1(1) t(1,2) False] obtain xs ys where q: "t \<in> set (task_queue p1)"
      "task_queue p = xs @ t # ys"
      "completed_tasks p1 \<subseteq> completed_tasks p \<union> {i. \<exists>x \<in> set (xs @ ys). task_id x = Some i}" by auto
    have "tasks_weight {i} (xs @ ys) + task_weight {i} t \<le> pipeline_weight {i} p"
      using q(2) by (simp add: pipeline_weight_def)
    with t(5) task_id_weight [OF t(3)] have "tasks_weight {i} (xs @ ys) = 0" by linarith
    then have "\<forall>x \<in> set (xs @ ys). task_id x \<noteq> Some i" using task_id_weight by fastforce
    with q(3) t(4) have "i \<notin> completed_tasks p1" by auto
    moreover have "pipeline_weight {i} p' \<le> 1"
      using pipeline_eval_weight [OF ok, of "{i}" L N H] e t(5) by (auto simp: weight_ok_def)
    moreover have "p' = p1" using q(1) p1(3) by force
    ultimately show ?thesis using q(1) t(2,3) by (simp add: waits_for_def)
  qed (use p1 in \<open>simp add: waits_for_def\<close>)
next
  fix p p' :: "'h pipeline" and tok x c
  assume s: "waits_for d i t p" and ok: "shape_ok p" and known: "map_of (deferred_tasks p) tok = Some x"
    and a: "digest_answer L N H x (p\<lparr>deferred_tasks := bt_remove tok (deferred_tasks p), p_ctx := c\<rparr>) = Some p'"
    and nt: "\<not> terminated p'"
  note w = answer_weight [OF ok known a, of "{i}"] and l = digest_answer_live [OF a nt]
  show "waits_for d i t p'"
  proof (cases "d \<in> completed_tasks p")
    case False
    with s have t: "t \<in> set (task_queue p)" "d \<in> set (task_dependencies t)"
      "task_id t = Some i" "i \<notin> completed_tasks p" "pipeline_weight {i} p \<le> 1" by (auto simp: waits_for_def)
    have "task_weight {i} x = 0" using w(2) t(5) tasks_weight_pos [OF t(1) task_id_weight [OF t(3)]] by linarith
    then have "task_id x \<noteq> Some i" using task_id_weight by fastforce
    with l t w(1) show ?thesis by (auto simp: waits_for_def)
  qed (use l in \<open>auto simp: waits_for_def\<close>)
qed (simp add: waits_for_def)

lemma requires_pause_guards:
  assumes "pipeline_inv out p" and "\<not> terminated p"
  shows "requires_pause p \<longleftrightarrow> guards p > 0"
proof -
  have "unat (count (barrier (p_ctx p))) = guards p" using assms by (simp add: pipeline_inv_def)
  then show ?thesis by (simp add: requires_pause_def is_tripped_def flip: unat_gt_0 word_neq_0_conv)
qed

lemma run_teardown_idle:
  "task_queue (fold (run_teardown_action L H) as p) = task_queue p
   \<and> teardown_tasks (fold (run_teardown_action L H) as p) = teardown_tasks p"
  by (induction as arbitrary: p)
     (simp_all add: run_teardown_action_def defer_task_def split: prod.split teardown_outcome.split)

lemma terminate_idle:
  "terminate_pipeline L N H t p = Some p' \<Longrightarrow> task_queue p' = [] \<and> teardown_tasks p' = [] \<and> terminated p'"
  by (auto simp: terminate_pipeline_def execute_teardown_def run_teardown_idle run_teardown_terminated
      replace_deferred_with_noop_def split: prod.splits task_outcome.splits)

text \<open>A request that is not let through.\<close>

definition not_let_through :: "'h pipeline_state \<Rightarrow> bool" where
  "not_let_through st =
     (case st of InProgress q \<Rightarrow> terminated q | Completed should_resume _ \<Rightarrow> \<not> should_resume | Trapped \<Rightarrow> True)"

lemma terminated_eval:
  "terminate_pipeline L N H t p = Some p' \<Longrightarrow> not_let_through (pipeline_eval L N H p')"
  by (drule terminate_idle) (simp add: eval_idle not_let_through_def pipeline_state_from_def)

text \<open>A pipeline that is left with calls nobody waits for.\<close>

definition idle :: "'h pipeline \<Rightarrow> bool" where
  "idle p = (terminated p \<and> task_queue p = [] \<and> teardown_tasks p = [] \<and> (\<forall>t \<in> snd ` set (deferred_tasks p). is_noop t))"

lemma terminated_idle: "pipeline_inv out p \<Longrightarrow> terminated p \<Longrightarrow> idle p"
  by (simp add: pipeline_inv_def idle_def)

lemma idle_set_world [simp]: "idle (set_world w p) = idle p"
  by (simp add: idle_def set_world_def)

lemma terminated_digest:
  assumes "idle p" and t: "map_of (deferred_tasks p) tok = Some t"
  shows "\<exists>q. digest L N H tok st n p = pipeline_state_from q
    \<and> deferred_tasks q = bt_remove tok (deferred_tasks p) \<and> task_queue q = []
    \<and> terminated q \<and> backend (p_ctx q) = backend (p_ctx p)"
proof -
  have noop: "is_noop t" using assms map_of_SomeD [OF t] by (force simp: idle_def)
  let ?q = "p\<lparr>deferred_tasks := bt_remove tok (deferred_tasks p),
      p_ctx := snd (set_grpc_response_data st n (p_ctx p))\<rparr>"
  let ?r = "complete_task (task_id t) (?q\<lparr>p_ctx := snd (task_apply L N H t (p_ctx ?q))\<rparr>)"
  have a: "task_apply L N H t (p_ctx ?q) = (Done, snd (task_apply L N H t (p_ctx ?q)))"
    using noop_apply(1) [OF noop, of L N H "p_ctx ?q"] by (metis prod.collapse)
  have ans: "digest_answer L N H t ?q = Some ?r" by (subst digest_answer_def, subst a) simp
  have "backend (p_ctx ?q) = backend (p_ctx p)" by (simp add: set_grpc_response_data_def)
  moreover have "p_ctx ?r = snd (task_apply L N H t (p_ctx ?q))" by (simp add: complete_task_def split: option.split)
  ultimately have bk: "backend (p_ctx ?r) = backend (p_ctx p)"
    using noop_apply(2) [OF noop, of L N H "p_ctx ?q"] by metis
  have r: "deferred_tasks ?r = bt_remove tok (deferred_tasks p)" "terminated ?r" "task_queue ?r = []" "teardown_tasks ?r = []"
    using assms(1) by (simp_all add: complete_task_def idle_def split: option.split)
  have "pipeline_eval L N H ?r = pipeline_state_from ?r" using r(3,4) by (intro eval_idle)
  then have "digest L N H tok st n p = pipeline_state_from ?r" using t ans by (simp add: digest_def)
  with r bk show ?thesis by blast
qed

lemma failed_answer:
  assumes "grpc_response_data ctx = None" and "status \<noteq> 0"
  shows "\<exists>ctx'. task_apply L N H (Pending_task i (Process_dynamic s j v as g) g')
      (snd (set_grpc_response_data status n ctx)) = (Failed, ctx')"
  using assms by (simp add: processor_apply_def process_dynamic_response_def set_grpc_response_data_def
      get_grpc_response_data_def ok_or_def)

text \<open>An answer that is met with the default reply.\<close>

lemma denied_answer:
  assumes "task_apply L N H t (p_ctx q) = (terminate_default L, ctx')"
  shows "case digest_answer L N H t q of Some p' \<Rightarrow> not_let_through (pipeline_eval L N H p') | None \<Rightarrow> True"
proof (cases "terminate_default L")
  case (Terminate x)
  with assms have "digest_answer L N H t q = terminate_pipeline L N H x (q\<lparr>p_ctx := ctx'\<rparr>)"
    by (simp add: digest_answer_def)
  with terminated_eval show ?thesis by (auto split: option.split)
next
  case No_return
  with assms show ?thesis by (simp add: digest_answer_def)
qed (use terminate_default_cases [of L] in auto)

section \<open>Properties\<close>

text \<open>C1: the barrier counts exactly the guard calls in flight: however a request's pipeline has
  run, unless it was terminated early it is paused exactly as long as the answer to some guard
  is outstanding, and the barrier neither underflows nor wraps around.\<close>

theorem paused_iff_guard_in_flight:
  assumes "token_laws H in_flight" and "fresh_pipeline p" and "pipeline_run L N H in_flight p evs p'"
    and "\<not> terminated p'"
  shows "unat (count (barrier (p_ctx p'))) = guards p'
    \<and> (requires_pause p' \<longleftrightarrow> (\<exists>(token, t) \<in> set (deferred_tasks p'). lowers_barrier t))"
proof -
  have c: "unat (count (barrier (p_ctx p'))) = guards p'"
    using pipeline_run_inv [OF assms(1-3)] assms(4) by (simp add: pipeline_inv_def)
  have "requires_pause p' \<longleftrightarrow> guards p' > 0"
    using pipeline_run_inv [OF assms(1-3)] assms(4) by (rule requires_pause_guards)
  also have "\<dots> \<longleftrightarrow> (\<exists>(token, t) \<in> set (deferred_tasks p'). lowers_barrier t)"
    by (auto simp: guards_def filter_empty_conv)
  finally show ?thesis using c by blast
qed

lemma run_evaluate: "pipeline_eval L N H p = InProgress p' \<Longrightarrow> pipeline_run L N H out p [Evaluated] p'"
  using pipeline_run.step [OF pipeline_run.start pipeline_step.evaluate, of L N H p p' out] by simp

lemma flow_run:
  "\<exists>ctx'. pipeline_run flow_lib N flow_host flow_calls
     (flow_pipeline [Failure_mode (Dynamic (flow_task ''0'' [] [])) True]) [Evaluated]
     ((flow_pipeline [])\<lparr>p_ctx := ctx', deferred_tasks :=
        [(7, Failure_mode (Pending_task ''0'' (Process_dynamic demo_service ''0'' ''r'' [] True) True) True)]\<rparr>)"
  using flow_start [of N "''0''" True] run_evaluate by fastforce

theorem paused_iff_guard_in_flight_witness:
  "\<exists>p'. pipeline_run flow_lib nom_ref flow_host flow_calls
      (flow_pipeline [Failure_mode (Dynamic (flow_task ''0'' [] [])) True]) [Evaluated] p'
    \<and> map fst (deferred_tasks p') = [7] \<and> requires_pause p'"
proof -
  from flow_run [of nom_ref] obtain p' where
    r: "pipeline_run flow_lib nom_ref flow_host flow_calls
      (flow_pipeline [Failure_mode (Dynamic (flow_task ''0'' [] [])) True]) [Evaluated] p'"
    and d: "deferred_tasks p' =
      [(7, Failure_mode (Pending_task ''0'' (Process_dynamic demo_service ''0'' ''r'' [] True) True) True)]"
    and t: "\<not> terminated p'"
    by (force simp: flow_pipeline_def with_tasks_def pipeline_new_def)
  have f: "fresh_pipeline (flow_pipeline [Failure_mode (Dynamic (flow_task ''0'' [] [])) True])"
    by (rule flow_fresh) simp
  from paused_iff_guard_in_flight [OF flow_token_laws f r t] d have "requires_pause p'" by simp
  with r d show ?thesis by auto
qed


text \<open>C11: a request leads to a bounded number of calls, in total and for each action: whatever
  set \<open>I\<close> of action ids is counted, however the pipeline runs, the answers it digests to calls
  of these actions and the calls of theirs still in flight together are at most the gRPC actions of
  its tasks with such ids (those nested in replies included), and the exports of its teardown
  if their ids are counted.  With all ids this bounds the calls of a request, with one id it says
  that an action is called at most as often as it occurs.\<close>

theorem answers_bounded:
  assumes "token_laws H in_flight" and "fresh_pipeline p" and "pipeline_run L N H in_flight p evs p'"
  shows "answers I evs + calls_in_flight I p'
      \<le> tasks_weight I (task_queue p) + (if I \<inter> teardown_ids = {} then 0 else length (teardown_tasks p))"
  using run_calls [OF assms(1,3) fresh_inv, of I] assms(2)
  by (simp add: pipeline_weight_def teardown_weight_def fresh_pipeline_def)

theorem answers_bounded_witness:
  "\<exists>p'. pipeline_run flow_lib nom_ref flow_host flow_calls
      (flow_pipeline [Failure_mode (Dynamic (flow_task ''0'' [] [])) True]) [Evaluated] p'
    \<and> calls_in_flight {''0''} p' \<le> 1"
proof -
  from flow_run [of nom_ref] obtain p' where
    r: "pipeline_run flow_lib nom_ref flow_host flow_calls
      (flow_pipeline [Failure_mode (Dynamic (flow_task ''0'' [] [])) True]) [Evaluated] p'" by blast
  have f: "fresh_pipeline (flow_pipeline [Failure_mode (Dynamic (flow_task ''0'' [] [])) True])"
    by (rule flow_fresh) simp
  from answers_bounded [OF flow_token_laws f r, of "{''0''}"] r show ?thesis
    by (auto simp: flow_pipeline_def with_tasks_def pipeline_new_def flow_task_def split: if_splits)
qed

text \<open>C9: once a pipeline is terminated it does nothing but wait: evaluating it changes nothing,
  an answer to one of its calls only takes that call off the list (no task runs, nothing is sent
  to the host), and when the last answer is in the pipeline completes without resuming the
  request.\<close>

theorem terminated_pipeline_inert:
  assumes "token_laws H in_flight" and "fresh_pipeline p" and "pipeline_run L N H in_flight p evs p'"
    and "terminated p'" and "map_of (deferred_tasks p') tok \<noteq> None"
  shows "pipeline_eval L N H p' = InProgress p'
    \<and> (\<exists>q. digest L N H tok st n p' = pipeline_state_from q
          \<and> deferred_tasks q = bt_remove tok (deferred_tasks p') \<and> task_queue q = []
          \<and> terminated q \<and> backend (p_ctx q) = backend (p_ctx p'))
    \<and> (map fst (deferred_tasks p') = [tok] \<longrightarrow>
        digest L N H tok st n p' = Completed False (backend (p_ctx p')))"
proof -
  have inv: "pipeline_inv in_flight p'" using pipeline_run_inv [OF assms(1-3)] .
  obtain t where t: "map_of (deferred_tasks p') tok = Some t" using assms(5) by blast
  have "pipeline_eval L N H p' = pipeline_state_from p'" using inv assms(4) by (rule eval_terminated)
  moreover have "deferred_tasks p' \<noteq> []" using t by auto
  ultimately have e: "pipeline_eval L N H p' = InProgress p'" by (simp add: pipeline_state_from_def)
  obtain q where q: "digest L N H tok st n p' = pipeline_state_from q" "deferred_tasks q = bt_remove tok (deferred_tasks p')"
    "task_queue q = []" "terminated q" "backend (p_ctx q) = backend (p_ctx p')"
    using terminated_digest [OF terminated_idle [OF inv assms(4)] t] by blast
  have "bt_remove tok (deferred_tasks p') = []" if "map fst (deferred_tasks p') = [tok]"
    using that by (auto simp: bt_remove_def filter_empty_conv)
  then have "digest L N H tok st n p' = Completed False (backend (p_ctx p'))" if "map fst (deferred_tasks p') = [tok]"
    using that q by (simp add: pipeline_state_from_def)
  with e q show ?thesis by blast
qed

theorem terminated_pipeline_inert_witness:
  "\<exists>p'. pipeline_run flow_lib nom_ref flow_host flow_calls flow_denied [Evaluated] p' \<and> terminated p'
     \<and> digest flow_lib nom_ref flow_host 7 0 0 p' = Completed False (backend (p_ctx p'))"
proof -
  obtain p' where e: "pipeline_eval flow_lib nom_ref flow_host flow_denied = InProgress p'"
    and t: "terminated p'" and k: "map fst (deferred_tasks p') = [7]"
    by (rule exE [OF flow_terminates [of nom_ref]]) (elim conjE, rule that)
  from e have r: "pipeline_run flow_lib nom_ref flow_host flow_calls flow_denied [Evaluated] p'" by (rule run_evaluate)
  have f: "fresh_pipeline flow_denied" unfolding flow_denied_def by (rule flow_fresh) simp
  obtain x where "deferred_tasks p' = [(7, x)]" using k by (cases "deferred_tasks p'") auto
  then have "map_of (deferred_tasks p') 7 \<noteq> None" by simp
  from terminated_pipeline_inert [OF flow_token_laws f r t this, where st = 0 and n = 0] k
  have "digest flow_lib nom_ref flow_host 7 0 0 p' = Completed False (backend (p_ctx p'))" by simp
  with r t show ?thesis by blast
qed






text \<open>A task that waits for a field of the response body.\<close>

lemma flow_eval_waiting:
  assumes "response_body_values ctx = []"
  shows "\<exists>c'. expression_eval flow_lib flow_host (flow_expr EUnspecified [k]) ctx c = (Ok Pending, ctx, c')"
  using assms by (simp add: expression_eval_def flow_expr_def ensure_attributes_def build_data_map_def host_paths_def
      attribute_map_new_def Let_def request_with_grpc_def eval_with_map_def get_response_body_value_def)

lemma flow_waiting:
  assumes "response_body_values ctx = []" and "map_of (w_cel_envs (backend ctx)) 0 = Some []"
  shows "dynamic_apply flow_lib flow_host (flow_task i deps [k]) ctx =
    (if is_end_of_stream ctx then Failed else Requeued [Dynamic (flow_task i deps [k])], ctx)"
proof -
  obtain c' where "expression_eval flow_lib flow_host (flow_expr EUnspecified [k]) ctx (cel_context_default\<lparr>cc_env := Some []\<rparr>)
      = (Ok Pending, ctx, c')" using flow_eval_waiting [OF assms(1)] by blast
  with flow_env [OF assms(2)] show ?thesis
    by (simp add: dynamic_apply_def predicates_apply_def flow_task_def dynamic_dispatch_def requeue_or_fail_def)
qed


end
