(* ===== verification/Blueprint.thy ===== *)
theory Blueprint
  imports Pipeline_Runs
begin

text \<open>
  \<^verbatim>\<open>src/kuadrant/pipeline/blueprint.rs\<close>: a blueprint is the compiled form of an action set, and
  every request that selects it gets fresh tasks from it.
\<close>

record blueprint =
  bp_name :: string
  bp_route_predicates :: "predicate list"
  bp_actions :: "action list"

datatype compile_error =
    InvalidRoutePredicate string string
  | InvalidActionPredicate string string
  | InvalidDataExpression string
  | UnknownService string
  | ServiceCreationFailed string

definition compile_error_display :: "compile_error \<Rightarrow> string" where
  "compile_error_display e =
     (case e of
        InvalidRoutePredicate action_set error \<Rightarrow> ''Invalid route predicate on '' @ action_set @ '': '' @ error
      | InvalidActionPredicate service error \<Rightarrow> ''Invalid action predicate on '' @ service @ '': '' @ error
      | InvalidDataExpression msg \<Rightarrow> ''Invalid data expression: '' @ msg
      | UnknownService srv \<Rightarrow> ''Unknown service: '' @ srv
      | ServiceCreationFailed srv \<Rightarrow> ''Service creation failed: '' @ srv)"

section \<open>Compiling actions\<close>

text \<open>The service an invalid predicate is reported for.\<close>

definition operation_service :: "config_operation \<Rightarrow> string" where
  "operation_service op =
     (case op of
        Grpc_op _ service _ _ \<Rightarrow> service
      | Deny_op _ \<Rightarrow> ''deny''
      | Headers_op _ _ \<Rightarrow> ''headers''
      | Store_op _ _ _ \<Rightarrow> ''store''
      | Fail_op _ \<Rightarrow> ''fail'')"

definition data_expression :: "lib \<Rightarrow> string \<Rightarrow> (expression, compile_error) result" where
  "data_expression L source = map_err InvalidDataExpression (expression_new L source)"

definition nested_id :: "string \<Rightarrow> nat \<Rightarrow> string" where
  "nested_id i idx = i @ ''.'' @ show_nat idx"

definition previous :: "(nat \<Rightarrow> string) \<Rightarrow> nat \<Rightarrow> string list" where
  "previous name i = (if i > 0 then [name (i - 1)] else [])"

lemma enumerate_member: "(i, x) \<in> set (enumerate n xs) \<Longrightarrow> x \<in> set xs"
  by (auto simp: in_set_enumerate_eq intro!: nth_mem)

function compile_typed ::
  "lib \<Rightarrow> (string \<times> service_instance) list \<Rightarrow> string \<Rightarrow> string list \<Rightarrow> typed_action
     \<Rightarrow> (action, compile_error) result"
where
  "compile_typed L services i dependencies (TypedAction pred terminal is_guard sources op) =
     (case predicate_new L pred of
        Err e \<Rightarrow> Err (InvalidActionPredicate (operation_service op) e)
      | Ok predicate \<Rightarrow>
          bind_result
            (case op of
               Grpc_op var service message_builder on_reply \<Rightarrow>
                 (case map_of services service of
                    None \<Rightarrow> Err (UnknownService service)
                  | Some instance' \<Rightarrow>
                      if service_of instance' = None
                      then Err (ServiceCreationFailed (''Service '' @ [CHR 0x27] @ service @ [CHR 0x27] @ '' cannot be used with gRPC action''))
                      else bind_result
                        (collect_results
                           (\<lambda>(idx, a). compile_typed L services (nested_id i idx) (previous (nested_id i) idx) a)
                           (enumerate 0 on_reply))
                        (\<lambda>on_reply. bind_result
                           (map_err (\<lambda>e. InvalidDataExpression (''Failed to compile message_builder: '' @ e))
                              (expression_new L message_builder))
                           (\<lambda>message_builder. Ok (Op_Grpc instance' var message_builder on_reply))))
             | Deny_op deny_with \<Rightarrow> bind_result (data_expression L deny_with) (\<lambda>e. Ok (Op_Deny e))
             | Headers_op target hs \<Rightarrow>
                 bind_result (data_expression L hs)
                   (\<lambda>e. Ok (Op_Headers (case target of Request_target \<Rightarrow> Http_request_headers
                                        | Response_target \<Rightarrow> Http_response_headers) e))
             | Store_op p v export_to_host \<Rightarrow>
                 bind_result (data_expression L v) (\<lambda>e. Ok (Op_Store p e export_to_host))
             | Fail_op log_message \<Rightarrow> Ok (Op_Fail log_message))
            (\<lambda>operation. Ok (Action i predicate terminal operation dependencies sources is_guard)))"
  by pat_completeness auto

termination compile_typed
  by (relation "measure (\<lambda>(L, services, i, deps, a). size a)")
     (auto dest!: enumerate_member simp: less_Suc_eq_le intro!: le_SucI size_list_estimation')

definition compile_action ::
  "lib \<Rightarrow> legacy_action \<Rightarrow> (string \<times> service_instance) list \<Rightarrow> string \<Rightarrow> string list
     \<Rightarrow> ((string \<times> string) \<times> string) list \<Rightarrow> (action, compile_error) result"
where
  "compile_action L config services i dependencies rdata =
     (case map_of services (la_service config) of
        None \<Rightarrow> Err (UnknownService (la_service config))
      | Some service \<Rightarrow>
          bind_result
            (case service of
               SI_Auth _ \<Rightarrow> Ok (translate_legacy_auth_to_typed config rdata)
             | SI_RateLimit _ \<Rightarrow> Ok (translate_legacy_ratelimit_to_typed config rdata)
             | SI_RateLimitCheck _ \<Rightarrow> Ok (translate_legacy_ratelimit_to_typed config rdata)
             | SI_RateLimitReport _ \<Rightarrow> Ok (translate_legacy_report_to_typed config rdata)
             | _ \<Rightarrow> Err (ServiceCreationFailed
                        (''Legacy config not supported for service type: '' @ la_service config)))
            (compile_typed L services i dependencies))"

definition compile_config ::
  "lib \<Rightarrow> (string \<times> service_instance) list \<Rightarrow> request_data list \<Rightarrow> nat \<times> action_config
     \<Rightarrow> (action, compile_error) result"
where
  "compile_config L services rdata ia =
     (case ia of (i, action_config) \<Rightarrow>
        case action_config of
          Legacy action \<Rightarrow>
            compile_action L action services (show_nat i) (previous show_nat i)
              (map (\<lambda>(key, expr). (key, expr_source expr)) rdata)
        | Typed typed \<Rightarrow> compile_typed L services (show_nat i) (previous show_nat i) typed)"

definition blueprint_compile ::
  "lib \<Rightarrow> action_set \<Rightarrow> (string \<times> service_instance) list \<Rightarrow> request_data list
     \<Rightarrow> (blueprint, compile_error) result"
where
  "blueprint_compile L config services rdata =
     (case collect_results (predicate_new L) (as_predicates config) of
        Err e \<Rightarrow> Err (InvalidRoutePredicate (as_name config) e)
      | Ok route_predicates \<Rightarrow>
          bind_result (collect_results (compile_config L services rdata) (enumerate 0 (as_actions config)))
            (\<lambda>actions. Ok \<lparr>bp_name = as_name config, bp_route_predicates = route_predicates, bp_actions = actions\<rparr>))"

section \<open>The body fields of an action\<close>

text \<open>The \<^verbatim>\<open>HashSet\<close> as a list without duplicates; nothing depends on its order.\<close>

definition response_body_values :: "predicate \<Rightarrow> string list" where
  "response_body_values p = expr_response_body_values (pred_expression p)"

fun collect_body_values :: "request_data list \<Rightarrow> action \<Rightarrow> string list"
  and reply_body_values :: "action \<Rightarrow> string list" where
  "collect_body_values rdata (Action _ pr _ op _ _ _) =
     remdups (response_body_values pr
       @ concat (map (\<lambda>(_, expr). expr_response_body_values expr) rdata)
       @ (case op of
            Op_Grpc _ _ message_builder on_reply \<Rightarrow>
              expr_response_body_values message_builder @ concat (map reply_body_values on_reply)
          | Op_Deny deny_with \<Rightarrow> expr_response_body_values deny_with
          | Op_Headers _ hs \<Rightarrow> expr_response_body_values hs
          | Op_Store _ e _ \<Rightarrow> expr_response_body_values e
          | Op_Fail _ \<Rightarrow> []))"
| "reply_body_values (Action _ pr _ op _ _ _) =
     response_body_values pr
       @ (case op of
            Op_Grpc _ _ message_builder nested_reply \<Rightarrow>
              expr_response_body_values message_builder @ concat (map (collect_body_values []) nested_reply)
          | Op_Deny deny_with \<Rightarrow> expr_response_body_values deny_with
          | Op_Headers _ hs \<Rightarrow> expr_response_body_values hs
          | Op_Store _ e _ \<Rightarrow> expr_response_body_values e
          | Op_Fail _ \<Rightarrow> [])"

section \<open>Tasks of a request\<close>

definition is_tracing_action :: "action \<Rightarrow> bool" where
  "is_tracing_action a =
     (case act_operation a of Op_Grpc (SI_Tracing (Some _)) _ _ _ \<Rightarrow> True | _ \<Rightarrow> False)"

definition span_label :: "service_instance \<Rightarrow> string" where
  "span_label s =
     (case s of
        SI_Auth _ \<Rightarrow> ''auth''
      | SI_RateLimit _ \<Rightarrow> ''ratelimit''
      | SI_RateLimitCheck _ \<Rightarrow> ''ratelimit''
      | SI_RateLimitReport _ \<Rightarrow> ''ratelimit_report''
      | _ \<Rightarrow> ''dynamic'')"

text \<open>What one action adds to the tasks and to the teardown.\<close>

definition action_tasks ::
  "lib \<Rightarrow> 'h hostcalls \<Rightarrow> bool \<Rightarrow> request_data list \<Rightarrow> action \<Rightarrow> 'h req_resp_ctx
     \<Rightarrow> task list \<times> teardown_action list \<times> 'h req_resp_ctx"
where
  "action_tasks L H tracing_enabled rdata a ctx =
     (case act_operation a of
        Op_Grpc service var message_builder on_reply \<Rightarrow>
          (let abort_on_failure = (instance_failure_mode service = Mode_Deny) in
           case service_of service of
             None \<Rightarrow>
               (case request_id H (set_public_tracker_id var ctx) of
                  (rid, ctx) \<Rightarrow>
                    let t = Modify_headers (modify_headers_new (Append_op [(var, rid)]) Http_response_headers)
                    in case service of
                         SI_Tracing (Some s) \<Rightarrow> (case export_traces_new H s ctx of (e, ctx) \<Rightarrow> ([t], [e], ctx))
                       | _ \<Rightarrow> ([t], [], ctx))
           | Some dynamic_service \<Rightarrow>
               let body_values = collect_body_values rdata a in
               case new_with_attributes L H
                      \<lparr>dt_task_id = act_id a, dt_service = dynamic_service, dt_name = var,
                       dt_message_builder = message_builder, dt_on_reply = on_reply,
                       dt_predicates = [act_predicate a], dt_dependencies = act_dependencies a,
                       dt_is_guard = act_is_guard a\<rparr> ctx of
                 (d, ctx) \<Rightarrow>
                   let t = Failure_mode (Dynamic d) abort_on_failure in
                   ((if body_values = [] then [] else [Token_usage (with_expected_response_fields body_values)])
                    @ [if tracing_enabled then Tracing_decorator t False (span_label service) (act_sources a) else t],
                    [], ctx))
      | Op_Deny deny_with \<Rightarrow>
          ([Send_reply (send_reply_new_deferred (act_predicate a) deny_with (act_terminal a))], [], ctx)
      | Op_Headers target headers_expr \<Rightarrow>
          ([Modify_headers (modify_headers_new_deferred (act_predicate a) headers_expr target (act_terminal a))], [], ctx)
      | Op_Store p e export_to_host \<Rightarrow>
          ([Store (store_new_deferred (act_predicate a) e p export_to_host (act_terminal a))], [], ctx)
      | Op_Fail _ \<Rightarrow> ([], [], ctx))"

fun tasks_of_actions ::
  "lib \<Rightarrow> 'h hostcalls \<Rightarrow> bool \<Rightarrow> request_data list \<Rightarrow> action list \<Rightarrow> 'h req_resp_ctx
     \<Rightarrow> task list \<times> teardown_action list \<times> 'h req_resp_ctx"
where
  "tasks_of_actions L H tracing_enabled rdata [] ctx = ([], [], ctx)"
| "tasks_of_actions L H tracing_enabled rdata (a # as) ctx =
     (case action_tasks L H tracing_enabled rdata a ctx of
        (ts, es, ctx) \<Rightarrow>
          case tasks_of_actions L H tracing_enabled rdata as ctx of
            (ts', es', ctx) \<Rightarrow> (ts @ ts', es @ es', ctx))"

definition to_tasks ::
  "lib \<Rightarrow> 'h hostcalls \<Rightarrow> blueprint \<Rightarrow> request_data list \<Rightarrow> 'h req_resp_ctx
     \<Rightarrow> task list \<times> teardown_action list \<times> 'h req_resp_ctx"
where
  "to_tasks L H bp rdata ctx =
     tasks_of_actions L H (list_ex is_tracing_action (bp_actions bp)) rdata (bp_actions bp) ctx"

section \<open>The ids of actions\<close>

abbreviation dot_char :: char where "dot_char \<equiv> CHR 0x2E"

definition digit_chars :: "char set" where
  "digit_chars = {c. 48 \<le> (of_char c :: nat) \<and> of_char c < (58 :: nat)}"

lemma of_digit: "n < 10 \<Longrightarrow> of_char (char_of (n + 48) :: char) = n + 48" for n :: nat
  by simp

lemma digit_char_inj:
  fixes m n :: nat
  assumes "m < 10" and "n < 10" and "char_of (m + 48) = (char_of (n + 48) :: char)"
  shows "m = n"
  using of_digit [OF assms(1)] of_digit [OF assms(2)] assms(3) by simp

lemma show_nat_digits: "set (show_nat n) \<subseteq> digit_chars \<and> show_nat n \<noteq> []"
proof (induction n rule: show_nat.induct)
  case (1 n)
  show ?case
    using 1 of_digit [of n] of_digit [of "n mod 10"] by (simp add: show_nat.simps [of n] digit_chars_def)
qed

lemma digit_not_dot: "dot_char \<notin> digit_chars"
  by (simp add: digit_chars_def)

lemma show_nat_inj: "show_nat m = show_nat n \<Longrightarrow> m = n"
proof (induction m arbitrary: n rule: show_nat.induct)
  case (1 m)
  have ne: "show_nat k \<noteq> []" for k using show_nat_digits by blast
  show ?case
  proof (cases "m < 10"; cases "n < 10")
    assume "m < 10" "n < 10"
    with 1(2) digit_char_inj show ?thesis by (simp add: show_nat.simps)
  next
    assume "\<not> m < 10" "\<not> n < 10"
    with 1(2) have "show_nat (m div 10) = show_nat (n div 10)" "char_of (m mod 10 + 48) = (char_of (n mod 10 + 48) :: char)"
      by (simp_all add: show_nat.simps [of m] show_nat.simps [of n])
    with 1(1) \<open>\<not> m < 10\<close> digit_char_inj [of "m mod 10" "n mod 10"] have "m div 10 = n div 10" "m mod 10 = n mod 10" by simp_all
    then show ?thesis by (metis div_mult_mod_eq)
  qed (use 1(2) ne [of "m div 10"] ne [of "n div 10"] in \<open>simp_all add: show_nat.simps [of m] show_nat.simps [of n]\<close>)
qed

text \<open>An id and those below it: \<open>0.1\<close> and \<open>0.1.2\<close>.\<close>

definition below :: "string \<Rightarrow> string \<Rightarrow> bool" where
  "below i j = (j = i \<or> prefix (i @ ''.'') j)"

lemma below_cases:
  assumes "below (base @ n) j"
  obtains "j = base @ n" | r where "j = base @ n @ dot_char # r"
  using assms by (auto simp: below_def prefix_def)

lemma number_until_dot:
  "takeWhile ((\<noteq>) dot_char) (show_nat k) = show_nat k"
  "takeWhile ((\<noteq>) dot_char) (show_nat k @ dot_char # r) = show_nat k"
proof -
  have d: "\<And>c. c \<in> set (show_nat k) \<Longrightarrow> dot_char \<noteq> c" using show_nat_digits [of k] digit_not_dot by blast
  then show "takeWhile ((\<noteq>) dot_char) (show_nat k) = show_nat k" by (simp only: takeWhile_eq_all_conv) blast
  from takeWhile_append2 [of "show_nat k" "(\<noteq>) dot_char" "dot_char # r"] d
  show "takeWhile ((\<noteq>) dot_char) (show_nat k @ dot_char # r) = show_nat k" by simp
qed

lemma below_number:
  assumes "below (base @ show_nat k) j"
  shows "takeWhile ((\<noteq>) dot_char) (drop (length base) j) = show_nat k"
  using assms
proof (cases rule: below_cases)
  case 1
  then show ?thesis by (simp add: number_until_dot(1))
next
  case (2 r)
  then show ?thesis by (simp add: number_until_dot(2))
qed

lemma below_disjoint:
  assumes "below (base @ show_nat k) j" and "below (base @ show_nat k') j"
  shows "k = k'"
  by (rule show_nat_inj) (rule trans [OF below_number [OF assms(1), symmetric] below_number [OF assms(2)]])

fun action_ids :: "action \<Rightarrow> string list" where
  "action_ids (Action i _ _ op _ _ _) =
     i # (case op of Op_Grpc _ _ _ on_reply \<Rightarrow> concat (map action_ids on_reply) | _ \<Rightarrow> [])"

lemma compile_typed_Ok:
  assumes "compile_typed L services i deps (TypedAction pr tm g so op) = Ok a"
  shows "\<exists>pred op'. a = Action i pred tm op' deps so g
    \<and> (case op of
          Grpc_op var service mb on_reply \<Rightarrow>
            \<exists>inst e as. op' = Op_Grpc inst var e as \<and> service_of inst \<noteq> None \<and> collect_results
              (\<lambda>(idx, a). compile_typed L services (nested_id i idx) (previous (nested_id i) idx) a)
              (enumerate 0 on_reply) = Ok as
        | _ \<Rightarrow> (\<forall>inst v e as. op' \<noteq> Op_Grpc inst v e as))"
  using assms by (cases op) (auto simp: bind_result_eq_Ok split: result.splits option.splits if_splits)

declare compile_typed.simps [simp del]

lemma ids_of_numbered:
  assumes "\<And>k. k < length as \<Longrightarrow> distinct (action_ids (as ! k))
      \<and> (\<forall>j \<in> set (action_ids (as ! k)). below (base @ show_nat k) j)"
  shows "distinct (concat (map action_ids as))"
  using assms
proof (induction as rule: rev_induct)
  case (snoc a as)
  have prev: "distinct (concat (map action_ids as))"
    using snoc.prems by (intro snoc.IH) (metis length_append_singleton less_SucI nth_append)
  have new: "distinct (action_ids a)" "\<forall>j \<in> set (action_ids a). below (base @ show_nat (length as)) j"
    using snoc.prems [of "length as"] by simp_all
  have "k = length as" if "j \<in> set (action_ids (as ! k))" "j \<in> set (action_ids a)" "k < length as" for k j
    using snoc.prems [of k] that new(2) below_disjoint [of base k j "length as"] by (simp add: nth_append)
  then have "set (action_ids a) \<inter> set (action_ids x) = {}" if "x \<in> set as" for x
    using that by (metis disjoint_iff in_set_conv_nth nat_neq_iff)
  with prev new(1) show ?case by auto
qed simp

lemma below_trans: "below (nested_id i k) j \<Longrightarrow> below i j"
  by (auto simp: below_def nested_id_def prefix_def)

lemma compile_typed_ids:
  "compile_typed L services i deps t = Ok a \<Longrightarrow>
     act_id a = i \<and> act_dependencies a = deps
     \<and> distinct (action_ids a) \<and> (\<forall>j \<in> set (action_ids a). below i j)"
proof (induction t arbitrary: i deps a rule: measure_induct_rule [of size])
  case (less t)
  obtain pr tm g so op where t: "t = TypedAction pr tm g so op" by (cases t)
  from compile_typed_Ok [OF less(2) [unfolded t]] obtain pred op' where a: "a = Action i pred tm op' deps so g"
    and op': "case op of
          Grpc_op var service mb on_reply \<Rightarrow>
            \<exists>inst e as. op' = Op_Grpc inst var e as \<and> service_of inst \<noteq> None \<and> collect_results
              (\<lambda>(idx, a). compile_typed L services (nested_id i idx) (previous (nested_id i) idx) a)
              (enumerate 0 on_reply) = Ok as
        | _ \<Rightarrow> (\<forall>inst v e as. op' \<noteq> Op_Grpc inst v e as)" by blast
  show ?case
  proof (cases op')
    case (Op_Grpc inst var e as)
    with op' obtain service mb on_reply where op: "op = Grpc_op var service mb on_reply" and r: "collect_results
        (\<lambda>(idx, a). compile_typed L services (nested_id i idx) (previous (nested_id i) idx) a)
        (enumerate 0 on_reply) = Ok as" by (auto split: config_operation.splits)
    have nested: "distinct (action_ids (as ! k)) \<and> (\<forall>j \<in> set (action_ids (as ! k)). below (nested_id i k) j)"
      if "k < length as" for k
    proof -
      have l: "length as = length on_reply" using collect_results_length [OF r] by simp
      from collect_results_nth [OF r, of k] that l
      have "compile_typed L services (nested_id i k) (previous (nested_id i) k) (on_reply ! k) = Ok (as ! k)"
        by (simp add: nth_enumerate_eq)
      moreover have "size (on_reply ! k) < size t"
        using that l by (auto simp: t op less_Suc_eq_le intro!: le_SucI size_list_estimation' [of "on_reply ! k"])
      ultimately show ?thesis using less(1) by blast
    qed
    have "distinct (concat (map action_ids as))"
      using nested by (intro ids_of_numbered [of as "i @ ''.''"]) (simp add: nested_id_def)
    moreover have strict: "below i j \<and> j \<noteq> i" if "j \<in> set (concat (map action_ids as))" for j
    proof -
      from that obtain x where "x \<in> set as" "j \<in> set (action_ids x)" by auto
      then obtain k where "below (nested_id i k) j" using nested by (metis in_set_conv_nth)
      then show ?thesis by (auto simp: below_def nested_id_def prefix_def)
    qed
    ultimately show ?thesis using a Op_Grpc by (auto simp: below_def)
  qed (use a in \<open>auto simp: below_def\<close>)
qed

definition blueprint_ids :: "blueprint \<Rightarrow> string list" where
  "blueprint_ids bp = concat (map action_ids (bp_actions bp))"

definition number_ids :: "string set" where
  "number_ids = {i. \<exists>k. below (show_nat k) i}"

lemma number_id_digit: "i \<in> number_ids \<Longrightarrow> i \<noteq> [] \<and> hd i \<in> digit_chars"
proof -
  assume "i \<in> number_ids"
  then obtain k r where "i = show_nat k @ r" by (auto simp: number_ids_def below_def prefix_def)
  with show_nat_digits [of k] show ?thesis by (cases "show_nat k") auto
qed

lemma number_ids_other: "number_ids \<inter> teardown_ids = {}" "''kuadrant.devMode'' \<notin> number_ids"
  using number_id_digit by (fastforce simp: teardown_ids_def digit_chars_def)+

lemma compile_config_ids:
  assumes "compile_config L services rdata (k, c) = Ok a"
  shows "act_id a = show_nat k \<and> act_dependencies a = previous show_nat k
    \<and> distinct (action_ids a) \<and> (\<forall>j \<in> set (action_ids a). below (show_nat k) j)"
proof -
  from assms obtain t where "compile_typed L services (show_nat k) (previous show_nat k) t = Ok a"
    by (auto simp: compile_config_def compile_action_def bind_result_eq_Ok split: action_config.splits option.splits)
  then show ?thesis by (rule compile_typed_ids)
qed

lemma blueprint_compile_nth:
  assumes "blueprint_compile L cfg services rdata = Ok bp" and "k < length (bp_actions bp)"
  shows "compile_config L services rdata (k, as_actions cfg ! k) = Ok (bp_actions bp ! k)"
proof -
  from assms(1) have r: "collect_results (compile_config L services rdata) (enumerate 0 (as_actions cfg)) = Ok (bp_actions bp)"
    by (auto simp: blueprint_compile_def bind_result_eq_Ok split: result.splits)
  from collect_results_nth [OF r, of k] collect_results_length [OF r] assms(2) show ?thesis
    by (simp add: nth_enumerate_eq)
qed

lemma blueprint_compile_ids:
  assumes "blueprint_compile L cfg services rdata = Ok bp"
  shows "distinct (blueprint_ids bp)" "set (blueprint_ids bp) \<subseteq> number_ids"
    "k < length (bp_actions bp) \<Longrightarrow>
       act_id (bp_actions bp ! k) = show_nat k \<and> act_dependencies (bp_actions bp ! k) = previous show_nat k"
proof -
  note n = compile_config_ids [OF blueprint_compile_nth [OF assms]]
  show "distinct (blueprint_ids bp)"
    unfolding blueprint_ids_def using n by (intro ids_of_numbered [of _ "[]"]) simp
  show "set (blueprint_ids bp) \<subseteq> number_ids"
    using n by (fastforce simp: blueprint_ids_def number_ids_def in_set_conv_nth)
  show "act_id (bp_actions bp ! k) = show_nat k \<and> act_dependencies (bp_actions bp ! k) = previous show_nat k"
    if "k < length (bp_actions bp)" using n [OF that] by blast
qed

section \<open>What the tasks of a blueprint can lead to\<close>

lemma action_weight_ids: "action_weight I a \<le> length (filter (\<lambda>i. i \<in> I) (action_ids a))"
proof (induction a rule: measure_induct_rule [of size])
  case (less a)
  obtain i pr tm op ds so g where a: "a = Action i pr tm op ds so g" by (cases a)
  show ?case
  proof (cases op)
    case (Op_Grpc inst v e as)
    have "actions_weight I xs \<le> length (filter (\<lambda>i. i \<in> I) (concat (map action_ids xs)))" if "set xs \<subseteq> set as" for xs
      using that
    proof (induction xs)
      case (Cons x xs)
      then have "size x < size a"
        by (auto simp: a Op_Grpc less_Suc_eq_le intro!: le_SucI trans_le_add1 size_list_estimation' [of x])
      with less(1) [of x] Cons show ?case by simp
    qed simp
    with a Op_Grpc show ?thesis by simp
  qed (use a in simp_all)
qed

lemma actions_weight_ids: "actions_weight I as \<le> length (filter (\<lambda>i. i \<in> I) (concat (map action_ids as)))"
  by (induction as) (auto intro: add_mono action_weight_ids)

lemma export_traces_new_control: "export_traces_new H s ctx = (e, ctx') \<Longrightarrow> same_control ctx ctx'"
  using enter_request_span_control by (auto simp: export_traces_new_def)

lemma tracker_id_control: "request_id H (set_public_tracker_id v ctx) = (i, ctx') \<Longrightarrow> same_control ctx ctx'"
  by (drule request_id_control) (simp add: set_public_tracker_id_def same_control_def)

lemma new_with_attributes_same:
  "new_with_attributes L H t ctx = (t', ctx') \<Longrightarrow> t' = t \<and> same_control ctx ctx'"
  using new_with_attributes_quiet [of L H t ctx t' ctx' "\<lambda>_. {}"] by (simp add: quiet_def)

lemma action_tasks_facts:
  assumes "action_tasks L H b rdata a ctx = (ts, es, ctx')"
  shows "tasks_weight I ts \<le> action_weight I a \<and> (\<forall>t \<in> set ts. \<not> is_pending t) \<and> same_control ctx ctx'"
proof -
  obtain i pr tm op ds so g where a: "a = Action i pr tm op ds so g" by (cases a)
  show ?thesis
  proof (cases op)
    case (Op_Grpc inst v e as)
    show ?thesis
    proof (cases "service_of inst")
      case None
      with assms a Op_Grpc show ?thesis
        by (auto simp: action_tasks_def Let_def service_of_def split: prod.splits service_instance.splits option.splits
            dest!: tracker_id_control export_traces_new_control intro: same_control_trans)
    next
      case (Some s)
      with assms a Op_Grpc show ?thesis
        by (auto simp: action_tasks_def Let_def split: prod.splits if_splits dest!: new_with_attributes_same)
    qed
  qed (use assms a in \<open>auto simp: action_tasks_def\<close>)
qed

lemma action_tasks_grpc:
  assumes "action_tasks L H b rdata a ctx = (ts, es, ctx')"
    and "act_operation a = Op_Grpc inst v e as" and "service_of inst \<noteq> None"
  shows "\<exists>t \<in> set ts. task_id t = Some (act_id a) \<and> task_dependencies t = act_dependencies a"
  using assms by (auto simp: action_tasks_def Let_def split: prod.splits if_splits dest!: new_with_attributes_same)

lemma tasks_of_actions_facts:
  "tasks_of_actions L H b rdata as ctx = (ts, es, ctx') \<Longrightarrow>
     tasks_weight I ts \<le> actions_weight I as \<and> (\<forall>t \<in> set ts. \<not> is_pending t) \<and> same_control ctx ctx'"
proof (induction as arbitrary: ctx ts es)
  case (Cons a as)
  obtain ts1 es1 ctx1 where t1: "action_tasks L H b rdata a ctx = (ts1, es1, ctx1)" by (metis prod_cases3)
  obtain ts2 es2 ctx2 where t2: "tasks_of_actions L H b rdata as ctx1 = (ts2, es2, ctx2)" by (metis prod_cases3)
  have "ts = ts1 @ ts2" "ctx' = ctx2" using Cons.prems t1 t2 by simp_all
  with action_tasks_facts [OF t1, of I] Cons.IH [of ctx1 ts2 es2] t2 show ?case
    by (auto intro: same_control_trans)
qed simp

lemma tasks_of_actions_grpc:
  assumes "act_operation a = Op_Grpc inst v e bs" and "service_of inst \<noteq> None"
  shows "tasks_of_actions L H b rdata as ctx = (ts, es, ctx') \<Longrightarrow> a \<in> set as \<Longrightarrow>
    \<exists>t \<in> set ts. task_id t = Some (act_id a) \<and> task_dependencies t = act_dependencies a"
proof (induction as arbitrary: ctx ts es)
  case (Cons x as)
  obtain ts1 es1 ctx1 where t1: "action_tasks L H b rdata x ctx = (ts1, es1, ctx1)" by (metis prod_cases3)
  obtain ts2 es2 ctx2 where t2: "tasks_of_actions L H b rdata as ctx1 = (ts2, es2, ctx2)" by (metis prod_cases3)
  have ts: "ts = ts1 @ ts2" "ctx' = ctx2" using Cons.prems t1 t2 by simp_all
  show ?case
  proof (cases "a = x")
    case True
    with action_tasks_grpc [OF t1] assms ts show ?thesis by auto
  next
    case False
    with Cons.IH [of ctx1 ts2 es2] Cons.prems t2 ts show ?thesis by auto
  qed
qed simp

text \<open>The pipeline a request gets from a blueprint.\<close>

definition request_pipeline ::
  "lib \<Rightarrow> 'h hostcalls \<Rightarrow> blueprint \<Rightarrow> request_data list \<Rightarrow> 'h req_resp_ctx \<Rightarrow> 'h pipeline"
where
  "request_pipeline L H bp rdata ctx =
     (case to_tasks L H bp rdata ctx of
        (tasks, teardown, ctx') \<Rightarrow> with_teardown_tasks teardown (with_tasks tasks (pipeline_new ctx')))"

lemma request_pipeline_facts:
  assumes p_def: "p = request_pipeline L H bp rdata ctx"
  shows "barrier ctx = Barrier 0 \<Longrightarrow> grpc_response_data ctx = None \<Longrightarrow> fresh_pipeline p"
    "completed_tasks p = {}"
    "I \<inter> teardown_ids = {} \<Longrightarrow> pipeline_weight I p \<le> actions_weight I (bp_actions bp)"
    "a \<in> set (bp_actions bp) \<Longrightarrow> act_operation a = Op_Grpc inst v e as \<Longrightarrow> service_of inst \<noteq> None \<Longrightarrow>
      \<exists>t \<in> set (task_queue p). task_id t = Some (act_id a) \<and> task_dependencies t = act_dependencies a"
proof -
  obtain ts es ctx' where t: "tasks_of_actions L H (list_ex is_tracing_action (bp_actions bp)) rdata (bp_actions bp) ctx
      = (ts, es, ctx')" by (metis prod_cases3)
  note f = tasks_of_actions_facts [OF t]
  have p: "p = with_teardown_tasks es (with_tasks ts (pipeline_new ctx'))"
    by (simp add: p_def request_pipeline_def to_tasks_def t)
  show "barrier ctx = Barrier 0 \<Longrightarrow> grpc_response_data ctx = None \<Longrightarrow> fresh_pipeline p"
    using f by (simp add: p fresh_pipeline_def with_teardown_tasks_def with_tasks_def pipeline_new_def same_control_def)
  show "completed_tasks p = {}" by (simp add: p with_teardown_tasks_def with_tasks_def pipeline_new_def)
  show "I \<inter> teardown_ids = {} \<Longrightarrow> pipeline_weight I p \<le> actions_weight I (bp_actions bp)"
    using f [of I] by (simp add: p pipeline_weight_def teardown_weight_def with_teardown_tasks_def with_tasks_def pipeline_new_def)
  show "a \<in> set (bp_actions bp) \<Longrightarrow> act_operation a = Op_Grpc inst v e as \<Longrightarrow> service_of inst \<noteq> None \<Longrightarrow>
      \<exists>t \<in> set (task_queue p). task_id t = Some (act_id a) \<and> task_dependencies t = act_dependencies a"
    using tasks_of_actions_grpc [OF _ _ t] by (simp add: p with_teardown_tasks_def with_tasks_def pipeline_new_def)
qed

lemma distinct_filter_le: "distinct xs \<Longrightarrow> length (filter (\<lambda>x. x \<in> {y}) xs) = of_bool (y \<in> set xs)"
  by (induction xs) auto

lemma request_weight:
  assumes "distinct (blueprint_ids bp)" and "i \<notin> teardown_ids"
  shows "pipeline_weight {i} (request_pipeline L H bp rdata ctx) \<le> of_bool (i \<in> set (blueprint_ids bp))"
proof -
  have "pipeline_weight {i} (request_pipeline L H bp rdata ctx) \<le> actions_weight {i} (bp_actions bp)"
    using assms(2) by (intro request_pipeline_facts(3) [OF refl]) simp
  also have "\<dots> \<le> length (filter (\<lambda>x. x \<in> {i}) (blueprint_ids bp))"
    unfolding blueprint_ids_def by (rule actions_weight_ids)
  also have "\<dots> = of_bool (i \<in> set (blueprint_ids bp))" using assms(1) by (rule distinct_filter_le)
  finally show ?thesis .
qed

lemma called_at_most_once:
  assumes T: "token_laws H out" and ctx: "barrier ctx = Barrier 0" "grpc_response_data ctx = None"
    and d: "distinct (blueprint_ids bp)" and i: "i \<notin> teardown_ids"
    and r: "pipeline_run L N H out (request_pipeline L' H' bp rdata ctx) evs p'"
  shows "answers {i} evs + calls_in_flight {i} p' + tasks_weight {i} (task_queue p') \<le> of_bool (i \<in> set (blueprint_ids bp))"
  using run_calls [OF T r fresh_inv [OF request_pipeline_facts(1) [OF refl ctx]], of "{i}"]
    request_weight [OF d i, of L' H' rdata ctx] by linarith

text \<open>The task of a gRPC action of a blueprint whose dependency no task of the request performs
  stays queued; one whose dependency is missing is queued, and its action has not been called.\<close>

lemma waits_forever:
  assumes T: "token_laws H out" and ctx: "barrier ctx = Barrier 0" "grpc_response_data ctx = None"
    and a: "a \<in> set (bp_actions bp)" "act_operation a = Op_Grpc inst v e as" "service_of inst \<noteq> None"
    and d: "d \<in> set (act_dependencies a)" "actions_weight {d} (bp_actions bp) = 0" "d \<notin> teardown_ids"
    and r: "pipeline_run L N H out (request_pipeline L' H' bp rdata ctx) evs p'" and nt: "\<not> terminated p'"
  shows "(\<exists>t \<in> set (task_queue p'). task_id t = Some (act_id a)) \<and> d \<notin> completed_tasks p'"
proof -
  let ?p = "request_pipeline L' H' bp rdata ctx"
  note f = request_pipeline_facts [OF refl]
  from f(4) [OF a] obtain t where t: "t \<in> set (task_queue ?p)" "task_id t = Some (act_id a)"
    "task_dependencies t = act_dependencies a" by blast
  have "pipeline_weight {d} ?p = 0" using f(3) [of "{d}" L' H' bp rdata ctx] d(2,3) by simp
  then have "stuck d t ?p" using t d(1) f(2) [of L' H' bp rdata ctx] by (simp add: stuck_def)
  from stuck_run.run_keeps [OF T r fresh_inv [OF f(1) [OF ctx]] this nt] t(2) show ?thesis by (auto simp: stuck_def)
qed

lemma called_after_dependency:
  assumes T: "token_laws H out" and ctx: "barrier ctx = Barrier 0" "grpc_response_data ctx = None"
    and a: "a \<in> set (bp_actions bp)" "act_operation a = Op_Grpc inst v e as" "service_of inst \<noteq> None"
    and d: "d \<in> set (act_dependencies a)" and ids: "distinct (blueprint_ids bp)" "act_id a \<notin> teardown_ids"
    and r: "pipeline_run L N H out (request_pipeline L' H' bp rdata ctx) evs p'" and nt: "\<not> terminated p'"
    and c: "act_id a \<in> completed_tasks p' \<or> 0 < answers {act_id a} evs + calls_in_flight {act_id a} p'"
  shows "d \<in> completed_tasks p'"
proof (rule ccontr)
  assume nd: "d \<notin> completed_tasks p'"
  let ?p = "request_pipeline L' H' bp rdata ctx"
  note f = request_pipeline_facts [OF refl]
  from f(4) [OF a] obtain t where t: "t \<in> set (task_queue ?p)" "task_id t = Some (act_id a)"
    "task_dependencies t = act_dependencies a" by blast
  have "pipeline_weight {act_id a} ?p \<le> 1"
    using request_weight [OF ids, of L' H' rdata ctx] by (simp add: of_bool_def split: if_splits)
  then have "waits_for d (act_id a) t ?p" using t d f(2) [of L' H' bp rdata ctx] by (simp add: waits_for_def)
  from order_run.run_keeps [OF T r fresh_inv [OF f(1) [OF ctx]] this nt] nd
  have q: "t \<in> set (task_queue p')" "act_id a \<notin> completed_tasks p'" by (auto simp: waits_for_def)
  with called_at_most_once [OF T ctx ids r] tasks_weight_pos [OF q(1) task_id_weight [OF t(2)]] c
  show False by (simp add: of_bool_def split: if_splits)
qed

lemma compile_config_grpc:
  assumes "compile_config L services rdata c = Ok a" and "act_operation a = Op_Grpc inst v e as"
  shows "service_of inst \<noteq> None"
proof -
  from assms(1) obtain i deps t where t: "compile_typed L services i deps t = Ok a"
    by (auto simp: compile_config_def compile_action_def bind_result_eq_Ok
        split: action_config.splits option.splits prod.splits)
  obtain pr tm g so op where "t = TypedAction pr tm g so op" by (cases t)
  with compile_typed_Ok [of L services i deps pr tm g so op a] t assms(2) show ?thesis
    by (cases op) auto
qed

lemma plain_action_weight:
  assumes d: "distinct (blueprint_ids bp)" and k: "k < length (bp_actions bp)"
    and op: "\<forall>inst v e as. act_operation (bp_actions bp ! k) \<noteq> Op_Grpc inst v e as"
  shows "actions_weight {act_id (bp_actions bp ! k)} (bp_actions bp) = 0"
proof -
  let ?a = "bp_actions bp ! k"
  from id_take_nth_drop [OF k] obtain xs ys where as: "bp_actions bp = xs @ ?a # ys" by blast
  have hd: "act_id ?a \<in> set (action_ids ?a)" by (cases ?a) simp
  have ids: "concat (map action_ids (xs @ ?a # ys)) = blueprint_ids bp" by (simp add: blueprint_ids_def as [symmetric])
  with d have "distinct (concat (map action_ids (xs @ ?a # ys)))" by simp
  with hd have "act_id ?a \<notin> set (concat (map action_ids (xs @ ys)))" by auto
  then have "filter (\<lambda>i. i \<in> {act_id ?a}) (concat (map action_ids (xs @ ys))) = []" by (auto simp: filter_empty_conv)
  with actions_weight_ids [of "{act_id ?a}" "xs @ ys"] have "actions_weight {act_id ?a} (xs @ ys) = 0" by simp
  moreover have "action_weight {act_id ?a} ?a = 0"
    using op by (cases ?a; cases "act_operation ?a") auto
  ultimately have "actions_weight {act_id ?a} (xs @ ?a # ys) = 0" by simp
  then show ?thesis using as by metis
qed

lemma show_nat_not_teardown: "show_nat k \<notin> teardown_ids"
  using number_ids_other(1) by (auto simp: number_ids_def below_def)

lemma predecessor_completed:
  assumes T: "token_laws H out" and bp: "blueprint_compile L cfg services rdata = Ok bp"
    and ctx: "barrier ctx = Barrier 0" "grpc_response_data ctx = None"
    and r: "pipeline_run L' N H out (request_pipeline L'' H' bp rdata' ctx) evs p'" and nt: "\<not> terminated p'"
    and k: "Suc k < length (bp_actions bp)" "act_operation (bp_actions bp ! Suc k) = Op_Grpc inst v e as"
    and c: "show_nat (Suc k) \<in> completed_tasks p' \<or>
      0 < answers {show_nat (Suc k)} evs + calls_in_flight {show_nat (Suc k)} p'"
  shows "show_nat k \<in> completed_tasks p' \<and> (\<exists>inst v e as. act_operation (bp_actions bp ! k) = Op_Grpc inst v e as)"
proof -
  let ?a = "bp_actions bp ! Suc k"
  note ids = blueprint_compile_ids [OF bp]
  have dep: "act_id ?a = show_nat (Suc k)" "act_dependencies ?a = [show_nat k]" "act_id (bp_actions bp ! k) = show_nat k"
    using ids(3) [OF k(1)] ids(3) [of k] k(1) by (simp_all add: previous_def)
  note inst = compile_config_grpc [OF blueprint_compile_nth [OF bp k(1)] k(2)]
  have completed: "show_nat k \<in> completed_tasks p'"
    using called_after_dependency [OF T ctx nth_mem [OF k(1)] k(2) inst _ ids(1) _ r nt, of "show_nat k"] dep c
      show_nat_not_teardown by simp
  moreover have False if "\<forall>inst v e as. act_operation (bp_actions bp ! k) \<noteq> Op_Grpc inst v e as"
    using waits_forever [OF T ctx nth_mem [OF k(1)] k(2) inst _ _ _ r nt, of "show_nat k"] dep completed
      plain_action_weight [OF ids(1) _ that] k(1) show_nat_not_teardown by simp
  ultimately show ?thesis by blast
qed

subsection \<open>Body fields\<close>

fun operation_expression :: "operation \<Rightarrow> expression option" where
  "operation_expression (Op_Grpc _ _ e _) = Some e"
| "operation_expression (Op_Deny e) = Some e"
| "operation_expression (Op_Headers _ e) = Some e"
| "operation_expression (Op_Store _ e _) = Some e"
| "operation_expression (Op_Fail _) = None"

text \<open>An action and all the actions below it.\<close>

fun all_actions :: "action \<Rightarrow> action list" where
  "all_actions (Action i pr tm op ds so g) = Action i pr tm op ds so g #
     (case op of Op_Grpc _ _ _ on_reply \<Rightarrow> concat (map all_actions on_reply) | _ \<Rightarrow> [])"

definition own_fields :: "action \<Rightarrow> string set" where
  "own_fields a = set (response_body_values (act_predicate a))
     \<union> (case operation_expression (act_operation a) of Some e \<Rightarrow> set (expr_response_body_values e) | None \<Rightarrow> {})"

lemma collect_body_values_fields:
  "set (collect_body_values rdata a)
     = (\<Union>(_, e) \<in> set rdata. set (expr_response_body_values e)) \<union> (\<Union>x \<in> set (all_actions a). own_fields x)"
  "set (reply_body_values a) = (\<Union>x \<in> set (all_actions a). own_fields x)"
proof (induction rdata a and a rule: collect_body_values_reply_body_values.induct)
  case (1 rdata i pr tm op ds so g)
  then show ?case by (cases op) (auto simp: own_fields_def)
next
  case (2 i pr tm op ds so g)
  then show ?case by (cases op) (auto simp: own_fields_def)
qed

section \<open>Properties\<close>

text \<open>C14: a gRPC action that follows a deny, headers, store or fail action in an action set is
  never called: it depends on the id of its predecessor, and the tasks of these kinds have no id
  to complete.  Whatever happens to the request, unless it is terminated, the action's task stays
  queued and no call of it is ever made.\<close>

theorem grpc_after_plain_action_never_called:
  assumes "token_laws H in_flight" and "blueprint_compile L cfg services rdata = Ok bp"
    and "Suc k < length (bp_actions bp)"
    and "\<forall>inst v e as. act_operation (bp_actions bp ! k) \<noteq> Op_Grpc inst v e as"
    and "act_operation (bp_actions bp ! Suc k) = Op_Grpc inst v e as"
    and "barrier ctx = Barrier 0" and "grpc_response_data ctx = None"
    and "pipeline_run L N H in_flight (request_pipeline L H bp rdata ctx) evs p'" and "\<not> terminated p'"
  shows "answers {show_nat (Suc k)} evs = 0 \<and> calls_in_flight {show_nat (Suc k)} p' = 0
    \<and> (\<exists>t \<in> set (task_queue p'). task_id t = Some (show_nat (Suc k)))"
proof -
  let ?a = "bp_actions bp ! Suc k"
  note ids = blueprint_compile_ids [OF assms(2)]
  have dep: "act_id ?a = show_nat (Suc k)" "act_dependencies ?a = [show_nat k]" "act_id (bp_actions bp ! k) = show_nat k"
    using ids(3) [OF assms(3)] ids(3) [of k] assms(3) by (simp_all add: previous_def)
  note free = show_nat_not_teardown
  have inst: "service_of inst \<noteq> None"
    using compile_config_grpc [OF blueprint_compile_nth [OF assms(2,3)] assms(5)] .
  have "actions_weight {show_nat k} (bp_actions bp) = 0"
    using plain_action_weight [OF ids(1) _ assms(4)] assms(3) dep(3) by simp
  then obtain t where t: "t \<in> set (task_queue p')" "task_id t = Some (show_nat (Suc k))"
    using waits_forever [OF assms(1,6,7) nth_mem [OF assms(3)] assms(5) inst _ _ free assms(8,9)] dep by auto
  have "0 < tasks_weight {show_nat (Suc k)} (task_queue p')"
    using t(1) task_id_weight [OF t(2)] by (rule tasks_weight_pos)
  with called_at_most_once [OF assms(1,6,7) ids(1) free [of "Suc k"] assms(8)]
  have "answers {show_nat (Suc k)} evs + calls_in_flight {show_nat (Suc k)} p' = 0"
    by (simp add: of_bool_def split: if_splits)
  with t show ?thesis by auto
qed

definition plain_config :: action_set where
  "plain_config = \<lparr>as_name = ''a'', as_hostnames = [''h''], as_predicates = [],
     as_actions = [Typed (TypedAction [] False False [] (Headers_op Request_target [])),
       Typed (TypedAction [] False True [] (Grpc_op ''r'' ''s'' [] []))]\<rparr>"

definition plain_blueprint :: blueprint where
  "plain_blueprint = \<lparr>bp_name = ''a'', bp_route_predicates = [],
     bp_actions = [Action ''0'' (Predicate (flow_expr EUnspecified [])) False
         (Op_Headers Http_request_headers (flow_expr EUnspecified [])) [] [] False,
       Action ''1'' (Predicate (flow_expr EUnspecified [])) False
         (Op_Grpc (SI_Dynamic demo_service) ''r'' (flow_expr EUnspecified []) []) [''0''] [] True]\<rparr>"

lemma flow_expression_new: "expression_new flow_lib [] = Ok (flow_expr EUnspecified [])"
  by (simp add: expression_new_def new_expression_def flow_lib_def demo_lib_def flow_expr_def Let_def
      List.map_filter_def)

lemma show_nat_small [simp]: "show_nat 0 = ''0''" "show_nat (Suc 0) = ''1''"
  by (simp_all add: show_nat.simps char_of_def bit_simps)

lemma plain_compile:
  "blueprint_compile flow_lib plain_config [(''s'', SI_Dynamic demo_service)] [] = Ok plain_blueprint"
  by (simp add: blueprint_compile_def plain_config_def plain_blueprint_def compile_config_def compile_typed.simps
      predicate_new_def flow_expression_new data_expression_def previous_def service_of_def enumerate_Suc_eq)

lemma flow_test:
  "\<exists>e. predicate_test flow_lib flow_host (Predicate (flow_expr EUnspecified [])) ctx = (Err e, ctx)"
proof -
  obtain c' where "expression_eval flow_lib flow_host (flow_expr EUnspecified []) ctx cel_context_default
      = (Ok (Available (VStruct ''M'' [])), ctx, c')" using flow_eval by blast
  then show ?thesis by (simp add: predicate_test_def test_with_ctx_def)
qed

lemma flow_gate:
  "predicate_gate flow_lib flow_host (Some (Predicate (flow_expr EUnspecified []))) ctx = (Gate_failed, ctx)"
  using flow_test [of ctx] by (auto simp: predicate_gate_def)

definition plain_headers :: task where
  "plain_headers = Modify_headers \<lparr>mh_predicate = Some (Predicate (flow_expr EUnspecified [])),
     mh_mode = Headers_deferred (flow_expr EUnspecified []), mh_target = Http_request_headers, mh_terminal = False\<rparr>"

definition plain_grpc :: task where
  "plain_grpc = Failure_mode (Dynamic \<lparr>dt_task_id = ''1'', dt_service = demo_service, dt_name = ''r'',
      dt_message_builder = flow_expr EUnspecified [], dt_on_reply = [],
      dt_predicates = [Predicate (flow_expr EUnspecified [])], dt_dependencies = [''0''], dt_is_guard = True\<rparr>) True"

text \<open>A pipeline with tasks of the blueprint that has not done anything yet.\<close>

definition plain_pipeline :: "task list \<Rightarrow> 'h pipeline \<Rightarrow> bool" where
  "plain_pipeline ts p = (task_queue p = ts \<and> deferred_tasks p = [] \<and> completed_tasks p = {}
     \<and> teardown_tasks p = [] \<and> \<not> terminated p)"

lemma plain_start:
  "plain_pipeline [plain_headers, plain_grpc] (request_pipeline flow_lib flow_host plain_blueprint [] ctx)
   \<and> same_control ctx (p_ctx (request_pipeline flow_lib flow_host plain_blueprint [] ctx))"
proof -
  let ?d = "\<lparr>dt_task_id = ''1'', dt_service = demo_service, dt_name = ''r'',
      dt_message_builder = flow_expr EUnspecified [], dt_on_reply = [],
      dt_predicates = [Predicate (flow_expr EUnspecified [])], dt_dependencies = [''0''], dt_is_guard = True\<rparr>"
  obtain d ctx1 where n: "new_with_attributes flow_lib flow_host ?d ctx = (d, ctx1)" by force
  then have "d = ?d" "same_control ctx ctx1" by (auto dest: new_with_attributes_same)
  with n show ?thesis
    by (simp add: request_pipeline_def to_tasks_def plain_blueprint_def action_tasks_def Let_def service_of_def
        is_tracing_action_def response_body_values_def flow_expr_def [of _ "[]"] plain_pipeline_def plain_headers_def
        plain_grpc_def with_teardown_tasks_def with_tasks_def pipeline_new_def instance_failure_mode_def demo_service_def)
qed

lemma plain_eval:
  assumes "plain_pipeline ts p" and "ts = [plain_headers, plain_grpc] \<or> ts = [plain_grpc]"
  shows "\<exists>p'. pipeline_eval flow_lib N flow_host p = InProgress p' \<and> plain_pipeline [plain_grpc] p' \<and> p_ctx p' = p_ctx p"
proof -
  have b: "blocked q plain_grpc \<and> \<not> blocked q plain_headers" if "completed_tasks q = {}" for q :: "bool pipeline"
    using that by (simp add: blocked_def plain_grpc_def plain_headers_def)
  have h: "task_apply flow_lib N flow_host plain_headers ctx = (Failed, ctx)" for ctx
    by (simp add: plain_headers_def modify_headers_apply_def flow_gate with_gate_def)
  show ?thesis
    using assms by (elim disjE) (simp_all add: pipeline_eval_def plain_pipeline_def b h pipeline_state_from_def)
qed

theorem grpc_after_plain_action_never_called_witness:
  "\<exists>p'. pipeline_run flow_lib nom_ref flow_host flow_calls
      (request_pipeline flow_lib flow_host plain_blueprint [] flow_ctx) [Evaluated] p'
    \<and> \<not> terminated p' \<and> (\<exists>t \<in> set (task_queue p'). task_id t = Some ''1'')"
proof -
  obtain p' where e: "pipeline_eval flow_lib nom_ref flow_host
      (request_pipeline flow_lib flow_host plain_blueprint [] flow_ctx) = InProgress p'" and nt: "\<not> terminated p'"
    using plain_eval [OF conjunct1 [OF plain_start [of flow_ctx]] disjI1 [OF refl], of nom_ref]
    unfolding plain_pipeline_def by blast
  from e have r: "pipeline_run flow_lib nom_ref flow_host flow_calls
      (request_pipeline flow_lib flow_host plain_blueprint [] flow_ctx) [Evaluated] p'" by (rule run_evaluate)
  have ctx: "barrier flow_ctx = Barrier 0" "grpc_response_data flow_ctx = None"
    by (simp_all add: flow_ctx_def req_resp_ctx_new_def)
  have "\<exists>t \<in> set (task_queue p'). task_id t = Some (show_nat (Suc 0))"
    using grpc_after_plain_action_never_called [OF flow_token_laws plain_compile _ _ _ ctx r nt, of 0]
    by (simp add: plain_blueprint_def)
  with r nt show ?thesis by auto
qed


text \<open>A service whose failures are allowed, two actions that call it, and a third one that waits.\<close>

definition allowed_service :: dynamic_service where
  "allowed_service = demo_service\<lparr>ds_failure_mode := Mode_Allow\<rparr>"

definition order_config :: action_set where
  "order_config = \<lparr>as_name = ''a'', as_hostnames = [''h''], as_predicates = [],
     as_actions = [Typed (TypedAction [] False True [] (Grpc_op ''r'' ''s'' [] [])),
       Typed (TypedAction [] False True [] (Grpc_op ''r'' ''s'' [] [])),
       Typed (TypedAction [] False False [] (Headers_op Request_target [])),
       Typed (TypedAction [] False True [] (Grpc_op ''r'' ''s'' [] []))]\<rparr>"

definition order_action :: "string \<Rightarrow> string list \<Rightarrow> action" where
  "order_action i deps = Action i (Predicate (flow_expr EUnspecified [])) False
     (Op_Grpc (SI_Dynamic allowed_service) ''r'' (flow_expr EUnspecified []) []) deps [] True"

definition order_blueprint :: blueprint where
  "order_blueprint = \<lparr>bp_name = ''a'', bp_route_predicates = [],
     bp_actions = [order_action ''0'' [], order_action ''1'' [''0''],
       Action ''2'' (Predicate (flow_expr EUnspecified [])) False
         (Op_Headers Http_request_headers (flow_expr EUnspecified [])) [''1''] [] False,
       order_action ''3'' [''2'']]\<rparr>"

definition order_task :: "string \<Rightarrow> string list \<Rightarrow> task" where
  "order_task i deps = Failure_mode (Dynamic \<lparr>dt_task_id = i, dt_service = allowed_service, dt_name = ''r'',
      dt_message_builder = flow_expr EUnspecified [], dt_on_reply = [],
      dt_predicates = [Predicate (flow_expr EUnspecified [])], dt_dependencies = deps, dt_is_guard = True\<rparr>) False"

lemma order_compile:
  "blueprint_compile flow_lib order_config [(''s'', SI_Dynamic allowed_service)] [] = Ok order_blueprint"
proof -
  have "show_nat 2 = ''2''" "show_nat 3 = ''3''" by (simp_all add: show_nat.simps char_of_def bit_simps)
  then show ?thesis
    by (simp add: blueprint_compile_def order_config_def order_blueprint_def order_action_def compile_config_def
        compile_typed.simps predicate_new_def flow_expression_new data_expression_def previous_def service_of_def
        enumerate_Suc_eq numeral_eq_Suc)
qed

lemma order_action_tasks:
  "\<exists>ctx'. action_tasks flow_lib flow_host b [] (order_action i deps) ctx =
     ([if b then Tracing_decorator (order_task i deps) False (span_label (SI_Dynamic allowed_service)) []
       else order_task i deps], [], ctx')"
proof -
  let ?d = "\<lparr>dt_task_id = i, dt_service = allowed_service, dt_name = ''r'',
      dt_message_builder = flow_expr EUnspecified [], dt_on_reply = [],
      dt_predicates = [Predicate (flow_expr EUnspecified [])], dt_dependencies = deps, dt_is_guard = True\<rparr>"
  obtain d ctx1 where n: "new_with_attributes flow_lib flow_host ?d ctx = (d, ctx1)" by force
  then have "d = ?d" by (auto dest: new_with_attributes_same)
  with n show ?thesis
    by (simp add: action_tasks_def order_action_def order_task_def Let_def service_of_def
        response_body_values_def flow_expr_def [of _ "[]"] instance_failure_mode_def allowed_service_def)
qed

lemma order_start:
  "plain_pipeline [order_task ''0'' [], order_task ''1'' [''0''], plain_headers, order_task ''3'' [''2'']]
     (request_pipeline flow_lib flow_host order_blueprint [] ctx)"
proof -
  have t: "\<not> list_ex is_tracing_action (bp_actions order_blueprint)"
    by (simp add: order_blueprint_def order_action_def is_tracing_action_def service_of_def)
  have h: "action_tasks flow_lib flow_host False [] (Action ''2'' (Predicate (flow_expr EUnspecified [])) False
         (Op_Headers Http_request_headers (flow_expr EUnspecified [])) [''1''] [] False) c = ([plain_headers], [], c)" for c
    by (simp add: action_tasks_def plain_headers_def)
  obtain f where "action_tasks flow_lib flow_host False [] (order_action i deps) c = ([order_task i deps], [], f i deps c)"
    for i deps c using order_action_tasks [of False] by simp metis
  with t h show ?thesis
    by (simp add: request_pipeline_def to_tasks_def plain_pipeline_def with_teardown_tasks_def with_tasks_def
        pipeline_new_def) (simp add: order_blueprint_def)
qed

lemma order_eval:
  assumes "plain_pipeline [order_task ''0'' [], order_task ''1'' [''0''], plain_headers, order_task ''3'' [''2'']] p"
  shows "\<exists>p'. pipeline_eval flow_lib N flow_host p = InProgress p' \<and> \<not> terminated p' \<and> completed_tasks p' = {''0'', ''1''}"
proof -
  have g: "\<exists>ctx'. task_apply flow_lib N flow_host (order_task i deps) ctx = (Done, ctx')" for i deps ctx
  proof -
    let ?c = "ensure_attributes flow_host (host_paths []) ctx"
    from flow_test [of ?c] obtain e where
      "predicate_test flow_lib flow_host (Predicate (flow_expr EUnspecified [])) ?c = (Err e, ?c)" by blast
    moreover have "expr_attributes (flow_expr EUnspecified []) = []" by (simp add: flow_expr_def)
    ultimately show ?thesis by (simp add: order_task_def dynamic_apply_def predicates_apply_def Let_def [of _ "Pair _"])
  qed
  then obtain f where f: "task_apply flow_lib N flow_host (order_task i deps) ctx = (Done, f i deps ctx)"
    for i deps ctx by metis
  have h: "task_apply flow_lib N flow_host plain_headers ctx = (Failed, ctx)" for ctx
    by (simp add: plain_headers_def modify_headers_apply_def flow_gate with_gate_def)
  have d: "task_dependencies (order_task i deps) = deps" "task_id (order_task i deps) = Some i"
    "task_dependencies plain_headers = []" for i deps by (simp_all add: order_task_def plain_headers_def)
  show ?thesis
    using assms by (auto simp: pipeline_eval_def plain_pipeline_def f h d blocked_def complete_task_def
        pipeline_state_from_def)
qed


text \<open>C20: the body fields collected for an action are exactly those that the request data and the
  predicates and expressions of the action and of all its nested \<^verbatim>\<open>onReply\<close> actions read, each
  once: no field is missed at any depth.\<close>

theorem collect_body_values_complete:
  "distinct (collect_body_values rdata a)
   \<and> set (collect_body_values rdata a)
     = (\<Union>(key, e) \<in> set rdata. set (expr_response_body_values e)) \<union> (\<Union>x \<in> set (all_actions a). own_fields x)"
  using collect_body_values_fields(1) [of rdata a] by (cases a) (simp del: set_remdups)

end
