(* ===== verification/Cel_Strings.thy ===== *)
theory Cel_Strings
  imports Cel_Types
begin

text \<open>
  \<^verbatim>\<open>src/data/cel/strings.rs\<close>: the string functions added to CEL.  \<open>None\<close> stands for a panic
  (slicing a string inside a character); the program runs on wasm32, so \<^verbatim>\<open>as usize\<close> keeps the
  low 32 bits.  A function gets the receiver, the arguments the library has already typed, and
  the raw argument list.
\<close>

type_synonym resolve_result = "(cel_value, exec_error) result"

definition as_usize :: "u64 \<Rightarrow> nat" where
  "as_usize w = unat (ucast w :: u32)"

text \<open>\<^verbatim>\<open>Value::Int(i) => *i as usize, Value::UInt(u) => *u as usize\<close>\<close>

definition usize_arg :: "cel_value \<Rightarrow> nat option" where
  "usize_arg v = (case v of VInt i \<Rightarrow> Some (as_usize i) | VUInt u \<Rightarrow> Some (as_usize u) | _ \<Rightarrow> None)"

definition int_of :: "int \<Rightarrow> cel_value" where "int_of i = VInt (word_of_int i)"
definition uint_of :: "nat \<Rightarrow> cel_value" where "uint_of n = VUInt (word_of_nat n)"

section \<open>String slices of the standard library\<close>

definition str_rfind :: "string \<Rightarrow> string \<Rightarrow> nat option" where
  "str_rfind pat s = find (\<lambda>i. prefix pat (drop i s)) (rev [0..<Suc (length s)])"

definition is_char_boundary :: "string \<Rightarrow> nat \<Rightarrow> bool" where
  "is_char_boundary s i = (i = 0 \<or> i = length s \<or> (i < length s \<and> \<not> is_cont (s ! i)))"

function split_pat :: "'a list \<Rightarrow> 'a list \<Rightarrow> 'a list list" where
  "split_pat pat s =
     (if pat = [] then [s]
      else case str_find pat s of
             None \<Rightarrow> [s]
           | Some i \<Rightarrow> take i s # split_pat pat (drop (i + length pat) s))"
  by pat_completeness auto

lemma str_find_bound: "str_find pat s = Some i \<Longrightarrow> i + length pat \<le> length s"
  using str_find_Some [of pat s i] by (auto dest: prefix_length_le)

termination split_pat
proof (relation "measure (\<lambda>(pat, s). length s)")
  fix pat s :: "'a list" and i
  assume "pat \<noteq> []" "str_find pat s = Some i"
  then have "i + length pat \<le> length s" "length pat > 0" using str_find_bound by auto
  then have "length s - (i + length pat) < length s" by linarith
  then show "((pat, drop (i + length pat) s), pat, s) \<in> measure (\<lambda>(pat, s). length s)" by simp
qed simp

declare split_pat.simps [simp del]

text \<open>\<^verbatim>\<open>str::split\<close>, \<^verbatim>\<open>splitn\<close>, \<^verbatim>\<open>replace\<close>, \<^verbatim>\<open>replacen\<close>: an empty pattern matches at every
  character boundary.\<close>

definition str_split :: "string \<Rightarrow> string \<Rightarrow> string list" where
  "str_split sep s = (if sep = [] then [] # utf8_chars s @ [[]] else split_pat sep s)"

definition str_splitn :: "nat \<Rightarrow> string \<Rightarrow> string \<Rightarrow> string list" where
  "str_splitn n sep s =
     (let pieces = str_split sep s in
      if n = 0 then []
      else if length pieces \<le> n then pieces
      else take (n - 1) pieces @ [join sep (drop (n - 1) pieces)])"

definition str_replace :: "string \<Rightarrow> string \<Rightarrow> string \<Rightarrow> string" where
  "str_replace from to s = join to (str_split from s)"

definition str_replacen :: "nat \<Rightarrow> string \<Rightarrow> string \<Rightarrow> string \<Rightarrow> string" where
  "str_replacen n from to s = join to (str_splitn (Suc n) from s)"

definition to_ascii_lowercase :: "string \<Rightarrow> string" where
  "to_ascii_lowercase s =
     map (\<lambda>c. if byte_in 65 90 c then char_of ((of_char c :: nat) + 32) else c) s"

definition to_ascii_uppercase :: "string \<Rightarrow> string" where
  "to_ascii_uppercase s =
     map (\<lambda>c. if byte_in 97 122 c then char_of ((of_char c :: nat) - 32) else c) s"

text \<open>\<^verbatim>\<open>char::is_whitespace\<close>, on the bytes of the character.\<close>

definition is_whitespace :: "string \<Rightarrow> bool" where
  "is_whitespace ch =
     (case map of_char ch :: nat list of
        [b] \<Rightarrow> (9 \<le> b \<and> b \<le> 13) \<or> b = 32
      | [b1, b2] \<Rightarrow> b1 = 0xC2 \<and> (b2 = 0x85 \<or> b2 = 0xA0)
      | [b1, b2, b3] \<Rightarrow>
          (b1 = 0xE1 \<and> b2 = 0x9A \<and> b3 = 0x80)
          \<or> (b1 = 0xE2 \<and> b2 = 0x80 \<and> (0x80 \<le> b3 \<and> b3 \<le> 0x8A \<or> b3 = 0xA8 \<or> b3 = 0xA9 \<or> b3 = 0xAF))
          \<or> (b1 = 0xE2 \<and> b2 = 0x81 \<and> b3 = 0x9F)
          \<or> (b1 = 0xE3 \<and> b2 = 0x80 \<and> b3 = 0x80)
      | _ \<Rightarrow> False)"

definition str_trim :: "string \<Rightarrow> string" where
  "str_trim s =
     concat (rev (dropWhile is_whitespace (rev (dropWhile is_whitespace (utf8_chars s)))))"

section \<open>The functions\<close>

definition char_at :: "string \<Rightarrow> u64 \<Rightarrow> resolve_result" where
  "char_at this arg =
     (if as_usize arg < length (utf8_chars this)
      then Ok (VString (utf8_chars this ! as_usize arg))
      else Err (FunctionError ''String.charAt'' ''No index''))"

definition index_of :: "string \<Rightarrow> string \<Rightarrow> cel_value list \<Rightarrow> resolve_result option" where
  "index_of this arg args =
     (if length args = 1 then
        Some (Ok (case str_find arg this of None \<Rightarrow> int_of (- 1) | Some idx \<Rightarrow> uint_of idx))
      else if length args = 2 then
        (case usize_arg (args ! 1) of
           None \<Rightarrow> Some (Err (FunctionError ''String.indexOf'' ''Expects 2nd argument to be an Integer''))
         | Some base \<Rightarrow>
             if base \<ge> length this then Some (Ok (int_of (- 1)))
             else if \<not> is_char_boundary this base then None
             else Some (Ok (case str_find arg (drop base this) of
                              None \<Rightarrow> int_of (- 1) | Some idx \<Rightarrow> uint_of (base + idx))))
      else Some (Err (FunctionError ''String.indexOf'' ''Expects 2 arguments at most'')))"

definition last_index_of :: "string \<Rightarrow> string \<Rightarrow> cel_value list \<Rightarrow> resolve_result option" where
  "last_index_of this arg args =
     (if length args = 1 then
        Some (Ok (case str_rfind arg this of None \<Rightarrow> int_of (- 1) | Some idx \<Rightarrow> uint_of idx))
      else if length args = 2 then
        (case usize_arg (args ! 1) of
           None \<Rightarrow> Some (Err (FunctionError ''String.lastIndexOf'' ''Expects 2nd argument to be an Integer''))
         | Some base \<Rightarrow>
             if base \<ge> length this then Some (Ok (int_of (- 1)))
             else if \<not> is_char_boundary this base then None
             else Some (Ok (case str_rfind arg (drop base this) of
                              None \<Rightarrow> int_of (- 1) | Some idx \<Rightarrow> uint_of idx)))
      else Some (Err (FunctionError ''String.lastIndexOf'' ''Expects 2 arguments at most'')))"

definition join_separator :: "cel_value list \<Rightarrow> (string, exec_error) result" where
  "join_separator args =
     (case args of
        [] \<Rightarrow> Ok []
      | VString s # _ \<Rightarrow> Ok s
      | _ \<Rightarrow> Err (FunctionError ''List.join'' ''Expects seperator to be a String''))"

definition join_element :: "cel_value \<Rightarrow> (string, exec_error) result" where
  "join_element v =
     (case v of
        VString s \<Rightarrow> Ok s
      | _ \<Rightarrow> Err (FunctionError ''List.join'' ''Expects a list of String values!''))"

definition cel_join :: "cel_value list \<Rightarrow> cel_value list \<Rightarrow> resolve_result" where
  "cel_join this args =
     (case join_separator args of
        Err e \<Rightarrow> Err e
      | Ok separator \<Rightarrow>
          (case collect_results join_element this of
             Err e \<Rightarrow> Err e
           | Ok parts \<Rightarrow> Ok (VString (join separator parts))))"

definition lower_ascii :: "string \<Rightarrow> resolve_result" where
  "lower_ascii this = Ok (VString (to_ascii_lowercase this))"

definition upper_ascii :: "string \<Rightarrow> resolve_result" where
  "upper_ascii this = Ok (VString (to_ascii_uppercase this))"

definition cel_trim :: "string \<Rightarrow> resolve_result" where
  "cel_trim this = Ok (VString (str_trim this))"

definition cel_replace :: "string \<Rightarrow> cel_value list \<Rightarrow> resolve_result" where
  "cel_replace this args =
     (if length args \<in> {2, 3} then
        (case args ! 0 of
           VString from \<Rightarrow>
             (case args ! 1 of
                VString to \<Rightarrow>
                  if length args = 3 then
                    (case usize_arg (args ! 2) of
                       Some n \<Rightarrow> Ok (VString (str_replacen n from to this))
                     | None \<Rightarrow> Err (FunctionError ''String.replace'' ''Third argument of type Integer expected''))
                  else Ok (VString (str_replace from to this))
              | _ \<Rightarrow> Err (FunctionError ''String.replace'' ''Second argument of type String expected''))
         | _ \<Rightarrow> Err (FunctionError ''String.replace'' ''First argument of type String expected''))
      else Err (FunctionError ''String.replace'' ''Expects 2 or 3 arguments''))"

definition cel_split :: "string \<Rightarrow> cel_value list \<Rightarrow> resolve_result" where
  "cel_split this args =
     (if length args \<in> {1, 2} then
        (case args ! 0 of
           VString sep \<Rightarrow>
             if length args = 2 then
               (case usize_arg (args ! 1) of
                  Some pos \<Rightarrow> Ok (VList (map VString (str_splitn pos sep this)))
                | None \<Rightarrow> Err (FunctionError ''String.split'' ''Expects a second argument of type Integer''))
             else Ok (VList (map VString (str_split sep this)))
         | _ \<Rightarrow> Err (FunctionError ''String.split'' ''Expects a first argument of type String''))
      else Err (FunctionError ''String.split'' ''Expects at most 2 arguments''))"

definition substring :: "string \<Rightarrow> cel_value list \<Rightarrow> resolve_result" where
  "substring this args =
     (if length args \<in> {1, 2} then
        (case usize_arg (args ! 0) of
           None \<Rightarrow> Err (FunctionError ''String.substring'' ''Expects a first argument of type Integer'')
         | Some start \<Rightarrow>
             (case (if length args = 2 then usize_arg (args ! 1)
                    else Some (length (utf8_chars this))) of
                None \<Rightarrow> Err (FunctionError ''String.substring'' ''Expects a second argument of type Integer'')
              | Some end' \<Rightarrow>
                  if end' < start
                  then Err (FunctionError ''String.substring'' ''Can't have end be before the start'')
                  else Ok (VString (concat (take (end' - start) (drop start (utf8_chars this)))))))
      else Err (FunctionError ''String.substring'' ''Expects at most 2 arguments''))"

section \<open>Facts\<close>

lemma join_Nil_concat: "join [] xs = concat xs"
  by (induction xs rule: induct_list012) auto

lemma split_pat_nonempty [simp]: "split_pat pat s \<noteq> []"
  by (subst split_pat.simps) (auto split: option.splits)

lemma join_split_pat: "join pat (split_pat pat s) = s"
proof (induction pat s rule: split_pat.induct)
  case (1 pat s)
  show ?case
  proof (cases "pat = [] \<or> str_find pat s = None")
    case True
    then show ?thesis by (subst split_pat.simps) auto
  next
    case False
    then obtain i where pat: "pat \<noteq> []" and i: "str_find pat s = Some i" by auto
    from str_find_Some [OF i] obtain t where t: "drop i s = pat @ t" by (auto simp: prefix_def)
    have "drop (i + length pat) s = t"
      by (metis t add.commute append_eq_conv_conj drop_drop)
    with 1 [OF pat i] t pat i show ?thesis
      by (subst split_pat.simps) (simp add: join_Cons, metis append_take_drop_id)
  qed
qed

lemma join_str_split: "join sep (str_split sep s) = s"
  by (auto simp: str_split_def join_split_pat join_Nil_concat concat_utf8_chars)

lemma str_split_nonempty [simp]: "str_split sep s \<noteq> []"
  by (simp add: str_split_def)

lemma join_append:
  "xs \<noteq> [] \<Longrightarrow> ys \<noteq> [] \<Longrightarrow> join sep (xs @ ys) = join sep xs @ sep @ join sep ys"
proof (induction xs)
  case (Cons x xs)
  then show ?case by (cases xs) (auto simp: join_Cons)
qed simp

lemma join_str_splitn:
  assumes "n > 0"
  shows "join sep (str_splitn n sep s) = s \<and> length (str_splitn n sep s) \<le> n"
proof (cases "length (str_split sep s) \<le> n")
  case True
  with assms show ?thesis by (simp add: str_splitn_def Let_def join_str_split)
next
  case False
  let ?p = "str_split sep s"
  have "join sep (take (n - 1) ?p @ [join sep (drop (n - 1) ?p)]) = join sep ?p"
  proof (cases "n = 1")
    case False
    with assms \<open>\<not> length ?p \<le> n\<close> have ne: "take (n - 1) ?p \<noteq> []" "drop (n - 1) ?p \<noteq> []" by auto
    have "join sep ?p = join sep (take (n - 1) ?p @ drop (n - 1) ?p)" by simp
    also have "\<dots> = join sep (take (n - 1) ?p) @ sep @ join sep (drop (n - 1) ?p)"
      using ne by (rule join_append)
    finally show ?thesis using ne by (simp add: join_append)
  qed simp
  with False assms show ?thesis by (simp add: str_splitn_def Let_def join_str_split)
qed

lemma collect_join_element: "collect_results join_element (map VString xs) = Ok xs"
  by (induction xs) (auto simp: join_element_def)

lemma str_rfind_Some:
  assumes "str_rfind pat s = Some i"
  shows "prefix pat (drop i s) \<and> i \<le> length s \<and> (\<forall>j. i < j \<and> j \<le> length s \<longrightarrow> \<not> prefix pat (drop j s))"
proof -
  let ?n = "Suc (length s)"
  from assms obtain k where k: "k < length (rev [0..<?n])" "prefix pat (drop (rev [0..<?n] ! k) s)"
      "i = rev [0..<?n] ! k" "\<forall>j<k. \<not> prefix pat (drop (rev [0..<?n] ! j) s)"
    by (auto simp: str_rfind_def find_Some_iff simp del: upt_Suc)
  have nth: "rev [0..<?n] ! m = length s - m" if "m < ?n" for m
    using that by (simp add: rev_nth del: upt_Suc)
  with k(1,3) have i: "i = length s - k" "k \<le> length s" by (simp_all del: upt_Suc)
  have "\<not> prefix pat (drop j s)" if "i < j" "j \<le> length s" for j
    using k(4) nth [of "length s - j"] that i by (auto simp del: upt_Suc dest: spec [of _ "length s - j"])
  with k(2,3) i show ?thesis by (simp del: upt_Suc)
qed

section \<open>Properties\<close>



lemma str_find_from:
  assumes "base < length s"
  shows "str_find pat (drop base s) = Some k \<longleftrightarrow>
      prefix pat (drop (base + k) s) \<and> base + k \<le> length s
      \<and> (\<forall>j. base \<le> j \<and> j < base + k \<longrightarrow> \<not> prefix pat (drop j s))"
    and "str_find pat (drop base s) = None \<longleftrightarrow>
      (\<forall>j. base \<le> j \<and> j \<le> length s \<longrightarrow> \<not> prefix pat (drop j s))"
proof -
  have some: "prefix pat (drop (base + k) s) \<and> base + k \<le> length s
      \<and> (\<forall>j. base \<le> j \<and> j < base + k \<longrightarrow> \<not> prefix pat (drop j s))"
    if k: "str_find pat (drop base s) = Some k" for k
  proof -
    have "\<not> prefix pat (drop j s)" if "base \<le> j" "j < base + k" for j
      using str_find_Some [OF k] that by (auto simp: add.commute dest!: spec [of _ "j - base"])
    with str_find_Some [OF k] assms show ?thesis by (auto simp: add.commute)
  qed
  have none: "\<not> prefix pat (drop j s)"
    if "str_find pat (drop base s) = None" "base \<le> j" "j \<le> length s" for j
    using str_find_None [OF that(1), of "j - base"] that by simp
  show "str_find pat (drop base s) = Some k \<longleftrightarrow>
      prefix pat (drop (base + k) s) \<and> base + k \<le> length s
      \<and> (\<forall>j. base \<le> j \<and> j < base + k \<longrightarrow> \<not> prefix pat (drop j s))"
  proof (cases "str_find pat (drop base s)")
    case None
    then show ?thesis using none [of "base + k"] by auto
  next
    case (Some m)
    from some [OF this] Some show ?thesis
      by (metis add_less_cancel_left le_add1 linorder_neqE_nat option.inject)
  qed
  show "str_find pat (drop base s) = None \<longleftrightarrow>
      (\<forall>j. base \<le> j \<and> j \<le> length s \<longrightarrow> \<not> prefix pat (drop j s))"
    using none some by (cases "str_find pat (drop base s)") (blast, force)
qed

text \<open>\<^verbatim>\<open>indexOf\<close> with an offset returns the position, counted from the start of the
  string, of the first occurrence at or after the offset, and \<^verbatim>\<open>-1\<close> exactly when there is none;
  it panics exactly when the offset is inside a character.\<close>

theorem index_of_from:
  assumes "usize_arg off = Some base" and "base < length this"
  shows "(index_of this arg [a, off] = None \<longleftrightarrow> \<not> is_char_boundary this base)
    \<and> (is_char_boundary this base \<longrightarrow>
         (\<exists>i. index_of this arg [a, off] = Some (Ok (uint_of i)) \<and> base \<le> i \<and> i \<le> length this
            \<and> prefix arg (drop i this) \<and> (\<forall>j. base \<le> j \<and> j < i \<longrightarrow> \<not> prefix arg (drop j this)))
         \<or> (index_of this arg [a, off] = Some (Ok (int_of (- 1)))
            \<and> (\<forall>j. base \<le> j \<and> j \<le> length this \<longrightarrow> \<not> prefix arg (drop j this))))"
proof (cases "str_find arg (drop base this)")
  case None
  then have "\<forall>j. base \<le> j \<and> j \<le> length this \<longrightarrow> \<not> prefix arg (drop j this)"
    by (simp add: str_find_from(2) [OF assms(2)])
  with None show ?thesis using assms by (simp add: index_of_def)
next
  case (Some k)
  with str_find_from(1) [OF assms(2), of arg k] show ?thesis
    using assms by (auto simp: index_of_def intro!: exI [of _ "base + k"])
qed

theorem index_of_from_witness:
  "index_of ''abcabc'' ''c'' [VString ''c'', VInt 3] = Some (Ok (uint_of 5))
   \<and> index_of ''abcabc'' ''c'' [VString ''c'', VInt 3] \<noteq> None"
proof -
  have u: "usize_arg (VInt 3) = Some 3" by (simp add: usize_arg_def as_usize_def)
  have b: "is_char_boundary ''abcabc'' 3" by (simp add: is_char_boundary_def is_cont_def)
  from u b have "index_of ''abcabc'' ''c'' [VString ''c'', VInt 3] = Some (Ok (uint_of 5))"
    by (simp add: index_of_def)
  with b index_of_from [OF u, of "''abcabc''" "''c''" "VString ''c''"] show ?thesis by simp
qed

text \<open>\<^verbatim>\<open>lastIndexOf\<close> with an offset finds the last occurrence at or after the offset, but
  counts the position it returns from the offset and not from the start of the string as
  \<^verbatim>\<open>indexOf\<close> does.\<close>

theorem last_index_of_from:
  assumes "usize_arg off = Some base" and "base < length this" and "is_char_boundary this base"
    and "str_rfind arg (drop base this) = Some k"
  shows "last_index_of this arg [a, off] = Some (Ok (uint_of k))
    \<and> prefix arg (drop (base + k) this)
    \<and> (\<forall>j. base + k < j \<and> j \<le> length this \<longrightarrow> \<not> prefix arg (drop j this))"
proof -
  have "\<not> prefix arg (drop j this)" if "base + k < j" "j \<le> length this" for j
    using str_rfind_Some [OF assms(4)] that by (auto dest!: spec [of _ "j - base"])
  with str_rfind_Some [OF assms(4)] assms show ?thesis
    by (auto simp: last_index_of_def add.commute)
qed

theorem last_index_of_from_witness:
  "last_index_of ''abcabc'' ''c'' [VString ''c'', VInt 2] = Some (Ok (uint_of 3))
   \<and> prefix ''c'' (drop (2 + 3) ''abcabc'')"
proof -
  have "str_rfind ''c'' (drop 2 ''abcabc'') = Some 3" by (simp add: str_rfind_def)
  moreover have "usize_arg (VInt 2) = Some 2" by (simp add: usize_arg_def as_usize_def)
  moreover have "is_char_boundary ''abcabc'' 2" by (simp add: is_char_boundary_def is_cont_def)
  ultimately show ?thesis
    using last_index_of_from [of "VInt 2" 2 "''abcabc''" "''c''" 3 "VString ''c''"] by simp
qed

end
