(* ===== verification/Factory.thy ===== *)
theory Factory
  imports Blueprint Cel_Strings "HOL-Library.Product_Lexorder" "HOL-Library.Multiset"
begin

text \<open>
  \<^verbatim>\<open>src/kuadrant/pipeline/factory.rs\<close>: from a configuration to the index of blueprints by
  hostname, and from a request to its pipeline.  The index is the crate \<^verbatim>\<open>radix_trie\<close>, a
  parameter with its documented laws.  Hash maps of the configuration are lists in the order
  they are iterated.
\<close>

section \<open>The index\<close>

record 't trie_ops =
  trie_new :: 't
  trie_map_with_default :: "string \<Rightarrow> (blueprint list \<Rightarrow> blueprint list) \<Rightarrow> blueprint list \<Rightarrow> 't \<Rightarrow> 't"
  trie_get_ancestor_value :: "string \<Rightarrow> 't \<Rightarrow> blueprint list option"

text \<open>The value of the longest prefix of a key that has one.\<close>

definition closest :: "(string \<Rightarrow> 'v option) \<Rightarrow> string \<Rightarrow> 'v option" where
  "closest m k = (case filter (\<lambda>p. m p \<noteq> None) (rev (prefixes k)) of [] \<Rightarrow> None | p # _ \<Rightarrow> m p)"

definition trie_laws :: "'t trie_ops \<Rightarrow> ('t \<Rightarrow> string \<Rightarrow> blueprint list option) \<Rightarrow> bool" where
  "trie_laws T content =
     (content (trie_new T) = (\<lambda>_. None)
      \<and> (\<forall>k f d t. content (trie_map_with_default T k f d t) =
           (content t)(k \<mapsto> case content t k of Some v \<Rightarrow> f v | None \<Rightarrow> d))
      \<and> (\<forall>k t. trie_get_ancestor_value T k t = closest (content t) k))"

record 't pipeline_factory =
  pf_index :: 't
  pf_request_data :: "request_data list"
  pf_fallback_blueprint :: "blueprint option"

text \<open>A build error carries what the program prints.\<close>

datatype build_cause = Hostname_not_found | Hostname_error attribute_error | Route_predicate_error evaluation_error

datatype build_error = Data_pending string | Build_evaluation_error build_cause

definition pipeline_factory_default :: "'t trie_ops \<Rightarrow> 't pipeline_factory" where
  "pipeline_factory_default T =
     \<lparr>pf_index = trie_new T, pf_request_data = [], pf_fallback_blueprint = None\<rparr>"

section \<open>Names\<close>

definition reverse_subdomain :: "string \<Rightarrow> string" where
  "reverse_subdomain subdomain =
     (let s = subdomain @ ''.'';
          s = (if prefix ''*'' s then tl s else CHR ''$'' # s)
      in concat (rev (utf8_chars s)))"

fun last_alphabetic :: "lib \<Rightarrow> nat \<Rightarrow> nat \<Rightarrow> string list \<Rightarrow> nat" where
  "last_alphabetic L offset best [] = best"
| "last_alphabetic L offset best (c # cs) =
     last_alphabetic L (offset + length c) (if char_is_alphabetic L c then offset else best) cs"

definition domain_and_field_name :: "lib \<Rightarrow> string \<Rightarrow> string \<times> string" where
  "domain_and_field_name L name =
     (let haystack = take (last_alphabetic L 0 0 (utf8_chars name)) name in
      case str_rfind ''.'' haystack of
        Some i \<Rightarrow> if i = 0 \<or> i = length name - 1 then ([], name) else (take i name, drop (i + 1) name)
      | None \<Rightarrow> ([], name))"

section \<open>From a configuration to a factory\<close>

definition service_error_display :: "service_error \<Rightarrow> string" where
  "service_error_display e =
     (case e of
        Dispatch msg \<Rightarrow> ''Failed to dispatch gRPC call: '' @ msg
      | Decode msg \<Rightarrow> ''Failed to decode response: '' @ msg
      | Service_Retrieval msg \<Rightarrow> ''Failed to retrieve gRPC response: '' @ msg)"

text \<open>The services get addresses from \<open>addr\<close> on.\<close>

fun create_services ::
  "nat \<Rightarrow> (string \<times> service_config) list \<Rightarrow> descriptor_manager
     \<Rightarrow> ((string \<times> service_instance) list, compile_error) result \<times> descriptor_manager"
where
  "create_services addr [] dm = (Ok [], dm)"
| "create_services addr ((name, service_config) # rest) dm =
     (case from_config addr service_config dm of
        (Err e, dm) \<Rightarrow> (Err (ServiceCreationFailed (service_error_display e)), dm)
      | (Ok instance', dm) \<Rightarrow>
          (case create_services (Suc addr) rest dm of
             (Err e, dm) \<Rightarrow> (Err e, dm)
           | (Ok services, dm) \<Rightarrow> (Ok ((name, instance') # services), dm)))"

definition configured_tracing_service ::
  "observability \<Rightarrow> (string \<times> service_instance) list \<Rightarrow> service_instance"
where
  "configured_tracing_service ob services =
     (case Option.bind (ob_tracing ob) (map_of services) of Some s \<Rightarrow> s | None \<Rightarrow> SI_Tracing None)"

definition request_data_raw :: "lib \<Rightarrow> (string \<times> string) list \<Rightarrow> ((string \<times> string) \<times> string) list" where
  "request_data_raw L rd = map (\<lambda>(k, v). (domain_and_field_name L k, v)) rd"

definition translate_config ::
  "(string \<times> service_instance) list \<Rightarrow> ((string \<times> string) \<times> string) list \<Rightarrow> action_config \<Rightarrow> action_config"
where
  "translate_config services raw a =
     (case a of
        Legacy legacy \<Rightarrow>
          (case map_of services (la_service legacy) of
             Some (SI_RateLimit _) \<Rightarrow> Typed (translate_legacy_ratelimit_to_typed legacy raw)
           | Some (SI_RateLimitCheck _) \<Rightarrow> Typed (translate_legacy_ratelimit_to_typed legacy raw)
           | Some (SI_Auth _) \<Rightarrow> Typed (translate_legacy_auth_to_typed legacy raw)
           | Some (SI_RateLimitReport _) \<Rightarrow> Typed (translate_legacy_report_to_typed legacy raw)
           | _ \<Rightarrow> a)
      | Typed _ \<Rightarrow> a)"

definition compile_request_data :: "lib \<Rightarrow> ((string \<times> string) \<times> string) list \<Rightarrow> request_data list" where
  "compile_request_data L raw =
     sort_key fst (List.map_filter
       (\<lambda>(key, v). case expression_new L v of Ok expr \<Rightarrow> Some (key, expr) | Err _ \<Rightarrow> None) raw)"

text \<open>\<open>None\<close>: the text \<^verbatim>\<open>true\<close> is not valid CEL and the \<^verbatim>\<open>expect\<close> panics.\<close>

definition dev_mode_action :: "lib \<Rightarrow> service_instance \<Rightarrow> string \<Rightarrow> action option" where
  "dev_mode_action L tracing_service header =
     (case (predicate_new L ''true'', expression_new L ''true'') of
        (Ok p, Ok e) \<Rightarrow>
          Some (Action ''kuadrant.devMode'' p False (Op_Grpc tracing_service header e []) [] [] True)
      | _ \<Rightarrow> None)"

definition index_hostname :: "'t trie_ops \<Rightarrow> blueprint \<Rightarrow> string \<Rightarrow> 't \<Rightarrow> 't" where
  "index_hostname T bp hostname =
     trie_map_with_default T (reverse_subdomain hostname) (\<lambda>blueprints. blueprints @ [bp]) [bp]"

definition with_dev_mode :: "action option \<Rightarrow> blueprint \<Rightarrow> blueprint" where
  "with_dev_mode dev bp =
     (case dev of Some a \<Rightarrow> bp\<lparr>bp_actions := bp_actions bp @ [a]\<rparr> | None \<Rightarrow> bp)"

fun index_action_sets ::
  "lib \<Rightarrow> 't trie_ops \<Rightarrow> (string \<times> service_instance) list \<Rightarrow> request_data list \<Rightarrow> action option
     \<Rightarrow> action_set list \<Rightarrow> 't \<Rightarrow> ('t, compile_error) result"
where
  "index_action_sets L T services rdata dev [] index = Ok index"
| "index_action_sets L T services rdata dev (cfg # rest) index =
     (case blueprint_compile L cfg services rdata of
        Err e \<Rightarrow> Err e
      | Ok bp \<Rightarrow>
          index_action_sets L T services rdata dev rest
            (fold (index_hostname T (with_dev_mode dev bp)) (as_hostnames cfg) index))"

definition factory_with ::
  "lib \<Rightarrow> 't trie_ops \<Rightarrow> plugin_configuration \<Rightarrow> (string \<times> service_instance) list \<Rightarrow> action option
     \<Rightarrow> ('t pipeline_factory, compile_error) result"
where
  "factory_with L T config services dev =
     (let raw = request_data_raw L (pc_request_data config);
          action_sets = map (\<lambda>cfg. cfg\<lparr>as_actions := map (translate_config services raw) (as_actions cfg)\<rparr>)
            (pc_action_sets config);
          rdata = compile_request_data L raw
      in bind_result (index_action_sets L T services rdata dev action_sets (trie_new T))
           (\<lambda>index. Ok \<lparr>pf_index = index, pf_request_data = rdata,
              pf_fallback_blueprint = map_option
                (\<lambda>a. \<lparr>bp_name = ''kuadrant.devMode'', bp_route_predicates = [], bp_actions = [a]\<rparr>) dev\<rparr>))"

text \<open>The part of \<^verbatim>\<open>try_from\<close> after the services; \<open>None\<close> is a panic.\<close>

definition factory_of ::
  "lib \<Rightarrow> 't trie_ops \<Rightarrow> plugin_configuration \<Rightarrow> (string \<times> service_instance) list
     \<Rightarrow> ('t pipeline_factory, compile_error) result option"
where
  "factory_of L T config services =
     (case ob_http_header_identifier (pc_observability config) of
        None \<Rightarrow> Some (factory_with L T config services None)
      | Some header \<Rightarrow>
          map_option (\<lambda>a. factory_with L T config services (Some a))
            (dev_mode_action L (configured_tracing_service (pc_observability config) services) header))"

definition factory_try_from ::
  "lib \<Rightarrow> 't trie_ops \<Rightarrow> nat \<Rightarrow> plugin_configuration \<Rightarrow> descriptor_manager
     \<Rightarrow> ('t pipeline_factory, compile_error) result option \<times> descriptor_manager"
where
  "factory_try_from L T addr config dm =
     (case create_services addr (pc_services config) dm of
        (Err e, dm) \<Rightarrow> (Some (Err e), dm)
      | (Ok services, dm) \<Rightarrow> (factory_of L T config services, dm))"

section \<open>From a request to its pipeline\<close>

definition get_hostname ::
  "'h hostcalls \<Rightarrow> 'h req_resp_ctx \<Rightarrow> (string, build_error) result \<times> 'h req_resp_ctx"
where
  "get_hostname H ctx =
     (case get_attribute H (from_cached parse_string) ''request.host'' ctx of
        (Ok (Available (Some host)), ctx) \<Rightarrow>
          (Ok (case split_once (CHR '':'') host of Some (h, _) \<Rightarrow> h | None \<Rightarrow> host), ctx)
      | (Ok (Available None), ctx) \<Rightarrow> (Err (Build_evaluation_error Hostname_not_found), ctx)
      | (Ok Pending, ctx) \<Rightarrow> (Err (Data_pending ''hostname''), ctx)
      | (Err e, ctx) \<Rightarrow> (Err (Build_evaluation_error (Hostname_error e)), ctx))"

definition route_predicates_match ::
  "lib \<Rightarrow> 'h hostcalls \<Rightarrow> blueprint \<Rightarrow> 'h req_resp_ctx \<Rightarrow> (bool, build_error) result \<times> 'h req_resp_ctx"
where
  "route_predicates_match L H bp ctx =
     (case predicates_apply L H (bp_route_predicates bp) ctx of
        (Ok (Available r), ctx) \<Rightarrow> (Ok r, ctx)
      | (Ok Pending, ctx) \<Rightarrow> (Err (Data_pending (''route predicate: '' @ bp_name bp)), ctx)
      | (Err e, ctx) \<Rightarrow> (Err (Build_evaluation_error (Route_predicate_error e)), ctx))"

fun first_match ::
  "lib \<Rightarrow> 'h hostcalls \<Rightarrow> blueprint option \<Rightarrow> blueprint list \<Rightarrow> 'h req_resp_ctx
     \<Rightarrow> (blueprint option, build_error) result \<times> 'h req_resp_ctx"
where
  "first_match L H fallback [] ctx = (Ok fallback, ctx)"
| "first_match L H fallback (bp # rest) ctx =
     (case route_predicates_match L H bp ctx of
        (Err e, ctx) \<Rightarrow> (Err e, ctx)
      | (Ok True, ctx) \<Rightarrow> (Ok (Some bp), ctx)
      | (Ok False, ctx) \<Rightarrow> first_match L H fallback rest ctx)"

definition select_blueprint ::
  "lib \<Rightarrow> 'h hostcalls \<Rightarrow> 't trie_ops \<Rightarrow> 't pipeline_factory \<Rightarrow> 'h req_resp_ctx
     \<Rightarrow> (blueprint option, build_error) result \<times> 'h req_resp_ctx"
where
  "select_blueprint L H T pf ctx =
     (case get_hostname H ctx of
        (Err e, ctx) \<Rightarrow> (Err e, ctx)
      | (Ok hostname, ctx) \<Rightarrow>
          (let ctx = set_hostname hostname ctx in
           case trie_get_ancestor_value T (reverse_subdomain hostname) (pf_index pf) of
             None \<Rightarrow> (Ok None, ctx)
           | Some candidates \<Rightarrow> first_match L H (pf_fallback_blueprint pf) candidates ctx))"

text \<open>A context that does not end up in a pipeline is dropped; the world it shared stays.\<close>

definition factory_build ::
  "lib \<Rightarrow> 'h hostcalls \<Rightarrow> 't trie_ops \<Rightarrow> 't pipeline_factory \<Rightarrow> 'h req_resp_ctx
     \<Rightarrow> ('h pipeline option, build_error) result \<times> 'h world"
where
  "factory_build L H T pf ctx =
     (case select_blueprint L H T pf ctx of
        (Err e, ctx) \<Rightarrow> (Err e, backend ctx)
      | (Ok None, ctx) \<Rightarrow> (Ok None, backend ctx)
      | (Ok (Some bp), ctx) \<Rightarrow>
          (let ctx = with_request_data (pf_request_data pf) (set_action_set_name (bp_name bp) ctx);
               p = request_pipeline L H bp (pf_request_data pf) (extract_trace_context L H ctx)
           in (Ok (if task_queue p = [] then None else Some p), backend (p_ctx p))))"

section \<open>The content of the index\<close>

lemma prefixes_longest:
  assumes "filter P (rev (prefixes k)) = p # ps"
  shows "prefix p k \<and> P p \<and> (\<forall>q. prefix q k \<longrightarrow> P q \<longrightarrow> length q \<le> length p)"
  using assms
proof (induction k rule: rev_induct)
  case (snoc x k)
  show ?case
  proof (cases "P (k @ [x])")
    case True
    with snoc.prems have "p = k @ [x]" by simp
    with True show ?thesis by (auto dest: prefix_length_le)
  next
    case False
    with snoc.prems have "filter P (rev (prefixes k)) = p # ps" by simp
    from snoc.IH [OF this] False show ?thesis by (auto simp: prefix_snoc)
  qed
qed (auto split: if_splits)

lemma closest_None: "closest m k = None \<longleftrightarrow> (\<forall>p. prefix p k \<longrightarrow> m p = None)"
proof (cases "filter (\<lambda>p. m p \<noteq> None) (rev (prefixes k))")
  case Nil
  then have "\<forall>p \<in> set (prefixes k). m p = None" by (auto simp: filter_empty_conv)
  with Nil show ?thesis by (simp add: closest_def)
next
  case (Cons p ps)
  from prefixes_longest [OF this] Cons show ?thesis by (auto simp: closest_def)
qed

lemma closest_Some:
  assumes "closest m k = Some v"
  shows "\<exists>p. prefix p k \<and> m p = Some v \<and> (\<forall>q. prefix q k \<longrightarrow> m q \<noteq> None \<longrightarrow> length q \<le> length p)"
proof (cases "filter (\<lambda>p. m p \<noteq> None) (rev (prefixes k))")
  case (Cons p ps)
  from prefixes_longest [OF this] Cons assms show ?thesis by (auto simp: closest_def)
qed (use assms in \<open>simp add: closest_def\<close>)

text \<open>The routes of a configuration: its hostnames with the blueprints they lead to, in order.\<close>

definition routes ::
  "lib \<Rightarrow> (string \<times> service_instance) list \<Rightarrow> request_data list \<Rightarrow> action option \<Rightarrow> action_set list
     \<Rightarrow> (string \<times> blueprint) list"
where
  "routes L services rdata dev sets = concat (map (\<lambda>cfg.
     case blueprint_compile L cfg services rdata of
       Ok bp \<Rightarrow> map (\<lambda>h. (h, with_dev_mode dev bp)) (as_hostnames cfg)
     | Err _ \<Rightarrow> []) sets)"

lemma index_action_sets_routes:
  "index_action_sets L T services rdata dev sets index = Ok index' \<Longrightarrow>
     index' = fold (\<lambda>(h, bp). index_hostname T bp h) (routes L services rdata dev sets) index"
proof (induction sets arbitrary: index)
  case (Cons cfg sets)
  then show ?case by (auto simp: routes_def fold_map comp_def split: result.splits)
qed (simp add: routes_def)

lemma index_content:
  assumes "trie_laws T content"
  shows "content (fold (\<lambda>(h, bp). index_hostname T bp h) es t) k =
    (case (content t k, map snd (filter (\<lambda>(h, _). reverse_subdomain h = k) es)) of
       (None, []) \<Rightarrow> None
     | (None, bs) \<Rightarrow> Some bs
     | (Some cs, bs) \<Rightarrow> Some (cs @ bs))"
proof (induction es arbitrary: t)
  case (Cons e es)
  obtain h bp where e: "e = (h, bp)" by force
  have "content (index_hostname T bp h t) = (content t)(reverse_subdomain h \<mapsto>
      case content t (reverse_subdomain h) of Some v \<Rightarrow> v @ [bp] | None \<Rightarrow> [bp])"
    using assms by (simp add: trie_laws_def index_hostname_def)
  with Cons [of "index_hostname T bp h t"] e show ?case by (auto split: option.split list.split)
qed (simp split: option.split)

lemma index_lookup:
  assumes "trie_laws T content" and "index_action_sets L T services rdata dev sets (trie_new T) = Ok index"
  shows "content index k =
    (case map snd (filter (\<lambda>(h, _). reverse_subdomain h = k) (routes L services rdata dev sets)) of
       [] \<Rightarrow> None | bs \<Rightarrow> Some bs)"
proof -
  have "content (trie_new T) k = None" using assms(1) by (simp add: trie_laws_def)
  with index_content [OF assms(1), of "routes L services rdata dev sets" "trie_new T" k]
    index_action_sets_routes [OF assms(2)] show ?thesis by simp
qed

section \<open>Hostnames\<close>

text \<open>Hostnames as DNS has them: no bytes beyond ASCII, no dollar sign; an asterisk only as the
  first label of a pattern.\<close>

definition plain_host :: "string \<Rightarrow> bool" where
  "plain_host h = (list_all (\<lambda>c. \<not> is_cont c \<and> c \<noteq> CHR ''$'') h)"

definition host_matches :: "string \<Rightarrow> string \<Rightarrow> bool" where
  "host_matches pattern host = (if prefix ''*'' pattern then suffix (tl pattern) host else pattern = host)"

lemma utf8_chars_plain: "list_all (\<lambda>c. \<not> is_cont c) s \<Longrightarrow> utf8_chars s = map (\<lambda>c. [c]) s"
proof (induction s)
  case (Cons c s)
  then show ?case by (cases s) auto
qed simp

lemma reverse_subdomain_plain:
  assumes "plain_host h"
  shows "reverse_subdomain h = CHR ''.'' # (if prefix ''*'' h then rev (tl h) else rev h @ ''$'')"
proof -
  have p: "list_all (\<lambda>c. \<not> is_cont c) h" using assms by (auto simp: plain_host_def list_all_iff)
  have d: "\<not> is_cont (CHR ''.'')" "\<not> is_cont (CHR ''$'')" by (simp_all add: is_cont_def)
  show ?thesis
  proof (cases "prefix ''*'' h")
    case True
    then obtain r where h: "h = CHR ''*'' # r" by (auto simp: prefix_def)
    with p d have "utf8_chars (r @ ''.'') = map (\<lambda>c. [c]) (r @ ''.'')" by (intro utf8_chars_plain) simp
    with h True show ?thesis by (simp add: reverse_subdomain_def rev_map)
  next
    case False
    then have nf: "\<not> prefix ''*'' (h @ ''.'')" by (cases h) auto
    from p d have "utf8_chars (CHR ''$'' # h @ ''.'') = map (\<lambda>c. [c]) (CHR ''$'' # h @ ''.'')"
      by (intro utf8_chars_plain) simp
    with False nf show ?thesis by (simp add: reverse_subdomain_def rev_map)
  qed
qed

lemma wildcard_cases:
  obtains r where "h = CHR ''*'' # r" "prefix ''*'' h" | "\<not> prefix ''*'' h"
  by (auto simp: prefix_def)

lemma dollar_last: "CHR ''$'' \<notin> set a \<Longrightarrow> rev a \<noteq> rev b @ ''$''"
proof
  assume a: "CHR ''$'' \<notin> set a" and "rev a = rev b @ ''$''"
  then have "set (rev a) = set (rev b) \<union> {CHR ''$''}" by (simp only: set_append) simp
  with a show False by simp
qed

lemma key_prefix:
  assumes p: "plain_host p" and h: "plain_host h" "\<not> prefix ''*'' h"
  shows "prefix (reverse_subdomain p) (reverse_subdomain h) \<longleftrightarrow> host_matches p h"
proof -
  have d: "CHR ''$'' \<notin> set p" "CHR ''$'' \<notin> set h" using p h by (auto simp: plain_host_def list_all_iff)
  have k: "reverse_subdomain h = CHR ''.'' # rev h @ ''$''" using reverse_subdomain_plain [OF h(1)] h(2) by simp
  show ?thesis
  proof (cases p rule: wildcard_cases)
    case (1 r)
    have "rev r \<noteq> rev h @ ''$''" using dollar_last d(1) 1 by simp
    then have "prefix (rev r) (rev h @ ''$'') \<longleftrightarrow> suffix r h" by (simp add: prefix_snoc suffix_to_prefix)
    with 1 reverse_subdomain_plain [OF p] k show ?thesis by (simp add: host_matches_def)
  next
    case 2
    have "prefix (rev p @ ''$'') (rev h @ ''$'') \<longleftrightarrow> p = h"
      using d(2) by (auto simp: prefix_snoc dest: set_mono_prefix)
    with 2 reverse_subdomain_plain [OF p] k show ?thesis by (simp add: host_matches_def)
  qed
qed

lemma key_inj:
  assumes "plain_host p" and "plain_host q" and "reverse_subdomain p = reverse_subdomain q"
  shows "p = q"
proof -
  have d: "CHR ''$'' \<notin> set p" "CHR ''$'' \<notin> set q" using assms by (auto simp: plain_host_def list_all_iff)
  have e: "(if prefix ''*'' p then rev (tl p) else rev p @ ''$'') = (if prefix ''*'' q then rev (tl q) else rev q @ ''$'')"
    using assms(3) unfolding reverse_subdomain_plain [OF assms(1)] reverse_subdomain_plain [OF assms(2)] by simp
  have x: "rev (tl a) \<noteq> rev b @ ''$''" if "CHR ''$'' \<notin> set a" for a b :: string
    using that by (intro dollar_last) (cases a, auto)
  show ?thesis
  proof (cases "prefix ''*'' p"; cases "prefix ''*'' q")
    assume "prefix ''*'' p" "prefix ''*'' q"
    with e show ?thesis by (auto simp: prefix_def)
  qed (use e x [OF d(1), of q] x [OF d(2), of p] in auto)
qed

lemma key_length: "plain_host p \<Longrightarrow> length (reverse_subdomain p) = (if prefix ''*'' p then length p else length p + 2)"
  by (auto simp: reverse_subdomain_plain prefix_def)

text \<open>A longer key is a more specific pattern.\<close>

lemma longest_key_most_specific:
  assumes "plain_host p" and "plain_host best" and "host_matches p host" and "host_matches best host"
    and "\<not> prefix ''*'' host" and "length (reverse_subdomain p) \<le> length (reverse_subdomain best)"
  shows "best = host \<or> (p \<noteq> host \<and> length p \<le> length best)"
  using assms(3-6) key_length [OF assms(1)] key_length [OF assms(2)]
  by (auto simp: host_matches_def split: if_splits dest!: suffix_length_le)

section \<open>Properties of the index\<close>

text \<open>C13: which blueprints a hostname leads to: the candidates are those of the most specific
  pattern of the configuration that matches it, in the order of the configuration; an exact
  hostname is more specific than any wildcard, and a longer wildcard than a shorter one.  There are
  none exactly when no pattern matches.\<close>

theorem hostname_selection:
  assumes "trie_laws T content" and "index_action_sets L T services rdata dev sets (trie_new T) = Ok index"
    and "plain_host host" and "\<not> prefix ''*'' host"
    and "\<forall>(pattern, bp) \<in> set (routes L services rdata dev sets). plain_host pattern"
  shows "case trie_get_ancestor_value T (reverse_subdomain host) index of
      None \<Rightarrow> \<forall>(pattern, bp) \<in> set (routes L services rdata dev sets). \<not> host_matches pattern host
    | Some candidates \<Rightarrow> \<exists>best. host_matches best host
        \<and> (\<forall>(pattern, bp) \<in> set (routes L services rdata dev sets). host_matches pattern host \<longrightarrow>
             best = host \<or> (pattern \<noteq> host \<and> length pattern \<le> length best))
        \<and> candidates = map snd (filter (\<lambda>(pattern, bp). pattern = best) (routes L services rdata dev sets))
        \<and> candidates \<noteq> []"
proof -
  let ?R = "routes L services rdata dev sets" and ?k = "reverse_subdomain host"
  have plain: "plain_host p" if "(p, bp) \<in> set ?R" for p bp using assms(5) that by blast
  have anc: "trie_get_ancestor_value T ?k index = closest (content index) ?k"
    using assms(1) by (simp add: trie_laws_def)
  note look = index_lookup [OF assms(1,2)]
  have some: "content index (reverse_subdomain p) \<noteq> None" if "(p, bp) \<in> set ?R" for p bp
    using that by (force simp: look filter_empty_conv split: list.split)
  have pre: "prefix (reverse_subdomain p) ?k \<longleftrightarrow> host_matches p host" if "(p, bp) \<in> set ?R" for p bp
    using key_prefix [OF plain [OF that] assms(3,4)] .
  show ?thesis
  proof (cases "closest (content index) ?k")
    case None
    then have "\<not> host_matches p host" if "(p, bp) \<in> set ?R" for p bp
      using some [OF that] pre [OF that] by (auto simp: closest_None)
    with None show ?thesis by (auto simp: anc)
  next
    case (Some bs)
    from closest_Some [OF this] obtain key where key: "prefix key ?k" "content index key = Some bs"
      and longest: "\<forall>q. prefix q ?k \<longrightarrow> content index q \<noteq> None \<longrightarrow> length q \<le> length key" by blast
    from key(2) have bs: "bs = map snd (filter (\<lambda>(h, _). reverse_subdomain h = key) ?R)" "bs \<noteq> []"
      unfolding look by (auto split: list.splits)
    then obtain best bp0 where b: "(best, bp0) \<in> set ?R" "reverse_subdomain best = key"
      by (auto simp: filter_empty_conv)
    have m: "host_matches best host" using pre [OF b(1)] key(1) b(2) by simp
    have "(reverse_subdomain p = key) = (p = best)" if "(p, bp) \<in> set ?R" for p bp
      using key_inj [OF plain [OF that] plain [OF b(1)]] b(2) by auto
    then have "filter (\<lambda>(h, _). reverse_subdomain h = key) ?R = filter (\<lambda>(pattern, bp). pattern = best) ?R"
      by (intro filter_cong) auto
    with bs(1) have sel: "bs = map snd (filter (\<lambda>(pattern, bp). pattern = best) ?R)" by simp
    have best: "best = host \<or> (p \<noteq> host \<and> length p \<le> length best)"
      if p: "(p, bp) \<in> set ?R" and pm: "host_matches p host" for p bp
      using longest_key_most_specific [OF plain [OF p] plain [OF b(1)] pm m assms(4)] longest pre [OF p] pm some [OF p] b(2)
      by blast
    show ?thesis using anc Some m best sel bs(2) by auto
  qed
qed

text \<open>A trie that is the map of its content.\<close>

definition trie_ref :: "(string \<Rightarrow> blueprint list option) trie_ops" where
  "trie_ref = \<lparr>trie_new = (\<lambda>_. None),
     trie_map_with_default = (\<lambda>k f d t. t(k \<mapsto> case t k of Some v \<Rightarrow> f v | None \<Rightarrow> d)),
     trie_get_ancestor_value = (\<lambda>k t. closest t k)\<rparr>"

lemma trie_ref_laws: "trie_laws trie_ref (\<lambda>t. t)"
  by (simp add: trie_laws_def trie_ref_def)

definition host_sets :: "action_set list" where
  "host_sets = [\<lparr>as_name = ''wild'', as_hostnames = [''*.a''], as_predicates = [], as_actions = []\<rparr>,
     \<lparr>as_name = ''exact'', as_hostnames = [''b.a''], as_predicates = [], as_actions = []\<rparr>]"

lemma host_routes: "routes flow_lib [] [] None host_sets =
    [(''*.a'', \<lparr>bp_name = ''wild'', bp_route_predicates = [], bp_actions = []\<rparr>),
     (''b.a'', \<lparr>bp_name = ''exact'', bp_route_predicates = [], bp_actions = []\<rparr>)]"
  by (simp add: routes_def host_sets_def blueprint_compile_def with_dev_mode_def)

theorem hostname_selection_witness:
  "\<exists>index candidates. index_action_sets flow_lib trie_ref [] [] None host_sets (trie_new trie_ref) = Ok index
     \<and> trie_get_ancestor_value trie_ref (reverse_subdomain ''b.a'') index = Some candidates
     \<and> map bp_name candidates = [''exact'']"
proof -
  obtain index where i: "index_action_sets flow_lib trie_ref [] [] None host_sets (trie_new trie_ref) = Ok index"
    by (simp add: host_sets_def blueprint_compile_def)
  have p: "plain_host ''b.a''" "plain_host ''*.a''" "\<not> prefix ''*'' ''b.a''" by (simp_all add: plain_host_def is_cont_def)
  from hostname_selection [OF trie_ref_laws i p(1,3)] p
  obtain candidates where "trie_get_ancestor_value trie_ref (reverse_subdomain ''b.a'') index = Some candidates"
    "map bp_name candidates = [''exact'']"
    by (auto simp: host_routes host_matches_def split: option.splits)
  with i show ?thesis by (intro exI conjI)
qed

section \<open>Pipelines of a factory\<close>

lemma dev_mode_ids: "dev_mode_action L s h = Some a \<Longrightarrow> action_ids a = [''kuadrant.devMode'']"
  by (auto simp: dev_mode_action_def split: result.splits)

definition ids_ok :: "blueprint \<Rightarrow> bool" where
  "ids_ok bp = (distinct (blueprint_ids bp) \<and> set (blueprint_ids bp) \<inter> teardown_ids = {})"

lemma with_dev_mode_ids:
  assumes "blueprint_compile L cfg services rdata = Ok bp"
    and "\<And>a. dev = Some a \<Longrightarrow> action_ids a = [''kuadrant.devMode'']"
  shows "ids_ok (with_dev_mode dev bp)"
proof -
  note ids = blueprint_compile_ids [OF assms(1)]
  have "''kuadrant.devMode'' \<notin> teardown_ids" by (auto simp: teardown_ids_def)
  with ids assms(2) number_ids_other show ?thesis
    by (cases dev) (auto simp: ids_ok_def with_dev_mode_def blueprint_ids_def)
qed

definition factory_ok :: "('t \<Rightarrow> string \<Rightarrow> blueprint list option) \<Rightarrow> 't pipeline_factory \<Rightarrow> bool" where
  "factory_ok content pf =
     ((\<forall>k bs. content (pf_index pf) k = Some bs \<longrightarrow> (\<forall>bp \<in> set bs. ids_ok bp))
      \<and> (\<forall>bp. pf_fallback_blueprint pf = Some bp \<longrightarrow> ids_ok bp))"

lemma routes_ids_ok:
  assumes "\<And>a. dev = Some a \<Longrightarrow> action_ids a = [''kuadrant.devMode'']" and "(h, bp) \<in> set (routes L services rdata dev sets)"
  shows "ids_ok bp"
  using assms(2) with_dev_mode_ids [OF _ assms(1)] by (auto simp: routes_def split: result.splits)

lemma factory_with_ok:
  assumes T: "trie_laws T content" and f: "factory_with L T config services dev = Ok pf"
    and dev: "\<And>a. dev = Some a \<Longrightarrow> action_ids a = [''kuadrant.devMode'']"
  shows "factory_ok content pf"
proof -
  obtain rdata sets where i: "index_action_sets L T services rdata dev sets (trie_new T) = Ok (pf_index pf)"
    and fb: "pf_fallback_blueprint pf = map_option
        (\<lambda>a. \<lparr>bp_name = ''kuadrant.devMode'', bp_route_predicates = [], bp_actions = [a]\<rparr>) dev"
    using f by (auto simp: factory_with_def Let_def bind_result_eq_Ok)
  have "ids_ok bp" if c: "content (pf_index pf) k = Some bs" "bp \<in> set bs" for k bs bp
  proof -
    have "bs = map snd (filter (\<lambda>(h, _). reverse_subdomain h = k) (routes L services rdata dev sets))"
      using c(1) unfolding index_lookup [OF T i] by (auto split: list.splits)
    with c(2) obtain h where "(h, bp) \<in> set (routes L services rdata dev sets)" by auto
    with dev show ?thesis by (rule routes_ids_ok)
  qed
  moreover have "ids_ok bp" if "pf_fallback_blueprint pf = Some bp" for bp
    using that dev by (auto simp: fb ids_ok_def blueprint_ids_def teardown_ids_def)
  ultimately show ?thesis unfolding factory_ok_def by blast
qed

lemma factory_of_ok:
  assumes "trie_laws T content" and "factory_of L T config services = Some (Ok pf)"
  shows "factory_ok content pf"
  using assms(2) factory_with_ok [OF assms(1)] dev_mode_ids
  by (cases "ob_http_header_identifier (pc_observability config)") (fastforce simp: factory_of_def)+

lemma get_hostname_control: "get_hostname H ctx = (r, ctx') \<Longrightarrow> same_control ctx ctx'"
  by (auto simp: get_hostname_def get_attribute_def split: prod.splits result.splits attribute_state.splits option.splits
      dest!: get_attribute_ref_control)

lemma first_match_facts:
  "first_match L H fb bps ctx = (r, ctx') \<Longrightarrow>
     same_control ctx ctx' \<and> (\<forall>bp. r = Ok (Some bp) \<longrightarrow> bp \<in> set bps \<or> fb = Some bp)"
proof (induction bps arbitrary: ctx)
  case (Cons b bps)
  obtain m ctx1 where m: "route_predicates_match L H b ctx = (m, ctx1)" by force
  obtain x ctx0 where p: "predicates_apply L H (bp_route_predicates b) ctx = (x, ctx0)" by force
  have "same_control ctx ctx1"
    using m p reads_only_control [OF predicates_apply_reads [OF p]]
    by (auto simp: route_predicates_match_def split: result.splits attribute_state.splits)
  with Cons.prems Cons.IH [of ctx1] m show ?case
    by (auto split: result.splits bool.splits intro: same_control_trans)
qed auto

lemma select_blueprint_facts:
  assumes "factory_ok content pf" and "trie_laws T content" and "select_blueprint L H T pf ctx = (r, ctx')"
  shows "same_control ctx ctx' \<and> (\<forall>bp. r = Ok (Some bp) \<longrightarrow> ids_ok bp)"
proof -
  obtain h ctx1 where h: "get_hostname H ctx = (h, ctx1)" by force
  have c: "same_control ctx (set_hostname n ctx1)" for n
    using get_hostname_control [OF h] by (simp add: set_hostname_def same_control_def)
  show ?thesis
  proof (cases h)
    case (Ok hn)
    show ?thesis
    proof (cases "closest (content (pf_index pf)) (reverse_subdomain hn)")
      case None
      with assms(2,3) h Ok c show ?thesis by (auto simp: select_blueprint_def trie_laws_def)
    next
      case (Some bps)
      then have m: "first_match L H (pf_fallback_blueprint pf) bps (set_hostname hn ctx1) = (r, ctx')"
        using assms(2,3) h Ok by (simp add: select_blueprint_def trie_laws_def)
      from closest_Some [OF Some] assms(1) have "\<forall>bp \<in> set bps. ids_ok bp" by (auto simp: factory_ok_def)
      with first_match_facts [OF m] assms(1) c show ?thesis by (auto simp: factory_ok_def intro: same_control_trans)
    qed
  qed (use assms(3) h get_hostname_control [OF h] in \<open>auto simp: select_blueprint_def\<close>)
qed

lemma extract_trace_context_control: "same_control ctx (extract_trace_context L H ctx)"
proof -
  obtain r ctx1 where g: "get_attribute H headers_from_cached ''request.headers'' ctx = (r, ctx1)" by force
  then have "same_control ctx ctx1" by (auto simp: get_attribute_def dest: get_attribute_ref_control)
  with g show ?thesis by (auto simp: extract_trace_context_def split: result.splits attribute_state.splits option.splits)
qed

text \<open>What a pipeline of a factory is made of.\<close>

lemma factory_build_pipeline:
  assumes ok: "factory_ok content pf" and T: "trie_laws T content"
    and b: "factory_build L H T pf (req_resp_ctx_new w) = (Ok (Some p), w')"
  shows "\<exists>bp ctx. ids_ok bp \<and> p = request_pipeline L H bp (pf_request_data pf) ctx
    \<and> barrier ctx = Barrier 0 \<and> grpc_response_data ctx = None"
proof -
  obtain r ctx1 where s: "select_blueprint L H T pf (req_resp_ctx_new w) = (r, ctx1)" by force
  with b obtain bp where bp: "r = Ok (Some bp)" and p: "p = request_pipeline L H bp (pf_request_data pf)
      (extract_trace_context L H (with_request_data (pf_request_data pf) (set_action_set_name (bp_name bp) ctx1)))"
    by (auto simp: factory_build_def Let_def split: result.splits option.splits if_splits)
  let ?ctx = "with_request_data (pf_request_data pf) (set_action_set_name (bp_name bp) ctx1)"
  from select_blueprint_facts [OF ok T s] bp have ids: "ids_ok bp" and c: "same_control (req_resp_ctx_new w) ctx1" by blast+
  have "same_control (req_resp_ctx_new w) ?ctx"
    using c by (simp add: with_request_data_def set_action_set_name_def same_control_def)
  with extract_trace_context_control have "same_control (req_resp_ctx_new w) (extract_trace_context L H ?ctx)"
    by (rule same_control_trans [rotated])
  then have "barrier (extract_trace_context L H ?ctx) = Barrier 0"
    "grpc_response_data (extract_trace_context L H ?ctx) = None"
    by (simp_all add: same_control_def req_resp_ctx_new_def)
  with ids p show ?thesis by blast
qed


definition web_config :: plugin_configuration where
  "web_config = \<lparr>pc_request_data = [], pc_services = [], pc_action_sets = [plain_config],
     pc_observability = \<lparr>ob_http_header_identifier = None, ob_default_level = None, ob_tracing = None\<rparr>,
     pc_descriptor_service = ''d''\<rparr>"

definition web_factory :: "(string \<Rightarrow> blueprint list option) pipeline_factory" where
  "web_factory = \<lparr>pf_index = [reverse_subdomain ''h'' \<mapsto> [plain_blueprint]], pf_request_data = [],
     pf_fallback_blueprint = None\<rparr>"

lemma web_factory_of: "factory_of flow_lib trie_ref web_config [(''s'', SI_Dynamic demo_service)] = Some (Ok web_factory)"
proof -
  have "blueprint_compile flow_lib (plain_config\<lparr>as_actions :=
      map (translate_config [(''s'', SI_Dynamic demo_service)] []) (as_actions plain_config)\<rparr>)
      [(''s'', SI_Dynamic demo_service)] [] = Ok plain_blueprint"
    using plain_compile by (simp add: plain_config_def translate_config_def)
  then show ?thesis
    by (simp add: factory_of_def factory_with_def web_config_def web_factory_def Let_def request_data_raw_def
        compile_request_data_def List.map_filter_def with_dev_mode_def)
       (simp add: plain_config_def trie_ref_def index_hostname_def)
qed

lemma web_hostname: "\<exists>ctx'. get_hostname flow_host (req_resp_ctx_new w) = (Ok ''h'', ctx')"
  by (simp add: get_hostname_def get_attribute_def get_attribute_ref_def get_or_insert_with_def cache_get_def
      req_resp_ctx_new_def attribute_cache_new_def fetch_attribute_def host_get_attribute_def flow_host_def
      path_from_def available_as_def from_cached_def parse_string_def byte_in_def)

lemma plain_tasks: "task_queue (request_pipeline flow_lib flow_host plain_blueprint [] ctx) \<noteq> []"
  using plain_start [of ctx] by (simp add: plain_pipeline_def)

lemma web_select:
  "\<exists>ctx'. select_blueprint flow_lib flow_host trie_ref web_factory (req_resp_ctx_new w) =
     (Ok (Some plain_blueprint), ctx')"
proof -
  obtain ctx1 where h: "get_hostname flow_host (req_resp_ctx_new w) = (Ok ''h'', ctx1)"
    using web_hostname [of w] by blast
  have "plain_host ''h''" by (simp add: plain_host_def is_cont_def)
  then have "closest [reverse_subdomain ''h'' \<mapsto> [plain_blueprint]] (reverse_subdomain ''h'') = Some [plain_blueprint]"
    by (simp add: reverse_subdomain_plain closest_def)
  with h show ?thesis
    by (simp add: select_blueprint_def trie_ref_def web_factory_def route_predicates_match_def plain_blueprint_def
        predicates_apply_def)
qed

lemma web_build:
  "\<exists>ctx w'. factory_build flow_lib flow_host trie_ref web_factory (req_resp_ctx_new w) =
     (Ok (Some (request_pipeline flow_lib flow_host plain_blueprint [] ctx)), w')
     \<and> same_control (req_resp_ctx_new w) ctx"
proof -
  obtain ctx1 where s: "select_blueprint flow_lib flow_host trie_ref web_factory (req_resp_ctx_new w) =
      (Ok (Some plain_blueprint), ctx1)" using web_select [of w] by blast
  let ?c = "with_request_data [] (set_action_set_name (bp_name plain_blueprint) ctx1)"
  let ?ctx = "extract_trace_context flow_lib flow_host ?c"
  have "same_control (req_resp_ctx_new w) ctx1"
    using select_blueprint_facts [OF factory_of_ok [OF trie_ref_laws web_factory_of] trie_ref_laws s] by blast
  then have "same_control (req_resp_ctx_new w) ?c"
    by (simp add: with_request_data_def set_action_set_name_def same_control_def)
  from same_control_trans [OF this extract_trace_context_control]
  have "same_control (req_resp_ctx_new w) ?ctx" .
  moreover have "factory_build flow_lib flow_host trie_ref web_factory (req_resp_ctx_new w) =
     (Ok (Some (request_pipeline flow_lib flow_host plain_blueprint [] ?ctx)),
      backend (p_ctx (request_pipeline flow_lib flow_host plain_blueprint [] ?ctx)))"
    using s plain_tasks by (simp add: factory_build_def Let_def web_factory_def)
  ultimately show ?thesis by blast
qed


section \<open>Request data\<close>

lemma domain_and_field_cases:
  assumes "domain_and_field_name L k = (d, f)"
  shows "(d = [] \<and> f = k) \<or> (d \<noteq> [] \<and> k = d @ ''.'' @ f)"
proof -
  let ?h = "take (last_alphabetic L 0 0 (utf8_chars k)) k"
  show ?thesis
  proof (cases "str_rfind ''.'' ?h")
    case (Some i)
    from str_rfind_Some [OF Some] obtain r where "drop i ?h = CHR ''.'' # r" by (auto simp: prefix_def)
    moreover from this have "i < length ?h" by (cases "i < length ?h") auto
    ultimately have "i < length k" "k ! i = CHR ''.''"
      using hd_drop_conv_nth [of i ?h] by simp_all
    then have "k = take i k @ ''.'' @ drop (i + 1) k" using id_take_nth_drop [of i k] by simp
    with Some assms show ?thesis by (auto simp: domain_and_field_name_def Let_def split: if_splits)
  qed (use assms in \<open>simp add: domain_and_field_name_def\<close>)
qed

lemma domain_and_field_inj: "domain_and_field_name L k = domain_and_field_name L k' \<Longrightarrow> k = k'"
proof -
  assume e: "domain_and_field_name L k = domain_and_field_name L k'"
  obtain d f where k: "domain_and_field_name L k = (d, f)" by force
  from domain_and_field_cases [OF k] domain_and_field_cases [OF k [unfolded e]] show ?thesis by auto
qed

text \<open>C21: the request data a factory keeps does not depend on the order in which the hash map of
  the configuration is iterated: names are split into domain and field without loss, so the sorted
  entries have distinct keys.\<close>

theorem request_data_order_irrelevant:
  assumes "mset rd = mset rd'" and "distinct (map fst rd)"
  shows "compile_request_data L (request_data_raw L rd) = compile_request_data L (request_data_raw L rd')"
proof -
  define g where "g = (\<lambda>(k, v). case expression_new L v of Ok expr \<Rightarrow> Some (domain_and_field_name L k, expr) | Err _ \<Rightarrow> None)"
  have eq: "compile_request_data L (request_data_raw L xs) = sort_key fst (List.map_filter g xs)" for xs
    unfolding compile_request_data_def
    by (rule arg_cong [of _ _ "sort_key fst"], induction xs)
       (auto simp: request_data_raw_def g_def map_filter_simps split: option.splits result.splits)
  have m: "mset (List.map_filter g xs) = image_mset (\<lambda>x. the (g x)) (filter_mset (\<lambda>x. g x \<noteq> None) (mset xs))" for xs
    by (simp add: List.map_filter_def comp_def)
  have "inj_on fst (set (List.map_filter g rd))"
  proof (rule inj_onI)
    fix x y assume "x \<in> set (List.map_filter g rd)" "y \<in> set (List.map_filter g rd)" and e: "fst x = fst y"
    then obtain k v k' v' where x: "(k, v) \<in> set rd" "g (k, v) = Some x" and y: "(k', v') \<in> set rd" "g (k', v') = Some y"
      by (auto simp: List.map_filter_def)
    from x(2) y(2) e have "domain_and_field_name L k = domain_and_field_name L k'"
      by (auto simp: g_def split: result.splits)
    then have "k = k'" by (rule domain_and_field_inj)
    with x(1) y(1) assms(2) have "v = v'" by (simp add: eq_key_imp_eq_value)
    with \<open>k = k'\<close> x(2) y(2) show "x = y" by simp
  qed
  moreover have "mset (List.map_filter g rd) = mset (sort_key fst (List.map_filter g rd'))"
    using assms(1) m [of rd] m [of rd'] by simp
  ultimately have "sort_key fst (List.map_filter g rd) = sort_key fst (List.map_filter g rd')"
    by (intro sort_key_inj_key_eq) simp_all
  then show ?thesis by (simp only: eq)
qed

theorem request_data_order_irrelevant_witness:
  "compile_request_data flow_lib (request_data_raw flow_lib [(''metrics.b'', []), (''a'', [])])
     = compile_request_data flow_lib (request_data_raw flow_lib [(''a'', []), (''metrics.b'', [])])"
  by (rule request_data_order_irrelevant) simp_all

end
