(* ===== verification/Http_Filter.thy ===== *)
theory Http_Filter
  imports Factory
begin

text \<open>
  \<^verbatim>\<open>src/filter/kuadrant_filter.rs\<close>: the callbacks of one HTTP stream.  A callback gets the
  world as the host left it and gives back the world it leaves; \<open>None\<close> is a trap of the module.
\<close>

datatype http_action = Act_Continue | Act_Pause

record ('h, 't) kuadrant_filter =
  kf_context_id :: u32
  kf_factory :: "'t pipeline_factory"
  kf_pipeline :: "'h pipeline option"
  kf_in_response_phase :: bool
  kf_force_resume :: bool

definition kuadrant_filter_new :: "u32 \<Rightarrow> 't pipeline_factory \<Rightarrow> ('h, 't) kuadrant_filter" where
  "kuadrant_filter_new i pf = \<lparr>kf_context_id = i, kf_factory = pf, kf_pipeline = None,
     kf_in_response_phase = False, kf_force_resume = False\<rparr>"

definition should_pause :: "('h, 't) kuadrant_filter \<Rightarrow> bool" where
  "should_pause f = (case kf_pipeline f of Some p \<Rightarrow> requires_pause p | None \<Rightarrow> False)"

text \<open>\<^verbatim>\<open>should_resume\<close> of a filter whose pipeline is \<open>p\<close> (it is only called with one).\<close>

definition should_resume :: "'h pipeline \<Rightarrow> ('h, 't) kuadrant_filter \<Rightarrow> bool" where
  "should_resume p f =
     (if is_terminated p \<and> kf_in_response_phase f then \<not> should_pause f
      else \<not> is_terminated p \<and> \<not> should_pause f)"

definition pause_or_continue :: "('h, 't) kuadrant_filter \<Rightarrow> http_action" where
  "pause_or_continue f = (if should_pause f then Act_Pause else Act_Continue)"

text \<open>The filter after an evaluation, with the world it leaves.\<close>

definition keep_state ::
  "'h pipeline_state \<Rightarrow> ('h, 't) kuadrant_filter \<Rightarrow> (('h, 't) kuadrant_filter \<times> 'h world) option"
where
  "keep_state st f =
     (case st of
        InProgress p \<Rightarrow> Some (f\<lparr>kf_pipeline := Some p\<rparr>, backend (p_ctx p))
      | Completed _ w \<Rightarrow> Some (f\<lparr>kf_pipeline := None\<rparr>, w)
      | Trapped \<Rightarrow> None)"

definition increment_world :: "'h hostcalls \<Rightarrow> string \<Rightarrow> 'h world \<Rightarrow> 'h world" where
  "increment_world H metric w = w\<lparr>w_host := metric_increment H metric (w_host w)\<rparr>"

definition on_http_request_headers ::
  "lib \<Rightarrow> nom \<Rightarrow> 'h hostcalls \<Rightarrow> 't trie_ops \<Rightarrow> 'h world \<Rightarrow> ('h, 't) kuadrant_filter
     \<Rightarrow> (http_action \<times> ('h, 't) kuadrant_filter \<times> 'h world) option"
where
  "on_http_request_headers L N H T w f =
     (case factory_build L H T (kf_factory f) (req_resp_ctx_new w) of
        (Ok (Some p), w) \<Rightarrow>
          map_option (\<lambda>(f, w). (pause_or_continue f, f, w))
            (keep_state (pipeline_eval L N H (set_world (increment_world H ''kuadrant.hits'' w) p)) f)
      | (Ok None, w) \<Rightarrow> Some (Act_Continue, f, increment_world H ''kuadrant.misses'' w)
      | (Err e, w) \<Rightarrow>
          (let w = increment_world H ''kuadrant.errors'' w in
           case hc_send_http_response H 500 [] (Some (''Internal Server Error.'' @ [CHR 0x0A])) (w_host w) of
             (Ok _, h) \<Rightarrow> Some (Act_Continue, f, w\<lparr>w_host := h\<rparr>)
           | (Err _, h) \<Rightarrow> None))"

text \<open>Evaluating the pipeline of a filter, if there is one, after a change to its context.\<close>

definition evaluate_with ::
  "lib \<Rightarrow> nom \<Rightarrow> 'h hostcalls \<Rightarrow> ('h req_resp_ctx \<Rightarrow> 'h req_resp_ctx) \<Rightarrow> 'h world \<Rightarrow> ('h, 't) kuadrant_filter
     \<Rightarrow> (('h, 't) kuadrant_filter \<times> 'h world) option"
where
  "evaluate_with L N H change w f =
     (case kf_pipeline f of
        None \<Rightarrow> Some (f, w)
      | Some p \<Rightarrow>
          (let p = set_world w p in keep_state (pipeline_eval L N H (p\<lparr>p_ctx := change (p_ctx p)\<rparr>)) f))"

definition on_http_request_body ::
  "lib \<Rightarrow> nom \<Rightarrow> 'h hostcalls \<Rightarrow> nat \<Rightarrow> bool \<Rightarrow> 'h world \<Rightarrow> ('h, 't) kuadrant_filter
     \<Rightarrow> (http_action \<times> ('h, 't) kuadrant_filter \<times> 'h world) option"
where
  "on_http_request_body L N H buffer_size end_of_stream w f =
     map_option (\<lambda>(f, w). (pause_or_continue f, f, w))
       (evaluate_with L N H (set_current_request_body_buffer_size buffer_size end_of_stream) w f)"

definition on_http_response_headers ::
  "lib \<Rightarrow> nom \<Rightarrow> 'h hostcalls \<Rightarrow> 'h world \<Rightarrow> ('h, 't) kuadrant_filter
     \<Rightarrow> (http_action \<times> ('h, 't) kuadrant_filter \<times> 'h world) option"
where
  "on_http_response_headers L N H w f =
     map_option (\<lambda>(f, w). (pause_or_continue f, f, w))
       (evaluate_with L N H id (increment_world H ''kuadrant.allowed'' w) (f\<lparr>kf_in_response_phase := True\<rparr>))"

definition on_http_response_body ::
  "lib \<Rightarrow> nom \<Rightarrow> 'h hostcalls \<Rightarrow> nat \<Rightarrow> bool \<Rightarrow> 'h world \<Rightarrow> ('h, 't) kuadrant_filter
     \<Rightarrow> (http_action \<times> ('h, 't) kuadrant_filter \<times> 'h world) option"
where
  "on_http_response_body L N H buffer_size end_of_stream w f =
     map_option (\<lambda>(f, w).
         if should_pause f then (Act_Pause, f, w)
         else if kf_pipeline f \<noteq> None \<and> end_of_stream then (Act_Pause, f\<lparr>kf_force_resume := True\<rparr>, w)
         else (Act_Continue, f, w))
       (evaluate_with L N H (set_current_response_body_buffer_size buffer_size end_of_stream) w f)"

text \<open>What an answer makes of the stream: nothing, or one of the two resume calls.\<close>

datatype resumed = Not_resumed | Request_resumed | Response_resumed

definition resume_stream ::
  "'h hostcalls \<Rightarrow> bool \<Rightarrow> ('h, 't) kuadrant_filter \<Rightarrow> 'h world \<Rightarrow> resumed \<times> 'h world"
where
  "resume_stream H resume f w =
     (if \<not> resume then (Not_resumed, w)
      else if kf_in_response_phase f then (Response_resumed, w\<lparr>w_host := hc_resume_http_response H (w_host w)\<rparr>)
      else (Request_resumed, w\<lparr>w_host := hc_resume_http_request H (w_host w)\<rparr>))"

definition on_grpc_call_response ::
  "lib \<Rightarrow> nom \<Rightarrow> 'h hostcalls \<Rightarrow> u32 \<Rightarrow> u32 \<Rightarrow> nat \<Rightarrow> 'h world \<Rightarrow> ('h, 't) kuadrant_filter
     \<Rightarrow> (resumed \<times> ('h, 't) kuadrant_filter \<times> 'h world) option"
where
  "on_grpc_call_response L N H token_id status_code response_size w f =
     (case kf_pipeline f of
        None \<Rightarrow> Some (Not_resumed, f, w)
      | Some p \<Rightarrow>
          (case digest L N H token_id status_code response_size (set_world w p) of
             InProgress p' \<Rightarrow>
               (let f' = f\<lparr>kf_pipeline := Some p'\<rparr> in
                case resume_stream H (should_resume p' f') f' (backend (p_ctx p')) of
                  (r, w') \<Rightarrow> Some (r, f', w'))
           | Completed resume w' \<Rightarrow>
               (let f' = f\<lparr>kf_pipeline := None\<rparr> in
                case resume_stream H (resume \<or> kf_force_resume f' \<or> kf_in_response_phase f') f' w' of
                  (r, w'') \<Rightarrow> Some (r, f', w''))
           | Trapped \<Rightarrow> None))"

section \<open>A stream\<close>

text \<open>The life of a stream: the callbacks the host makes, in any order it may make them.  Besides
  the filter the state has what the host knows: whether it has called the first callback, whether
  request and response are held back, and whether the pipeline of the request has ended it (with a
  reply of its own).  An answer comes only for a call in flight, and the calls of the filter are in
  flight in every world it sees.\<close>

record ('h, 't) stream =
  s_filter :: "('h, 't) kuadrant_filter"
  s_started :: bool
  s_request_paused :: bool
  s_response_paused :: bool
  s_ended :: bool

definition pipeline_calls :: "('h, 't) kuadrant_filter \<Rightarrow> u32 set" where
  "pipeline_calls f = (case kf_pipeline f of Some p \<Rightarrow> fst ` set (deferred_tasks p) | None \<Rightarrow> {})"

definition stream_new :: "u32 \<Rightarrow> 't pipeline_factory \<Rightarrow> ('h, 't) stream" where
  "stream_new i pf = \<lparr>s_filter = kuadrant_filter_new i pf, s_started = False, s_request_paused = False,
     s_response_paused = False, s_ended = False\<rparr>"

inductive stream_step ::
  "lib \<Rightarrow> nom \<Rightarrow> 'h hostcalls \<Rightarrow> 't trie_ops \<Rightarrow> ('h \<Rightarrow> u32 set) \<Rightarrow> ('h, 't) stream \<Rightarrow> ('h, 't) stream \<Rightarrow> bool"
  for L :: lib and N :: nom and H :: "'h hostcalls" and T :: "'t trie_ops" and out :: "'h \<Rightarrow> u32 set"
where
  request_headers: "\<not> s_started s \<Longrightarrow>
    on_http_request_headers L N H T w (s_filter s) = Some (a, f, w') \<Longrightarrow>
    stream_step L N H T out s (s\<lparr>s_filter := f, s_started := True, s_request_paused := (a = Act_Pause)\<rparr>)"
| request_body: "s_started s \<Longrightarrow> pipeline_calls (s_filter s) \<subseteq> out (w_host w) \<Longrightarrow>
    on_http_request_body L N H n eos w (s_filter s) = Some (a, f, w') \<Longrightarrow>
    stream_step L N H T out s (s\<lparr>s_filter := f, s_request_paused := (a = Act_Pause)\<rparr>)"
| response_headers: "s_started s \<Longrightarrow> pipeline_calls (s_filter s) \<subseteq> out (w_host w) \<Longrightarrow>
    on_http_response_headers L N H w (s_filter s) = Some (a, f, w') \<Longrightarrow>
    stream_step L N H T out s (s\<lparr>s_filter := f, s_response_paused := (a = Act_Pause)\<rparr>)"
| response_body: "s_started s \<Longrightarrow> pipeline_calls (s_filter s) \<subseteq> out (w_host w) \<Longrightarrow> kf_in_response_phase (s_filter s) \<Longrightarrow>
    on_http_response_body L N H n eos w (s_filter s) = Some (a, f, w') \<Longrightarrow>
    stream_step L N H T out s (s\<lparr>s_filter := f, s_response_paused := (a = Act_Pause)\<rparr>)"
| answer: "tok \<in> pipeline_calls (s_filter s) \<Longrightarrow> pipeline_calls (s_filter s) - {tok} \<subseteq> out (w_host w) \<Longrightarrow>
    on_grpc_call_response L N H tok st n w (s_filter s) = Some (r, f, w') \<Longrightarrow>
    stream_step L N H T out s
      (s\<lparr>s_filter := f,
         s_request_paused := s_request_paused s \<and> r \<noteq> Request_resumed,
         s_response_paused := s_response_paused s \<and> r \<noteq> Response_resumed,
         s_ended := s_ended s \<or> (\<exists>p w''. kf_pipeline (s_filter s) = Some p
           \<and> digest L N H tok st n (set_world w p) = Completed False w'')\<rparr>)"

abbreviation stream_run ::
  "lib \<Rightarrow> nom \<Rightarrow> 'h hostcalls \<Rightarrow> 't trie_ops \<Rightarrow> ('h \<Rightarrow> u32 set) \<Rightarrow> ('h, 't) stream \<Rightarrow> ('h, 't) stream \<Rightarrow> bool"
where
  "stream_run L N H T out \<equiv> (stream_step L N H T out)\<^sup>*\<^sup>*"

subsection \<open>The pipelines of a stream\<close>

definition request_run ::
  "lib \<Rightarrow> nom \<Rightarrow> 'h hostcalls \<Rightarrow> ('h \<Rightarrow> u32 set) \<Rightarrow> request_data list \<Rightarrow> 'h pipeline \<Rightarrow> bool"
where
  "request_run L N H out rdata p =
     (\<exists>bp ctx evs. ids_ok bp \<and> barrier ctx = Barrier 0 \<and> grpc_response_data ctx = None
        \<and> pipeline_run L N H out (request_pipeline L H bp rdata ctx) evs p)"

lemma request_run_step:
  "request_run L N H out rdata p \<Longrightarrow> pipeline_step L N H out p ev p' \<Longrightarrow> request_run L N H out rdata p'"
  unfolding request_run_def by (blast intro: pipeline_run.step)

lemma request_run_inv: "token_laws H out \<Longrightarrow> request_run L N H out rdata p \<Longrightarrow> pipeline_inv out p"
  unfolding request_run_def by (blast intro: pipeline_run_inv request_pipeline_facts(1) [OF refl])

definition working :: "'h pipeline \<Rightarrow> bool" where
  "working p = (task_queue p \<noteq> [] \<or> deferred_tasks p \<noteq> [])"

lemma state_from_working: "pipeline_state_from p = InProgress p' \<Longrightarrow> working p'"
  by (auto simp: pipeline_state_from_def working_def split: if_splits)

lemma eval_loop_return_working: "eval_loop L N H ts p = Loop_return (InProgress p') \<Longrightarrow> working p'"
proof (induction ts arbitrary: p)
  case (Cons t ts)
  then show ?case
    by (auto split: if_splits prod.splits task_outcome.splits option.splits dest: state_from_working)
qed simp

lemma eval_working: "pipeline_eval L N H p = InProgress p' \<Longrightarrow> working p'"
  unfolding pipeline_eval_def
  by (auto split: loop_result.splits dest: state_from_working eval_loop_return_working)

lemma digest_working: "digest L N H tok st n p = InProgress p' \<Longrightarrow> working p'"
  by (auto simp: digest_def split: option.splits dest: eval_working)

lemma paused_in_flight:
  assumes "pipeline_inv out p" and "working p" and "requires_pause p"
  shows "deferred_tasks p \<noteq> []"
proof (cases "terminated p")
  case True
  with assms show ?thesis by (simp add: pipeline_inv_def working_def)
next
  case False
  with assms have "guards p > 0" by (simp add: requires_pause_guards)
  then show ?thesis by (auto simp: guards_def)
qed

definition filter_ok ::
  "lib \<Rightarrow> nom \<Rightarrow> 'h hostcalls \<Rightarrow> ('h \<Rightarrow> u32 set) \<Rightarrow> 't pipeline_factory \<Rightarrow> ('h, 't) kuadrant_filter \<Rightarrow> bool"
where
  "filter_ok L N H out pf f =
     (kf_factory f = pf
      \<and> (\<forall>p. kf_pipeline f = Some p \<longrightarrow> request_run L N H out (pf_request_data pf) p \<and> working p))"

lemma keep_state_ok:
  assumes "filter_ok L N H out pf f" and "keep_state (pipeline_eval L N H p) f = Some (f', w')"
    and "request_run L N H out (pf_request_data pf) p"
  shows "filter_ok L N H out pf f'"
  using assms eval_working [of L N H p] request_run_step [OF assms(3) pipeline_step.evaluate]
  by (auto simp: keep_state_def filter_ok_def split: pipeline_state.splits)

lemma request_headers_ok:
  assumes T: "trie_laws T content" and ok: "factory_ok content pf" and L: "token_laws H out"
    and f: "filter_ok L N H out pf f" "on_http_request_headers L N H T w f = Some (a, f', w')"
  shows "filter_ok L N H out pf f'"
proof -
  obtain r w1 where b: "factory_build L H T pf (req_resp_ctx_new w) = (r, w1)" by force
  have fac: "kf_factory f = pf" using f(1) by (simp add: filter_ok_def)
  show ?thesis
  proof (cases "\<exists>p. r = Ok (Some p)")
    case True
    then obtain p where r: "r = Ok (Some p)" by blast
    let ?w = "increment_world H ''kuadrant.hits'' w1"
    from factory_build_pipeline [OF ok T b [unfolded r]] obtain bp ctx where
      bp: "ids_ok bp" "barrier ctx = Barrier 0" "grpc_response_data ctx = None"
      and p: "p = request_pipeline L H bp (pf_request_data pf) ctx" by blast
    have "request_run L N H out (pf_request_data pf) p"
      unfolding request_run_def p using bp pipeline_run.start by blast
    moreover have "deferred_tasks p = []" using request_pipeline_facts(1) [OF p] bp by (simp add: fresh_pipeline_def)
    then have "pipeline_step L N H out p World_changed (set_world ?w p)" by (intro pipeline_step.world) simp
    ultimately have "request_run L N H out (pf_request_data pf) (set_world ?w p)" by (rule request_run_step)
    moreover from f(2) b r fac obtain w2 where "keep_state (pipeline_eval L N H (set_world ?w p)) f = Some (f', w2)"
      by (auto simp: on_http_request_headers_def split: option.splits)
    ultimately show ?thesis using keep_state_ok [OF f(1)] by blast
  next
    case False
    then have "f' = f" using f(2) b fac
      by (auto simp: on_http_request_headers_def Let_def split: result.splits option.splits prod.splits)
    with f(1) show ?thesis by simp
  qed
qed

definition allowed_change ::
  "lib \<Rightarrow> nom \<Rightarrow> 'h hostcalls \<Rightarrow> ('h \<Rightarrow> u32 set) \<Rightarrow> ('h req_resp_ctx \<Rightarrow> 'h req_resp_ctx) \<Rightarrow> bool"
where
  "allowed_change L N H out change =
     (\<forall>p. p\<lparr>p_ctx := change (p_ctx p)\<rparr> = p \<or> (\<exists>ev. pipeline_step L N H out p ev (p\<lparr>p_ctx := change (p_ctx p)\<rparr>)))"

lemma allowed_changes:
  "allowed_change L N H out id"
  "allowed_change L N H out (set_current_request_body_buffer_size n eos)"
  "allowed_change L N H out (set_current_response_body_buffer_size n eos)"
proof -
  show "allowed_change L N H out id" by (simp add: allowed_change_def)
  show "allowed_change L N H out (set_current_request_body_buffer_size n eos)"
    unfolding allowed_change_def by (intro allI disjI2 exI) (rule pipeline_step.request_part)
  show "allowed_change L N H out (set_current_response_body_buffer_size n eos)"
    unfolding allowed_change_def by (intro allI disjI2 exI) (rule pipeline_step.response_part)
qed

lemma evaluate_with_ok:
  assumes f: "filter_ok L N H out pf f" and w: "pipeline_calls f \<subseteq> out (w_host w)"
    and e: "evaluate_with L N H change w f = Some (f', w')"
    and c: "allowed_change L N H out change"
  shows "filter_ok L N H out pf f'"
proof (cases "kf_pipeline f")
  case (Some p)
  then have r: "request_run L N H out (pf_request_data pf) p" using f by (simp add: filter_ok_def)
  have "pipeline_step L N H out p World_changed (set_world w p)"
    using w Some by (intro pipeline_step.world) (simp add: pipeline_calls_def)
  with r have "request_run L N H out (pf_request_data pf) (set_world w p)" by (rule request_run_step)
  with c have "request_run L N H out (pf_request_data pf)
      ((set_world w p)\<lparr>p_ctx := change (p_ctx (set_world w p))\<rparr>)"
    unfolding allowed_change_def by (metis request_run_step)
  moreover from e Some have "keep_state (pipeline_eval L N H
      ((set_world w p)\<lparr>p_ctx := change (p_ctx (set_world w p))\<rparr>)) f = Some (f', w')"
    by (simp add: evaluate_with_def Let_def)
  ultimately show ?thesis using keep_state_ok [OF f] by blast
qed (use f e in \<open>simp add: evaluate_with_def\<close>)

lemma answer_ok:
  assumes f: "filter_ok L N H out pf f" and tok: "tok \<in> pipeline_calls f"
    and w: "pipeline_calls f - {tok} \<subseteq> out (w_host w)"
    and e: "on_grpc_call_response L N H tok st n w f = Some (r, f', w')"
  shows "filter_ok L N H out pf f'"
proof (cases "kf_pipeline f")
  case (Some p)
  then have rr: "request_run L N H out (pf_request_data pf) p" using f by (simp add: filter_ok_def)
  from tok Some obtain t where t: "map_of (deferred_tasks p) tok = Some t"
    by (fastforce simp: pipeline_calls_def dest: weak_map_of_SomeI)
  have d: "delivered out tok w p" using w Some by (simp add: delivered_def pipeline_calls_def)
  have "request_run L N H out (pf_request_data pf) p' \<and> working p'"
    if "digest L N H tok st n (set_world w p) = InProgress p'" for p'
    using request_run_step [OF rr pipeline_step.response [OF t d that]] digest_working [OF that] by blast
  with f e Some show ?thesis
    by (auto simp: on_grpc_call_response_def filter_ok_def Let_def split: pipeline_state.splits prod.splits)
qed (use f e in \<open>simp add: on_grpc_call_response_def\<close>)

definition stream_inv ::
  "lib \<Rightarrow> nom \<Rightarrow> 'h hostcalls \<Rightarrow> ('h \<Rightarrow> u32 set) \<Rightarrow> 't pipeline_factory \<Rightarrow> ('h, 't) stream \<Rightarrow> bool"
where
  "stream_inv L N H out pf s =
     (let f = s_filter s in
      filter_ok L N H out pf f
      \<and> (s_request_paused s \<and> \<not> kf_in_response_phase f \<and> \<not> s_ended s \<longrightarrow> pipeline_calls f \<noteq> {})
      \<and> (s_response_paused s \<longrightarrow> kf_in_response_phase f
           \<and> (pipeline_calls f \<noteq> {} \<or> kf_force_resume f))
      \<and> (\<not> s_started s \<longrightarrow> kf_pipeline f = None \<and> \<not> s_response_paused s \<and> \<not> kf_in_response_phase f))"

lemma paused_filter_waits:
  assumes "token_laws H out" and "filter_ok L N H out pf f" and "should_pause f"
  shows "pipeline_calls f \<noteq> {}"
proof -
  from assms(3) obtain p where p: "kf_pipeline f = Some p" "requires_pause p"
    by (auto simp: should_pause_def split: option.splits)
  with assms(2) have "request_run L N H out (pf_request_data pf) p" "working p" by (simp_all add: filter_ok_def)
  with paused_in_flight [OF request_run_inv [OF assms(1)]] p show ?thesis by (auto simp: pipeline_calls_def)
qed

lemma keep_state_fields:
  assumes "keep_state st f = Some (f', w')"
  shows "kf_in_response_phase f' = kf_in_response_phase f \<and> kf_force_resume f' = kf_force_resume f"
  using assms by (auto simp: keep_state_def split: pipeline_state.splits)

lemma evaluate_with_fields:
  assumes "evaluate_with L N H change w f = Some (f', w')"
  shows "kf_in_response_phase f' = kf_in_response_phase f \<and> kf_force_resume f' = kf_force_resume f"
  using assms keep_state_fields by (auto simp: evaluate_with_def Let_def split: option.splits)

lemma request_headers_fields:
  assumes "on_http_request_headers L N H T w f = Some (a, f', w')"
  shows "kf_in_response_phase f' = kf_in_response_phase f \<and> kf_force_resume f' = kf_force_resume f
    \<and> (a = Act_Pause \<longrightarrow> should_pause f')"
  using assms keep_state_fields
  by (auto simp: on_http_request_headers_def Let_def pause_or_continue_def
      split: option.splits result.splits prod.splits if_splits)

text \<open>Evaluating never forgets a call in flight.\<close>

lemma keys_bt_insert: "fst ` set (bt_insert k v m) = insert k (fst ` set m)"
  by (induction k v m rule: bt_insert.induct) auto

abbreviation call_tokens :: "'h pipeline \<Rightarrow> u32 set" where
  "call_tokens p \<equiv> fst ` set (deferred_tasks p)"

lemma run_teardown_calls: "call_tokens p \<subseteq> call_tokens (fold (run_teardown_action L H) as p)"
proof (induction as arbitrary: p)
  case (Cons a as)
  have "call_tokens p \<subseteq> call_tokens (run_teardown_action L H a p)"
    by (auto simp: run_teardown_action_def defer_task_def keys_bt_insert split: prod.split teardown_outcome.split)
  with Cons [of "run_teardown_action L H a p"] show ?case by simp
qed simp

lemma execute_teardown_calls: "call_tokens p \<subseteq> call_tokens (execute_teardown L H p)"
proof -
  have "call_tokens p = call_tokens ((replace_deferred_with_noop p)\<lparr>teardown_tasks := []\<rparr>)"
    by (force simp: replace_deferred_with_noop_def image_image split_beta)
  with run_teardown_calls [of "(replace_deferred_with_noop p)\<lparr>teardown_tasks := []\<rparr>" L H] show ?thesis
    by (simp add: execute_teardown_def)
qed

lemma terminate_calls: "terminate_pipeline L N H t p = Some p' \<Longrightarrow> call_tokens p \<subseteq> call_tokens p'"
  using execute_teardown_calls [of "p\<lparr>p_ctx := _, task_queue := [], terminated := True\<rparr>" L H]
  by (auto simp: terminate_pipeline_def split: prod.splits task_outcome.splits)

fun keeps_calls :: "u32 set \<Rightarrow> 'h loop_result \<Rightarrow> bool" where
  "keeps_calls K (Loop_end p) = (K \<subseteq> call_tokens p)"
| "keeps_calls K (Loop_return st) = ((\<exists>p. st = pipeline_state_from p \<and> K \<subseteq> call_tokens p) \<or> st = Trapped)"

lemma keeps_calls_mono: "keeps_calls K' r \<Longrightarrow> K \<subseteq> K' \<Longrightarrow> keeps_calls K r"
  by (cases r) auto

lemma eval_loop_calls: "keeps_calls (call_tokens p) (eval_loop L N H ts p)"
proof (induction ts arbitrary: p)
  case (Cons t ts)
  obtain r ctx where a: "task_apply L N H t (p_ctx p) = (r, ctx)" by force
  show ?case
  proof (cases "blocked p t")
    case True
    with Cons [of "p\<lparr>task_queue := task_queue p @ [t]\<rparr>"] show ?thesis by simp
  next
    case False
    let ?p = "p\<lparr>p_ctx := ctx\<rparr>"
    show ?thesis
    proof (cases r)
      case Done
      with False a Cons [of "complete_task (task_id t) ?p"] show ?thesis
        by (cases "task_id t") (simp_all add: complete_task_def)
    next
      case (Deferred tok x)
      with False a keeps_calls_mono [OF Cons [of "defer_task tok x ?p"]] show ?thesis
        by (simp add: defer_task_def keys_bt_insert subset_insertI)
    next
      case (Requeued xs)
      with False a Cons [of "?p\<lparr>task_queue := task_queue p @ xs\<rparr>"] show ?thesis by simp
    next
      case Failed
      with False a Cons [of ?p] show ?thesis by simp
    next
      case (Terminate x)
      with False a terminate_calls [of L N H x ?p] show ?thesis by (auto split: option.split)
    qed (use False a in simp)
  qed
qed simp

lemma pipeline_eval_calls:
  assumes "deferred_tasks p \<noteq> []"
  shows "(\<exists>p'. pipeline_eval L N H p = InProgress p' \<and> deferred_tasks p' \<noteq> []) \<or> pipeline_eval L N H p = Trapped"
proof -
  have st: "\<exists>p'. pipeline_state_from q = InProgress p' \<and> deferred_tasks p' \<noteq> []" if "call_tokens p \<subseteq> call_tokens q" for q
    using that assms by (cases "deferred_tasks q") (auto simp: pipeline_state_from_def)
  let ?r = "eval_loop L N H (task_queue p) (p\<lparr>task_queue := []\<rparr>)"
  have l: "keeps_calls (call_tokens p) ?r" using eval_loop_calls [of "p\<lparr>task_queue := []\<rparr>"] by simp
  show ?thesis
  proof (cases ?r)
    case (Loop_end q)
    then have "call_tokens p \<subseteq> call_tokens q" using l by simp
    moreover from this assms have "deferred_tasks q \<noteq> []" by (cases "deferred_tasks q") auto
    ultimately show ?thesis using st [of q] Loop_end by (simp add: pipeline_eval_def)
  next
    case (Loop_return s)
    with l st show ?thesis by (auto simp: pipeline_eval_def)
  qed
qed

lemma evaluate_with_calls:
  assumes "evaluate_with L N H change w f = Some (f', w')" and "pipeline_calls f \<noteq> {}"
  shows "pipeline_calls f' \<noteq> {}"
proof -
  from assms(2) obtain p where p: "kf_pipeline f = Some p" "deferred_tasks p \<noteq> []"
    by (auto simp: pipeline_calls_def split: option.splits)
  let ?q = "(set_world w p)\<lparr>p_ctx := change (p_ctx (set_world w p))\<rparr>"
  have "deferred_tasks ?q \<noteq> []" using p(2) by (simp add: set_world_def)
  from pipeline_eval_calls [OF this, of L N H] assms(1) p(1) show ?thesis
    by (auto simp: evaluate_with_def Let_def keep_state_def pipeline_calls_def)
qed

subsection \<open>The invariant of a stream\<close>

lemma pipeline_calls_upd [simp]:
  "pipeline_calls (f\<lparr>kf_in_response_phase := b\<rparr>) = pipeline_calls f"
  "pipeline_calls (f\<lparr>kf_force_resume := b\<rparr>) = pipeline_calls f"
  by (simp_all add: pipeline_calls_def)

lemma filter_ok_upd [simp]:
  "filter_ok L N H out pf (f\<lparr>kf_in_response_phase := b\<rparr>) = filter_ok L N H out pf f"
  "filter_ok L N H out pf (f\<lparr>kf_force_resume := b\<rparr>) = filter_ok L N H out pf f"
  by (simp_all add: filter_ok_def)

lemma pause_or_continue_iff [simp]: "pause_or_continue f = Act_Pause \<longleftrightarrow> should_pause f"
  by (simp add: pause_or_continue_def)

lemma answer_not_resumed:
  assumes L: "token_laws H out" and ok: "filter_ok L N H out pf f'"
    and e: "on_grpc_call_response L N H tok st n w f = Some (r, f', w')" and p: "kf_pipeline f = Some p"
    and r: "if kf_in_response_phase f then r \<noteq> Response_resumed else r \<noteq> Request_resumed"
    and d: "kf_in_response_phase f \<or> (\<forall>w''. digest L N H tok st n (set_world w p) \<noteq> Completed False w'')"
  shows "pipeline_calls f' \<noteq> {}"
proof (cases "digest L N H tok st n (set_world w p)")
  case (InProgress p')
  then have f': "f' = f\<lparr>kf_pipeline := Some p'\<rparr>" and s: "\<not> should_resume p' f'"
    using e p r by (auto simp: on_grpc_call_response_def Let_def resume_stream_def split: if_splits prod.splits)
  show ?thesis
  proof (cases "should_pause f'")
    case True
    with paused_filter_waits [OF L ok] show ?thesis by blast
  next
    case False
    with s have "terminated p'" by (auto simp: should_resume_def is_terminated_def split: if_splits)
    moreover from ok f' have "pipeline_inv out p'" "working p'"
      using request_run_inv [OF L] by (auto simp: filter_ok_def)
    ultimately show ?thesis using f' by (auto simp: pipeline_inv_def working_def pipeline_calls_def)
  qed
next
  case (Completed b w'')
  with e p r d show ?thesis
    by (cases b) (auto simp: on_grpc_call_response_def Let_def resume_stream_def split: if_splits)
qed (use e p in \<open>simp add: on_grpc_call_response_def\<close>)

lemma answer_fields:
  assumes "on_grpc_call_response L N H tok st n w f = Some (r, f', w')"
  shows "kf_in_response_phase f' = kf_in_response_phase f \<and> kf_force_resume f' = kf_force_resume f"
  using assms by (auto simp: on_grpc_call_response_def Let_def split: option.splits pipeline_state.splits prod.splits)

lemma stream_step_inv:
  assumes T: "trie_laws T content" and ok: "factory_ok content pf" and L: "token_laws H out"
  shows "stream_step L N H T out s s' \<Longrightarrow> stream_inv L N H out pf s \<Longrightarrow> stream_inv L N H out pf s'"
proof (induction rule: stream_step.induct)
  case (request_headers s w a f w')
  then have f: "filter_ok L N H out pf f"
    using request_headers_ok [OF T ok L] by (auto simp: stream_inv_def Let_def)
  with request_headers request_headers_fields [OF request_headers(2)] paused_filter_waits [OF L f] show ?case
    by (auto simp: stream_inv_def Let_def)
next
  case (request_body s w n eos a f w')
  then obtain w1 where e: "evaluate_with L N H (set_current_request_body_buffer_size n eos) w (s_filter s) = Some (f, w1)"
    and a: "a = pause_or_continue f" by (auto simp: on_http_request_body_def)
  have f: "filter_ok L N H out pf f"
    using request_body(2,4) by (intro evaluate_with_ok [where out = out, OF _ _ e allowed_changes(2)]) (auto simp: stream_inv_def Let_def)
  with request_body a evaluate_with_fields [OF e] evaluate_with_calls [OF e] paused_filter_waits [OF L f] show ?case
    by (auto simp: stream_inv_def Let_def)
next
  case (response_headers s w a f w')
  then obtain w1 where e: "evaluate_with L N H id (increment_world H ''kuadrant.allowed'' w)
      ((s_filter s)\<lparr>kf_in_response_phase := True\<rparr>) = Some (f, w1)"
    and a: "a = pause_or_continue f" by (auto simp: on_http_response_headers_def)
  have "out (w_host (increment_world H ''kuadrant.allowed'' w)) = out (w_host w)"
    using L by (auto simp: token_laws_def increment_world_def metric_increment_def counter_inc_by_def
        split: counter.split option.split dest: tracks_callsD(4))
  then have f: "filter_ok L N H out pf f"
    using response_headers(2,4) by (intro evaluate_with_ok [where out = out, OF _ _ e allowed_changes(1)]) (auto simp: stream_inv_def Let_def)
  with response_headers a evaluate_with_fields [OF e] paused_filter_waits [OF L f] show ?case
    by (auto simp: stream_inv_def Let_def)
next
  case (response_body s w n eos a f w')
  then obtain f1 w1 where e: "evaluate_with L N H (set_current_response_body_buffer_size n eos) w (s_filter s) = Some (f1, w1)"
    and f1: "(a, f, w') = (if should_pause f1 then (Act_Pause, f1, w1)
         else if kf_pipeline f1 \<noteq> None \<and> eos then (Act_Pause, f1\<lparr>kf_force_resume := True\<rparr>, w1)
         else (Act_Continue, f1, w1))"
    by (auto simp: on_http_response_body_def)
  have ok1: "filter_ok L N H out pf f1"
    using response_body(2,5) by (intro evaluate_with_ok [where out = out, OF _ _ e allowed_changes(3)]) (auto simp: stream_inv_def Let_def)
  with f1 response_body evaluate_with_fields [OF e] paused_filter_waits [OF L ok1] show ?case
    by (auto simp: stream_inv_def Let_def split: if_splits)
next
  case (answer tok s w st n r f w')
  then have f: "filter_ok L N H out pf f" by (intro answer_ok [where out = out, OF _ answer(1) _ answer(3)]) (auto simp: stream_inv_def Let_def)
  from answer(1) obtain p where p: "kf_pipeline (s_filter s) = Some p"
    by (auto simp: pipeline_calls_def split: option.splits)
  note n = answer_not_resumed [OF L f answer(3) p]
  from answer(4) p have st: "s_started s" by (auto simp: stream_inv_def Let_def)
  show ?case
    using answer(4) f answer_fields [OF answer(3)] n p st unfolding stream_inv_def Let_def by (auto split: if_splits)
qed

text \<open>What a stream never takes back: it was started, it has come to its response, its response
  is held at its end, its pipeline has ended it.\<close>

definition stream_forward :: "('h, 't) stream \<Rightarrow> ('h, 't) stream \<Rightarrow> bool" where
  "stream_forward s s' =
     ((s_started s \<longrightarrow> s_started s') \<and> (s_ended s \<longrightarrow> s_ended s')
      \<and> (kf_in_response_phase (s_filter s) \<longrightarrow> kf_in_response_phase (s_filter s'))
      \<and> (kf_force_resume (s_filter s) \<longrightarrow> kf_force_resume (s_filter s')))"

lemma stream_step_forward: "stream_step L N H T out s s' \<Longrightarrow> stream_forward s s'"
  by (induction rule: stream_step.induct)
     (auto simp: stream_forward_def on_http_request_body_def on_http_response_headers_def on_http_response_body_def
       dest!: request_headers_fields evaluate_with_fields answer_fields split: if_splits)

interpretation stream: progress_system "stream_step L N H T out"
    "\<lambda>s. trie_laws T content \<and> factory_ok content pf \<and> token_laws H out \<and> stream_inv L N H out pf s" stream_forward
  for L :: lib and N :: nom and H :: "'h hostcalls" and T :: "'t trie_ops" and out :: "'h \<Rightarrow> u32 set"
    and content :: "'t \<Rightarrow> string \<Rightarrow> blueprint list option" and pf :: "'t pipeline_factory"
  by unfold_locales (auto dest: stream_step_inv stream_step_forward, auto simp: stream_forward_def)

lemma stream_run_inv:
  assumes "trie_laws T content" and "factory_ok content pf" and "token_laws H out"
    and "stream_run L N H T out s s'" and "stream_inv L N H out pf s"
  shows "stream_inv L N H out pf s'"
  using stream.run_progress [OF assms(4)] assms by blast

lemma stream_new_inv: "stream_inv L N H out pf (stream_new i pf)"
  by (simp add: stream_inv_def stream_new_def kuadrant_filter_new_def filter_ok_def)

section \<open>Properties of streams\<close>


text \<open>C6: what an answer does to a request that is held back: it is resumed exactly when the pipeline
  has not denied it and no guard is in flight any more; and a request that was denied is never let
  through by an answer that comes later.\<close>

theorem answer_resumes_request_iff:
  assumes "token_laws H in_flight" and "fresh_pipeline p\<^sub>0" and "pipeline_run L N H in_flight p\<^sub>0 evs p"
    and "kf_pipeline f = Some p" and "\<not> kf_in_response_phase f" and "\<not> kf_force_resume f"
    and "tok \<in> pipeline_calls f" and "pipeline_calls f - {tok} \<subseteq> in_flight (w_host w)"
    and "on_grpc_call_response L N H tok st n w f = Some (r, f', w')"
  shows "(r = Request_resumed \<longleftrightarrow>
            (case kf_pipeline f' of
               Some p' \<Rightarrow> \<not> terminated p' \<and> guards p' = 0
             | None \<Rightarrow> \<exists>w''. digest L N H tok st n (set_world w p) = Completed True w''))
    \<and> (terminated p \<longrightarrow> r \<noteq> Request_resumed)"
proof -
  have inv: "pipeline_inv in_flight p" using assms(1-3) by (rule pipeline_run_inv)
  obtain t where t: "map_of (deferred_tasks p) tok = Some t"
    using assms(4,7) by (auto simp: pipeline_calls_def dest: weak_map_of_SomeI)
  have "delivered in_flight tok w p" using assms(4,8) by (simp add: delivered_def pipeline_calls_def)
  from digest_inv [OF assms(1) inv this, of L N st n] t
  have ok: "state_ok in_flight (terminated p) (digest L N H tok st n (set_world w p))" by simp
  have denied: "not_let_through (digest L N H tok st n (set_world w p))" if "terminated p"
  proof -
    have "idle (set_world w p)" "map_of (deferred_tasks (set_world w p)) tok = Some t"
      using terminated_idle [OF inv that] t by (simp, simp add: set_world_def)
    from terminated_digest [OF this, of L N H st n] show ?thesis
      by (auto simp: not_let_through_def pipeline_state_from_def)
  qed
  show ?thesis
  proof (cases "digest L N H tok st n (set_world w p)")
    case (InProgress p')
    then have "r = Request_resumed \<longleftrightarrow> \<not> terminated p' \<and> \<not> requires_pause p'" "kf_pipeline f' = Some p'"
      using assms(4,5,9) by (auto simp: on_grpc_call_response_def resume_stream_def should_resume_def should_pause_def
          is_terminated_def Let_def split: if_splits)
    moreover have "requires_pause p' \<longleftrightarrow> guards p' > 0" if "\<not> terminated p'"
      using ok InProgress that by (auto simp: state_ok_def requires_pause_guards)
    ultimately show ?thesis using denied InProgress by (auto simp: not_let_through_def)
  next
    case (Completed b w'')
    with denied assms(4-6,9) show ?thesis
      by (auto simp: on_grpc_call_response_def resume_stream_def not_let_through_def Let_def split: if_splits)
  qed (use assms(4,9) in \<open>simp add: on_grpc_call_response_def\<close>)
qed

subsection \<open>A response that is held back for good\<close>

lemma set_world_plain: "plain_pipeline ts (set_world w p) = plain_pipeline ts p" "barrier (p_ctx (set_world w p)) = barrier (p_ctx p)"
  by (simp_all add: plain_pipeline_def set_world_def)

definition held_filter :: "(bool, 't) kuadrant_filter \<Rightarrow> bool" where
  "held_filter f = (\<exists>p. kf_pipeline f = Some p \<and> plain_pipeline [plain_grpc] p \<and> barrier (p_ctx p) = Barrier 0)"

lemma held_calls: "held_filter f \<Longrightarrow> pipeline_calls f = {} \<and> \<not> should_pause f"
  by (auto simp: held_filter_def pipeline_calls_def should_pause_def requires_pause_def is_tripped_def plain_pipeline_def)

lemma held_evaluate:
  assumes "held_filter f" and "\<And>ctx. barrier (change ctx) = barrier ctx"
  shows "\<exists>p' w'. evaluate_with flow_lib N flow_host change w f = Some (f\<lparr>kf_pipeline := Some p'\<rparr>, w')
    \<and> plain_pipeline [plain_grpc] p' \<and> barrier (p_ctx p') = Barrier 0"
proof -
  from assms(1) obtain p where p: "kf_pipeline f = Some p" "plain_pipeline [plain_grpc] p" "barrier (p_ctx p) = Barrier 0"
    by (auto simp: held_filter_def)
  let ?q = "(set_world w p)\<lparr>p_ctx := change (p_ctx (set_world w p))\<rparr>"
  have "plain_pipeline [plain_grpc] ?q" using p(2) by (simp add: set_world_def plain_pipeline_def)
  from plain_eval [OF this disjI2 [OF refl], of N] obtain p' where
    e: "pipeline_eval flow_lib N flow_host ?q = InProgress p'" "plain_pipeline [plain_grpc] p'" "p_ctx p' = p_ctx ?q" by blast
  have "barrier (p_ctx p') = Barrier 0" using e(3) p(3) assms(2) by (simp add: set_world_plain)
  with e p(1) show ?thesis by (auto simp: evaluate_with_def Let_def keep_state_def)
qed

abbreviation web_step :: "(bool, string \<Rightarrow> blueprint list option) stream \<Rightarrow> (bool, string \<Rightarrow> blueprint list option) stream \<Rightarrow> bool" where
  "web_step \<equiv> stream_step flow_lib nom_ref flow_host trie_ref flow_calls"

abbreviation web_run :: "(bool, string \<Rightarrow> blueprint list option) stream \<Rightarrow> (bool, string \<Rightarrow> blueprint list option) stream \<Rightarrow> bool" where
  "web_run \<equiv> stream_run flow_lib nom_ref flow_host trie_ref flow_calls"

lemma web_request_headers:
  "\<exists>a p' w'. on_http_request_headers flow_lib nom_ref flow_host trie_ref w (kuadrant_filter_new i web_factory) =
      Some (a, (kuadrant_filter_new i web_factory)\<lparr>kf_pipeline := Some p'\<rparr>, w')
    \<and> held_filter ((kuadrant_filter_new i web_factory :: (bool, string \<Rightarrow> blueprint list option) kuadrant_filter)
        \<lparr>kf_pipeline := Some p'\<rparr>)"
proof -
  let ?f = "kuadrant_filter_new i web_factory :: (bool, string \<Rightarrow> blueprint list option) kuadrant_filter"
  obtain ctx w' where b: "factory_build flow_lib flow_host trie_ref web_factory (req_resp_ctx_new w) =
      (Ok (Some (request_pipeline flow_lib flow_host plain_blueprint [] ctx)), w')"
    and c: "same_control (req_resp_ctx_new w) ctx" using web_build by blast
  let ?p = "request_pipeline flow_lib flow_host plain_blueprint [] ctx"
  let ?q = "set_world (increment_world flow_host ''kuadrant.hits'' w') ?p"
  have "plain_pipeline [plain_headers, plain_grpc] ?q" using plain_start [of ctx] by (simp add: set_world_plain)
  from plain_eval [OF this disjI1 [OF refl], of nom_ref] obtain p' where
    e: "pipeline_eval flow_lib nom_ref flow_host ?q = InProgress p'" "plain_pipeline [plain_grpc] p'" "p_ctx p' = p_ctx ?q" by blast
  have "same_control (req_resp_ctx_new w) (p_ctx ?p)"
    using c conjunct2 [OF plain_start [of ctx]] by (rule same_control_trans)
  then have "barrier (p_ctx p') = Barrier 0" using e(3) by (simp add: set_world_plain same_control_def req_resp_ctx_new_def)
  with e have "held_filter (?f\<lparr>kf_pipeline := Some p'\<rparr>)" by (simp add: held_filter_def)
  moreover have "on_http_request_headers flow_lib nom_ref flow_host trie_ref w ?f =
      Some (pause_or_continue (?f\<lparr>kf_pipeline := Some p'\<rparr>), ?f\<lparr>kf_pipeline := Some p'\<rparr>, backend (p_ctx p'))"
    using b e(1) by (simp add: on_http_request_headers_def kuadrant_filter_new_def keep_state_def)
  ultimately show ?thesis by blast
qed

lemma web_request:
  "\<exists>s. web_step (stream_new 1 web_factory) s \<and> held_filter (s_filter s) \<and> s_started s"
proof -
  obtain a p' w' where h: "on_http_request_headers flow_lib nom_ref flow_host trie_ref (flow_world False)
      (s_filter (stream_new 1 web_factory)) = Some (a, (kuadrant_filter_new 1 web_factory)\<lparr>kf_pipeline := Some p'\<rparr>, w')"
    and held: "held_filter ((kuadrant_filter_new 1 web_factory :: (bool, string \<Rightarrow> blueprint list option) kuadrant_filter)
        \<lparr>kf_pipeline := Some p'\<rparr>)"
    using web_request_headers [of "flow_world False" 1] by (auto simp: stream_new_def)
  from stream_step.request_headers [OF _ h, of flow_calls] held show ?thesis
    by (intro exI conjI) (auto simp: stream_new_def)
qed

lemma web_response:
  assumes "held_filter (s_filter s)" and "s_started s"
  shows "\<exists>s'. web_step s s' \<and> held_filter (s_filter s') \<and> s_started s' \<and> kf_in_response_phase (s_filter s')"
proof -
  let ?f = "(s_filter s)\<lparr>kf_in_response_phase := True\<rparr>"
  have "held_filter ?f" using assms(1) by (simp add: held_filter_def)
  from held_evaluate [OF this, of id nom_ref "increment_world flow_host ''kuadrant.allowed'' (flow_world False)"]
  obtain p' w' where e: "evaluate_with flow_lib nom_ref flow_host id
      (increment_world flow_host ''kuadrant.allowed'' (flow_world False)) ?f = Some (?f\<lparr>kf_pipeline := Some p'\<rparr>, w')"
    and p': "plain_pipeline [plain_grpc] p'" "barrier (p_ctx p') = Barrier 0" by auto
  let ?g = "?f\<lparr>kf_pipeline := Some p'\<rparr>"
  have "on_http_response_headers flow_lib nom_ref flow_host (flow_world False) (s_filter s) = Some (pause_or_continue ?g, ?g, w')"
    using e by (simp add: on_http_response_headers_def)
  moreover have "pipeline_calls (s_filter s) \<subseteq> flow_calls (w_host (flow_world False))" using held_calls [OF assms(1)] by simp
  ultimately have "web_step s (s\<lparr>s_filter := ?g, s_response_paused := (pause_or_continue ?g = Act_Pause)\<rparr>)"
    using assms(2) by (intro stream_step.response_headers)
  moreover have "held_filter ?g" using p' by (simp add: held_filter_def)
  ultimately show ?thesis using assms(2)
    by (intro exI [of _ "s\<lparr>s_filter := ?g, s_response_paused := (pause_or_continue ?g = Act_Pause)\<rparr>"]) simp
qed

lemma web_end:
  assumes "held_filter (s_filter s)" and "s_started s" and "kf_in_response_phase (s_filter s)"
  shows "\<exists>s'. web_step s s' \<and> held_filter (s_filter s') \<and> s_response_paused s' \<and> s_started s'"
proof -
  let ?f = "s_filter s"
  have b: "barrier (set_current_response_body_buffer_size 0 True ctx) = barrier ctx" for ctx :: "bool req_resp_ctx"
    by (simp add: set_current_response_body_buffer_size_def)
  obtain p' w' where e: "evaluate_with flow_lib nom_ref flow_host (set_current_response_body_buffer_size 0 True)
      (flow_world False) ?f = Some (?f\<lparr>kf_pipeline := Some p'\<rparr>, w')"
    and p': "plain_pipeline [plain_grpc] p'" "barrier (p_ctx p') = Barrier 0"
    using held_evaluate [OF assms(1) b, of nom_ref "flow_world False"] by auto
  let ?g = "?f\<lparr>kf_pipeline := Some p'\<rparr>"
  have g: "held_filter ?g" using p' by (simp add: held_filter_def)
  have "on_http_response_body flow_lib nom_ref flow_host 0 True (flow_world False) ?f =
      Some (Act_Pause, ?g\<lparr>kf_force_resume := True\<rparr>, w')"
    using e held_calls [OF g] by (simp add: on_http_response_body_def)
  moreover have "pipeline_calls (s_filter s) \<subseteq> flow_calls (w_host (flow_world False))" using held_calls [OF assms(1)] by simp
  ultimately have "web_step s (s\<lparr>s_filter := ?g\<lparr>kf_force_resume := True\<rparr>, s_response_paused := (Act_Pause = Act_Pause)\<rparr>)"
    using assms(2,3) by (intro stream_step.response_body)
  moreover have "held_filter (?g\<lparr>kf_force_resume := True\<rparr>)" using g by (simp add: held_filter_def)
  ultimately show ?thesis
    using assms(2)
    by (intro exI [of _ "s\<lparr>s_filter := ?g\<lparr>kf_force_resume := True\<rparr>, s_response_paused := (Act_Pause = Act_Pause)\<rparr>"]) simp
qed

lemma web_held:
  "\<exists>s. web_run (stream_new 1 web_factory) s \<and> held_filter (s_filter s) \<and> s_response_paused s \<and> s_started s"
proof -
  obtain s1 where s1: "web_step (stream_new 1 web_factory) s1" "held_filter (s_filter s1)" "s_started s1"
    using web_request by blast
  obtain s2 where s2: "web_step s1 s2" "held_filter (s_filter s2)" "s_started s2" "kf_in_response_phase (s_filter s2)"
    using web_response [OF s1(2,3)] by blast
  obtain s3 where s3: "web_step s2 s3" "held_filter (s_filter s3)" "s_response_paused s3" "s_started s3"
    using web_end [OF s2(2,3,4)] by blast
  have "web_run (stream_new 1 web_factory) s3"
    using s1(1) s2(1) s3(1) by (blast intro: rtranclp.intros)
  with s3 show ?thesis by blast
qed

lemma held_step:
  assumes "web_step s s'" and "held_filter (s_filter s)" and "s_started s"
  shows "held_filter (s_filter s') \<and> s_started s'"
proof -
  have e: "held_filter f'" if "evaluate_with flow_lib nom_ref flow_host change w f = Some (f', w')" "held_filter f"
    "\<And>ctx. barrier (change ctx) = barrier ctx" for change w f f' w'
    using held_evaluate [OF that(2,3), of nom_ref w] that(1) by (auto simp: held_filter_def)
  from assms show ?thesis
  proof (induction rule: stream_step.induct)
    case (request_body s w n eos a f w')
    then show ?case
      by (auto simp: on_http_request_body_def set_current_request_body_buffer_size_def elim!: e)
  next
    case (response_headers s w a f w')
    have "held_filter (f\<lparr>kf_in_response_phase := b\<rparr>) = held_filter f" for f :: "(bool, string \<Rightarrow> blueprint list option) kuadrant_filter" and b
      by (simp add: held_filter_def)
    with response_headers show ?case
      by (auto simp: on_http_response_headers_def elim!: e)
  next
    case (response_body s w n eos a f w')
    have "held_filter (f\<lparr>kf_force_resume := b\<rparr>) = held_filter f" for f :: "(bool, string \<Rightarrow> blueprint list option) kuadrant_filter" and b
      by (simp add: held_filter_def)
    with response_body show ?case
      by (auto simp: on_http_response_body_def set_current_response_body_buffer_size_def split: if_splits elim!: e)
  next
    case (answer tok s w st n r f w')
    with held_calls show ?case by blast
  qed simp
qed

lemma held_run: "web_run s s' \<Longrightarrow> held_filter (s_filter s) \<Longrightarrow> s_started s \<Longrightarrow> held_filter (s_filter s') \<and> s_started s'"
  by (induction rule: rtranclp_induct) (auto dest: held_step)

text \<open>C15: a response can be held back for good: with an action set of a headers action followed by
  a gRPC action, a response whose end is reached is paused although no call is in flight, and
  whatever callbacks follow no call is ever made again, so that no answer can resume it.\<close>

theorem response_held_for_good:
  "\<exists>s. web_run (stream_new 1 web_factory) s \<and> s_response_paused s
     \<and> (\<forall>s'. web_run s s' \<longrightarrow> pipeline_calls (s_filter s') = {})"
proof -
  obtain s where s: "web_run (stream_new 1 web_factory) s" "held_filter (s_filter s)" "s_response_paused s" "s_started s"
    using web_held by blast
  with held_run held_calls show ?thesis by blast
qed

theorem response_held_for_good_witness:
  "\<exists>s. web_run (stream_new 1 web_factory) s \<and> s_response_paused s \<and> pipeline_calls (s_filter s) = {}"
  using response_held_for_good by blast


theorem answer_resumes_request_iff_witness:
  "\<exists>p f f' w'. pipeline_run flow_lib nom_ref flow_host flow_calls
       (flow_pipeline [Failure_mode (Dynamic (flow_task ''0'' [] [])) True]) [Evaluated] p
     \<and> kf_pipeline f = Some p \<and> kf_factory f = web_factory
     \<and> on_grpc_call_response flow_lib nom_ref flow_host 7 0 0 (flow_world False) f = Some (Request_resumed, f', w')"
proof -
  let ?ts = "[Failure_mode (Dynamic (flow_task ''0'' [] [])) True]"
  from flow_run [of nom_ref] obtain p where
    r: "pipeline_run flow_lib nom_ref flow_host flow_calls (flow_pipeline ?ts) [Evaluated] p"
    and d: "deferred_tasks p =
      [(7, Failure_mode (Pending_task ''0'' (Process_dynamic demo_service ''0'' ''r'' [] True) True) True)]"
    and q: "task_queue p = []" "teardown_tasks p = []" "\<not> terminated p"
    by (force simp: flow_pipeline_def with_tasks_def pipeline_new_def)
  have fresh: "fresh_pipeline (flow_pipeline ?ts)" by (rule flow_fresh) simp
  have g: "grpc_response_data (p_ctx p) = None"
    using pipeline_run_inv [OF flow_token_laws fresh r] by (simp add: pipeline_inv_def)
  let ?f = "(kuadrant_filter_new 1 web_factory)\<lparr>kf_pipeline := Some p\<rparr>"
  have c: "\<exists>w''. digest flow_lib nom_ref flow_host 7 0 0 (set_world (flow_world False) p) = Completed True w''"
    using d q g by (simp add: digest_def digest_answer_def set_world_def set_grpc_response_data_def
        processor_apply_def process_dynamic_response_def get_grpc_response_data_def ok_or_def bt_remove_def
        complete_task_def pipeline_eval_def pipeline_state_from_def)
  then obtain x f' w' where
    a: "on_grpc_call_response flow_lib nom_ref flow_host 7 0 0 (flow_world False) ?f = Some (x, f', w')"
    and n: "kf_pipeline f' = None"
    by (auto simp: on_grpc_call_response_def Let_def resume_stream_def kuadrant_filter_new_def)
  have k: "pipeline_calls ?f = {7}" using d by (simp add: pipeline_calls_def)
  have "x = Request_resumed"
    using answer_resumes_request_iff [OF flow_token_laws fresh r _ _ _ _ _ a] c n k
    by (simp add: kuadrant_filter_new_def)
  moreover have "kf_pipeline ?f = Some p" "kf_factory ?f = web_factory" by (simp_all add: kuadrant_filter_new_def)
  ultimately show ?thesis using r a by blast
qed

end
