(* ===== verification/Root_Context.thy ===== *)
theory Root_Context
  imports Http_Filter
begin

text \<open>
  \<^verbatim>\<open>src/filter/root_context.rs\<close>: the root context, which compiles configurations, creates the
  filters of streams and fetches descriptors.  Its descriptor manager is the one the services
  share, so it lives in the world, as do the filters of spans and events.  \<open>parse_config\<close> is \<^verbatim>\<open>serde\<close>'s reader of a configuration; a new
  service gets an address no service had before.
\<close>

record 't filter_root =
  fr_context_id :: u32
  fr_pipeline_factory :: "'t pipeline_factory"
  fr_tick_enabled :: bool
  fr_next_addr :: nat

definition filter_root_new :: "'t trie_ops \<Rightarrow> u32 \<Rightarrow> 't filter_root" where
  "filter_root_new T i = \<lparr>fr_context_id = i, fr_pipeline_factory = pipeline_factory_default T,
     fr_tick_enabled = False, fr_next_addr = 0\<rparr>"

definition set_tick_enabled ::
  "'h hostcalls \<Rightarrow> bool \<Rightarrow> 't filter_root \<times> 'h world \<Rightarrow> 't filter_root \<times> 'h world"
where
  "set_tick_enabled H enable s =
     (case s of (r, w) \<Rightarrow>
        if enable \<and> \<not> fr_tick_enabled r then
          (case hc_set_tick_period H tick_period (w_host w) of
             (Err _, h) \<Rightarrow> (r, w\<lparr>w_host := h\<rparr>)
           | (Ok _, h) \<Rightarrow> (r\<lparr>fr_tick_enabled := True\<rparr>, w\<lparr>w_host := h\<rparr>))
        else if \<not> enable \<and> fr_tick_enabled r then
          (case hc_set_tick_period H 0 (w_host w) of
             (Err _, h) \<Rightarrow> (r, w\<lparr>w_host := h\<rparr>)
           | (Ok _, h) \<Rightarrow> (r\<lparr>fr_tick_enabled := False\<rparr>, w\<lparr>w_host := h\<rparr>))
        else (r, w))"

definition fetch_descriptors :: "lib \<Rightarrow> 'h hostcalls \<Rightarrow> 'h world \<Rightarrow> 'h world" where
  "fetch_descriptors L H w =
     (case fetch_missing L H (w_descriptors w) (w_host w) of
        (_, dm, h) \<Rightarrow> w\<lparr>w_descriptors := dm, w_host := h\<rparr>)"

definition process_config ::
  "lib \<Rightarrow> 'h hostcalls \<Rightarrow> 't trie_ops \<Rightarrow> plugin_configuration \<Rightarrow> 't filter_root \<times> 'h world
     \<Rightarrow> (bool \<times> 't filter_root \<times> 'h world) option"
where
  "process_config L H T config s =
     (case s of (r, w) \<Rightarrow>
        let r = r\<lparr>fr_next_addr := fr_next_addr r + length (pc_services config)\<rparr> in
        case factory_try_from L T (fr_next_addr (fst s)) config (w_descriptors w) of
          (None, dm) \<Rightarrow> None
        | (Some (Err e), dm) \<Rightarrow> Some (False, r, w\<lparr>w_descriptors := dm\<rparr>)
        | (Some (Ok factory), dm) \<Rightarrow>
            let r = r\<lparr>fr_pipeline_factory := factory\<rparr>;
                w = w\<lparr>w_descriptors := set_descriptor_service (pc_descriptor_service config) dm\<rparr>;
                has_dynamic_services = has_expected (w_descriptors w);
                w = (if has_dynamic_services then fetch_descriptors L H w else w)
            in Some (True, set_tick_enabled H has_dynamic_services (r, w)))"

definition handle_descriptor_response ::
  "lib \<Rightarrow> 'h hostcalls \<Rightarrow> u32 \<Rightarrow> u32 \<Rightarrow> nat \<Rightarrow> 'h world \<Rightarrow> (unit, string) result \<times> 'h world"
where
  "handle_descriptor_response L H token_id status_code response_size w =
     (if status_code \<noteq> 0 then (Err (''descriptor fetch returned status '' @ show_nat (unat status_code)), w)
      else case hc_get_buffer H GrpcReceiveBuffer 0 response_size (w_host w) of
        Err _ \<Rightarrow> (Err ''could not get descriptor response'', w)
      | Ok None \<Rightarrow> (Err ''descriptor response body is empty'', w)
      | Ok (Some response_bytes) \<Rightarrow>
          (case handle_response L token_id response_bytes (w_descriptors w) of
             (r, dm) \<Rightarrow> (r, w\<lparr>w_descriptors := dm\<rparr>)))"

definition root_on_grpc_call_response ::
  "lib \<Rightarrow> 'h hostcalls \<Rightarrow> u32 \<Rightarrow> u32 \<Rightarrow> nat \<Rightarrow> 'h world \<Rightarrow> 'h world"
where
  "root_on_grpc_call_response L H token_id status_code response_size w =
     (case handle_descriptor_response L H token_id status_code response_size w of
        (_, w) \<Rightarrow> w\<lparr>w_descriptors := reset_pending token_id (w_descriptors w)\<rparr>)"

definition on_tick :: "lib \<Rightarrow> 'h hostcalls \<Rightarrow> 'h world \<Rightarrow> 'h world" where
  "on_tick L H w = fetch_descriptors L H w"

definition create_http_context ::
  "'h hostcalls \<Rightarrow> u32 \<Rightarrow> 't filter_root \<Rightarrow> 'h world \<Rightarrow> ('h, 't) kuadrant_filter \<times> 'h world"
where
  "create_http_context H i r w =
     (kuadrant_filter_new i (fr_pipeline_factory r),
      w\<lparr>w_filters := update_log_level H (w_host w) (w_filters w)\<rparr>)"

definition on_configure ::
  "lib \<Rightarrow> 'h hostcalls \<Rightarrow> 't trie_ops \<Rightarrow> (bytes \<Rightarrow> (plugin_configuration, string) result)
     \<Rightarrow> 't filter_root \<times> 'h world \<Rightarrow> (bool \<times> 't filter_root \<times> 'h world) option"
where
  "on_configure L H T parse_config s =
     (case s of (r, w) \<Rightarrow>
        let w = increment_world H ''kuadrant.configs'' w in
        case hc_get_buffer H PluginConfiguration 0 (2 ^ 32 - 1) (w_host w) of
          Err _ \<Rightarrow> Some (False, r, w)
        | Ok None \<Rightarrow> Some (False, r, w)
        | Ok (Some configuration) \<Rightarrow>
            (case parse_config configuration of
               Ok config \<Rightarrow>
                 process_config L H T config
                   (r, w\<lparr>w_filters := init_observability H (ob_tracing (pc_observability config) \<noteq> None)
                         (ob_default_level (pc_observability config)) (w_host w) (w_filters w)\<rparr>)
             | Err _ \<Rightarrow> Some (False, r, w)))"

section \<open>The life of a root context\<close>

text \<open>Callbacks of the root context; between them the streams may change the host and the
  environments and spans of the world, but not the descriptors and the filters.\<close>

inductive root_step ::
  "lib \<Rightarrow> 'h hostcalls \<Rightarrow> 't trie_ops \<Rightarrow> (bytes \<Rightarrow> (plugin_configuration, string) result)
     \<Rightarrow> 't filter_root \<times> 'h world \<Rightarrow> 't filter_root \<times> 'h world \<Rightarrow> bool"
  for L :: lib and H :: "'h hostcalls" and T :: "'t trie_ops"
    and parse_config :: "bytes \<Rightarrow> (plugin_configuration, string) result"
where
  configure: "on_configure L H T parse_config s = Some (ok, s') \<Longrightarrow> root_step L H T parse_config s s'"
| stream: "root_step L H T parse_config (r, w) (r, snd (create_http_context H i r w))"
| tick: "root_step L H T parse_config (r, w) (r, on_tick L H w)"
| answer: "root_step L H T parse_config (r, w) (r, root_on_grpc_call_response L H tok st n w)"
| streams: "w_descriptors w' = w_descriptors w \<Longrightarrow> w_filters w' = w_filters w \<Longrightarrow> root_step L H T parse_config (r, w) (r, w')"

abbreviation root_reachable where
  "root_reachable L H T parse_config s \<equiv> (root_step L H T parse_config)\<^sup>*\<^sup>* s"

section \<open>Descriptors across configurations\<close>

lemma from_config_ok:
  "dm_ok dm \<Longrightarrow> from_config addr sc dm = (r, dm') \<Longrightarrow> dm_ok dm' \<and> dm_forward dm dm'"
  by (auto simp: from_config_def dynamic_service_new_def Let_def add_expected_ok
      split: service_type.splits option.splits prod.splits)

lemma create_services_ok:
  "dm_ok dm \<Longrightarrow> create_services addr cs dm = (r, dm') \<Longrightarrow> dm_ok dm' \<and> dm_forward dm dm'"
proof (induction cs arbitrary: addr dm r dm')
  case (Cons c cs)
  obtain n sc where c: "c = (n, sc)" by force
  obtain r1 dm1 where f: "from_config addr sc dm = (r1, dm1)" by force
  obtain r2 dm2 where s: "create_services (Suc addr) cs dm1 = (r2, dm2)" by force
  from from_config_ok [OF Cons.prems(1) f] Cons.IH [OF _ s] Cons.prems(2) c f s show ?case
    by (cases r1; cases r2) (auto intro: dm_forward_trans)
qed simp

lemma factory_try_from_ok:
  "dm_ok dm \<Longrightarrow> factory_try_from L T addr config dm = (r, dm') \<Longrightarrow> dm_ok dm' \<and> dm_forward dm dm'"
  by (auto simp: factory_try_from_def split: prod.splits result.splits dest: create_services_ok)

definition world_forward :: "'h world \<Rightarrow> 'h world \<Rightarrow> bool" where
  "world_forward w w' = (dm_ok (w_descriptors w') \<and> dm_forward (w_descriptors w) (w_descriptors w'))"

lemma world_forward_refl: "dm_ok (w_descriptors w) \<Longrightarrow> w_descriptors w' = w_descriptors w \<Longrightarrow> world_forward w w'"
  by (simp add: world_forward_def)

lemma world_forward_trans: "world_forward a b \<Longrightarrow> world_forward b c \<Longrightarrow> world_forward a c"
  by (auto simp: world_forward_def intro: dm_forward_trans)

lemma fetch_descriptors_forward: "dm_ok (w_descriptors w) \<Longrightarrow> world_forward w (fetch_descriptors L H w)"
  by (auto simp: fetch_descriptors_def world_forward_def split: prod.splits dest: fetch_missing_ok)

lemma set_tick_enabled_facts:
  assumes "set_tick_enabled H enable (r, w) = (r', w')"
  shows "w_descriptors w' = w_descriptors w" "fr_pipeline_factory r' = fr_pipeline_factory r"
  using assms by (auto simp: set_tick_enabled_def split: if_splits prod.splits result.splits)

text \<open>The world in which an accepted configuration is handed to \<^verbatim>\<open>set_tick_enabled\<close>.\<close>

definition configured_world :: "lib \<Rightarrow> 'h hostcalls \<Rightarrow> plugin_configuration \<Rightarrow> descriptor_manager \<Rightarrow> 'h world \<Rightarrow> 'h world" where
  "configured_world L H config dm w =
     (let w = w\<lparr>w_descriptors := set_descriptor_service (pc_descriptor_service config) dm\<rparr>
      in if has_expected (w_descriptors w) then fetch_descriptors L H w else w)"

lemma process_config_accepted:
  assumes "process_config L H T config (r, w) = Some (b, r', w')"
    and "factory_try_from L T (fr_next_addr r) config (w_descriptors w) = (Some (Ok factory), dm)"
  shows "b \<and> set_tick_enabled H (has_expected (set_descriptor_service (pc_descriptor_service config) dm))
    (r\<lparr>fr_next_addr := fr_next_addr r + length (pc_services config), fr_pipeline_factory := factory\<rparr>,
     configured_world L H config dm w) = (r', w')"
  using assms by (simp add: process_config_def configured_world_def Let_def)

lemma process_config_forward:
  assumes ok: "dm_ok (w_descriptors w)" and p: "process_config L H T config (r, w) = Some (b, r', w')"
  shows "world_forward w w'"
proof -
  obtain f dm where f: "factory_try_from L T (fr_next_addr r) config (w_descriptors w) = (f, dm)" by force
  note dm = factory_try_from_ok [OF ok f]
  show ?thesis
  proof (cases f)
    case (Some x)
    show ?thesis
    proof (cases x)
      case (Ok factory)
      let ?w1 = "w\<lparr>w_descriptors := set_descriptor_service (pc_descriptor_service config) dm\<rparr>"
      have w1: "world_forward w ?w1"
        using dm set_descriptor_service_ok [of dm "pc_descriptor_service config"]
        by (auto simp: world_forward_def intro: dm_forward_trans)
      then have "dm_ok (w_descriptors ?w1)" by (simp add: world_forward_def)
      then have "world_forward ?w1 (configured_world L H config dm w)"
        using fetch_descriptors_forward [of ?w1 L H] world_forward_refl [of ?w1 ?w1]
        by (simp add: configured_world_def Let_def)
      with w1 have "world_forward w (configured_world L H config dm w)" by (rule world_forward_trans)
      moreover have "w_descriptors w' = w_descriptors (configured_world L H config dm w)"
        using process_config_accepted [OF p] f Some Ok set_tick_enabled_facts(1) by blast
      ultimately show ?thesis by (simp add: world_forward_def)
    qed (use p f Some dm in \<open>auto simp: process_config_def Let_def world_forward_def\<close>)
  qed (use p f in \<open>simp add: process_config_def Let_def\<close>)
qed

lemma root_step_forward:
  "root_step L H T pc s s' \<Longrightarrow> dm_ok (w_descriptors (snd s)) \<Longrightarrow> world_forward (snd s) (snd s')"
proof (induction rule: root_step.induct)
  case (configure s ok s')
  obtain r w r' w' where s: "s = (r, w)" "s' = (r', w')" by force
  let ?w = "increment_world H ''kuadrant.configs'' w"
  have same: "w_descriptors ?w = w_descriptors w" by (simp add: increment_world_def)
  have ok: "dm_ok (w_descriptors (?w\<lparr>w_filters := x\<rparr>))" for x using configure(2) same s by simp
  from configure(1) s have "w' = ?w \<or> (\<exists>config x. process_config L H T config (r, ?w\<lparr>w_filters := x\<rparr>) = Some (ok, r', w'))"
    by (auto simp: on_configure_def Let_def split: result.splits option.splits)
  then have "world_forward ?w w'"
  proof (elim disjE exE)
    fix config x
    assume "process_config L H T config (r, ?w\<lparr>w_filters := x\<rparr>) = Some (ok, r', w')"
    from process_config_forward [OF ok this] show ?thesis by (simp add: world_forward_def)
  qed (use configure(2) same s world_forward_refl [of ?w] in simp)
  with same s show ?case by (simp add: world_forward_def)
next
  case (stream r w i)
  then show ?case by (simp add: create_http_context_def world_forward_def)
next
  case (tick r w)
  then show ?case by (simp add: on_tick_def fetch_descriptors_forward)
next
  case (answer r w tok st n)
  obtain x w1 where h: "handle_descriptor_response L H tok st n w = (x, w1)" by force
  have "dm_ok (w_descriptors w1) \<and> dm_forward (w_descriptors w) (w_descriptors w1)"
    using h answer by (auto simp: handle_descriptor_response_def split: if_splits result.splits option.splits prod.splits
        dest: handle_response_ok)
  with h reset_pending_ok [of "w_descriptors w1" tok] show ?case
    by (auto simp: root_on_grpc_call_response_def world_forward_def intro: dm_forward_trans)
qed (simp add: world_forward_def)

lemma process_config_filters:
  "process_config L H T config (r, w) = Some (accepted, r', w') \<Longrightarrow> w_filters w' = w_filters w"
  by (auto simp: process_config_def fetch_descriptors_def set_tick_enabled_def Let_def
      split: prod.splits option.splits result.splits if_splits)

lemma root_step_filters:
  "root_step L H T pc s s' \<Longrightarrow> handles_ok (w_filters (snd s)) \<Longrightarrow> handles_ok (w_filters (snd s'))"
proof (induction rule: root_step.induct)
  case (configure s ok s')
  then show ?case
    by (cases s; cases s')
       (auto simp: on_configure_def increment_world_def Let_def init_observability_handles
         split: result.splits option.splits dest!: process_config_filters)
next
  case (answer r w tok st n)
  then show ?case
    by (auto simp: root_on_grpc_call_response_def handle_descriptor_response_def
        split: prod.split result.split option.split)
qed (simp_all add: create_http_context_def on_tick_def fetch_descriptors_def split: prod.split)

interpretation root: progress_system "root_step L H T pc"
    "\<lambda>s. dm_ok (w_descriptors (snd s)) \<and> handles_ok (w_filters (snd s))"
    "\<lambda>s s'. dm_forward (w_descriptors (snd s)) (w_descriptors (snd s'))"
  for L :: lib and H :: "'h hostcalls" and T :: "'t trie_ops" and pc :: "bytes \<Rightarrow> (plugin_configuration, string) result"
  by unfold_locales (auto dest: root_step_forward root_step_filters simp: world_forward_def intro: dm_forward_trans)

lemma has_expected_fetch:
  assumes "has_expected (w_descriptors w)"
  shows "has_expected (w_descriptors (fetch_descriptors L H w))"
proof -
  let ?m = "w_descriptors w"
  have "has_expected (set_states (Pending_desc t) ks ?m)" if "ks \<noteq> []" for t ks
  proof -
    from that obtain k where "k \<in> set ks" by (cases ks) auto
    then have "map_of (dm_descriptors (set_states (Pending_desc t) ks ?m)) k = Some (Pending_desc t)"
      by (simp add: set_states_def set_states_lookup)
    from map_of_SomeD [OF this] show ?thesis by (force simp: has_expected_def list_ex_iff)
  qed
  with assms show ?thesis
    by (auto simp: fetch_descriptors_def fetch_missing_def Let_def split: prod.splits option.splits result.splits if_splits)
qed

lemma set_tick_enabled_on:
  assumes "set_tick_enabled H enable (r, w) = (r', w')" and "\<forall>period h. is_ok (fst (hc_set_tick_period H period h))"
  shows "fr_tick_enabled r' = enable"
proof -
  have "is_ok x" if "hc_set_tick_period H period h = (x, h')" for x period h h' using assms(2) that by (metis fst_conv)
  with assms(1) show ?thesis
    by (fastforce simp: set_tick_enabled_def split: if_splits prod.splits result.splits)
qed

section \<open>Properties\<close>

text \<open>C18: once a service's descriptors are there, they stay: whatever the root context does
  (configurations accepted, rejected or unreadable, ticks, answers good or bad, and anything the
  streams do in between), a service that has a pool keeps having one, so a call that could be built
  can be built later.\<close>

theorem root_keeps_descriptors:
  assumes "w_descriptors w0 = descriptor_manager_default L" and "w_filters w0 = no_handles"
    and "(root_step L H T parse_config)\<^sup>*\<^sup>* (filter_root_new T i, w0) s"
    and "(root_step L H T parse_config)\<^sup>*\<^sup>* s s'"
    and "is_ok (get_pool (w_descriptors (snd s)) cluster service)"
  shows "is_ok (get_pool (w_descriptors (snd s')) cluster service)"
proof -
  have ok: "dm_ok (w_descriptors (snd s)) \<and> handles_ok (w_filters (snd s))"
    using root.run_progress [OF assms(3)] dm_ok_default [of L] assms(1,2) by simp
  from root.run_progress [OF assms(4) this] ok assms(5) show ?thesis
    by (simp add: get_pool_available dm_forward_def)
qed

definition auth_config :: plugin_configuration where
  "auth_config = \<lparr>pc_request_data = [],
     pc_services = [(''auth'', \<lparr>sc_service_type = ST_Auth, sc_endpoint = ''c'', sc_failure_mode = Mode_Deny,
       sc_timeout = 20, sc_grpc_service = None, sc_grpc_method = None\<rparr>)],
     pc_action_sets = [],
     pc_observability = \<lparr>ob_http_header_identifier = None, ob_default_level = None, ob_tracing = None\<rparr>,
     pc_descriptor_service = ''d''\<rparr>"

definition root_world :: "bool world" where
  "root_world = (flow_world False)\<lparr>w_descriptors := descriptor_manager_default flow_lib\<rparr>"

lemma auth_factory:
  "\<exists>pf. factory_try_from flow_lib trie_ref n auth_config dm = (Some (Ok pf), add_expected (DescriptorKey ''c'' AUTH_SERVICE) dm)"
  by (simp add: factory_try_from_def auth_config_def from_config_def dynamic_service_new_def factory_of_def factory_with_def Let_def)

lemma default_auth: "map_of (dm_embedded (descriptor_manager_default flow_lib)) AUTH_SERVICE \<noteq> None"
  "dm_descriptors (descriptor_manager_default flow_lib) = []"
  by (simp_all add: descriptor_manager_default_def Let_def register_embedded_def flow_lib_def demo_lib_def)

lemma auth_configured:
  "\<exists>r w. on_configure flow_lib flow_host trie_ref (\<lambda>_. Ok auth_config) (filter_root_new trie_ref 0, root_world) = Some (True, r, w)
     \<and> fr_tick_enabled r = False \<and> is_ok (get_pool (w_descriptors w) ''c'' AUTH_SERVICE)"
proof -
  let ?d = "descriptor_manager_default flow_lib"
  let ?k = "DescriptorKey ''c'' AUTH_SERVICE"
  let ?m = "set_descriptor_service ''d'' (add_expected ?k ?d)"
  obtain h where h: "map_of (dm_embedded ?d) AUTH_SERVICE = Some h" using default_auth(1) by blast
  have m: "dm_ok ?m"
    using dm_ok_default add_expected_ok set_descriptor_service_ok by blast
  have st: "dm_descriptors ?m = [(?k, Embedded h)]"
    using h by (simp add: set_descriptor_service_def add_expected_def Let_def or_insert_def default_auth(2))
  then have "available ?m ?k" "\<not> has_expected ?m" by (simp_all add: available_def state_of_def has_expected_def)
  then have p: "is_ok (get_pool ?m ''c'' AUTH_SERVICE)" "\<not> has_expected ?m" using get_pool_available [OF m] by simp_all
  obtain pf where pf: "factory_try_from flow_lib trie_ref 0 auth_config ?d = (Some (Ok pf), add_expected ?k ?d)"
    using auth_factory by blast
  have d: "pc_descriptor_service auth_config = ''d''" by (simp add: auth_config_def)
  let ?w0 = "increment_world flow_host ''kuadrant.configs'' root_world"
  let ?w = "?w0\<lparr>w_filters := init_observability flow_host False None (w_host ?w0) (w_filters ?w0)\<rparr>"
  let ?r = "(filter_root_new trie_ref 0)\<lparr>fr_next_addr := length (pc_services auth_config), fr_pipeline_factory := pf\<rparr>"
  have r: "fr_next_addr (filter_root_new trie_ref 0) = 0" "\<not> fr_tick_enabled (filter_root_new trie_ref 0)"
    by (simp_all add: filter_root_new_def)
  have "process_config flow_lib flow_host trie_ref auth_config (filter_root_new trie_ref 0, w) =
      Some (True, ?r, w\<lparr>w_descriptors := ?m\<rparr>)" if "w_descriptors w = ?d" for w
    using pf p(2) d r that by (simp add: process_config_def Let_def set_tick_enabled_def)
  moreover have "w_descriptors ?w = ?d" by (simp add: increment_world_def root_world_def)
  moreover have "hc_get_buffer flow_host b n k h = Ok (Some [])" for b n k h by (simp add: flow_host_def)
  moreover have "pc_observability auth_config = \<lparr>ob_http_header_identifier = None, ob_default_level = None, ob_tracing = None\<rparr>"
    by (simp add: auth_config_def)
  ultimately have "on_configure flow_lib flow_host trie_ref (\<lambda>_. Ok auth_config) (filter_root_new trie_ref 0, root_world) =
      Some (True, ?r, ?w\<lparr>w_descriptors := ?m\<rparr>)" by (simp add: on_configure_def Let_def)
  with p(1) r(2) show ?thesis by (intro exI [of _ ?r] exI [of _ "?w\<lparr>w_descriptors := ?m\<rparr>"]) simp
qed

theorem root_keeps_descriptors_witness:
  "\<exists>s s'. (root_step flow_lib flow_host trie_ref (\<lambda>_. Ok auth_config))\<^sup>*\<^sup>* (filter_root_new trie_ref 0, root_world) s
     \<and> root_step flow_lib flow_host trie_ref (\<lambda>_. Ok auth_config) s s'
     \<and> is_ok (get_pool (w_descriptors (snd s')) ''c'' AUTH_SERVICE)"
proof -
  obtain r w where c: "on_configure flow_lib flow_host trie_ref (\<lambda>_. Ok auth_config) (filter_root_new trie_ref 0, root_world)
      = Some (True, r, w)" and g: "is_ok (get_pool (w_descriptors (snd (r, w))) ''c'' AUTH_SERVICE)"
    using auth_configured by auto
  have s: "(root_step flow_lib flow_host trie_ref (\<lambda>_. Ok auth_config))\<^sup>*\<^sup>* (filter_root_new trie_ref 0, root_world) (r, w)"
    using root_step.configure [OF c] by (rule r_into_rtranclp)
  have t: "root_step flow_lib flow_host trie_ref (\<lambda>_. Ok auth_config) (r, w) (r, on_tick flow_lib flow_host w)"
    by (rule root_step.tick)
  have d: "w_descriptors root_world = descriptor_manager_default flow_lib" "w_filters root_world = no_handles"
    by (simp_all add: root_world_def flow_world_def)
  have t': "(root_step flow_lib flow_host trie_ref (\<lambda>_. Ok auth_config))\<^sup>*\<^sup>* (r, w) (r, on_tick flow_lib flow_host w)"
    using t by (rule r_into_rtranclp)
  from root_keeps_descriptors [OF d s t' g]
  have "is_ok (get_pool (w_descriptors (snd (r, on_tick flow_lib flow_host w))) ''c'' AUTH_SERVICE)" .
  with s t show ?thesis by (intro exI conjI)
qed

text \<open>C17: what a configuration does to the root context.  A rejected one changes neither the factory
  new streams get nor the ticking; an accepted one is the new factory, and if the host sets
  the tick period as asked, the ticking is on exactly when some service's descriptors are not
  built in, so that missing descriptors are fetched again.\<close>

theorem process_config_outcome:
  assumes "process_config L H T config (r, w) = Some (accepted, r', w')"
  shows "(\<not> accepted \<longrightarrow> fr_pipeline_factory r' = fr_pipeline_factory r \<and> fr_tick_enabled r' = fr_tick_enabled r)
    \<and> (accepted \<longrightarrow> fst (factory_try_from L T (fr_next_addr r) config (w_descriptors w)) = Some (Ok (fr_pipeline_factory r')))
    \<and> (accepted \<and> (\<forall>period h. is_ok (fst (hc_set_tick_period H period h))) \<longrightarrow>
         fr_tick_enabled r' = has_expected (w_descriptors w'))"
proof -
  obtain f dm where f: "factory_try_from L T (fr_next_addr r) config (w_descriptors w) = (f, dm)" by force
  obtain x where x: "f = Some x" using assms f by (cases f) (simp_all add: process_config_def Let_def)
  show ?thesis
  proof (cases x)
    case (Ok factory)
    let ?b = "has_expected (set_descriptor_service (pc_descriptor_service config) dm)"
    note p = process_config_accepted [OF assms f [unfolded x Ok]]
    note t = conjunct2 [OF p]
    have "has_expected (w_descriptors (configured_world L H config dm w)) = ?b"
      using has_expected_fetch [of "w\<lparr>w_descriptors := set_descriptor_service (pc_descriptor_service config) dm\<rparr>" L H]
      by (simp add: configured_world_def Let_def)
    with set_tick_enabled_facts [OF t] set_tick_enabled_on [OF t] p f x Ok show ?thesis by simp
  qed (use assms f x in \<open>auto simp: process_config_def Let_def\<close>)
qed

theorem process_config_outcome_witness:
  "\<exists>r w r' w'. process_config flow_lib flow_host trie_ref auth_config (r, w) = Some (True, r', w')
     \<and> fr_tick_enabled r' = has_expected (w_descriptors w')"
proof -
  obtain pf where pf: "factory_try_from flow_lib trie_ref 0 auth_config (w_descriptors root_world)
      = (Some (Ok pf), add_expected (DescriptorKey ''c'' AUTH_SERVICE) (w_descriptors root_world))"
    using auth_factory by blast
  obtain x where "process_config flow_lib flow_host trie_ref auth_config (filter_root_new trie_ref 0, root_world) = Some x"
    using pf by (simp add: process_config_def filter_root_new_def Let_def)
  then obtain b r' w' where
    p: "process_config flow_lib flow_host trie_ref auth_config (filter_root_new trie_ref 0, root_world) = Some (b, r', w')"
    by (cases x) blast
  have b: b using process_config_accepted [OF p, of pf] pf by (simp add: filter_root_new_def)
  have "\<forall>period h. is_ok (fst (hc_set_tick_period flow_host period h))" by (simp add: flow_host_def)
  with process_config_outcome [OF p] b have "fr_tick_enabled r' = has_expected (w_descriptors w')" by blast
  moreover from p b have "process_config flow_lib flow_host trie_ref auth_config (filter_root_new trie_ref 0, root_world)
      = Some (True, r', w')" by simp
  ultimately show ?thesis by (intro exI conjI)
qed

text \<open>C19: the observability of the module follows every configuration that can be read, also one
  that is rejected afterwards: spans are exported at its level if it names a tracing service and
  not at all otherwise, and events are logged at the level of the host (at the one before, or at
  \<^verbatim>\<open>WARN\<close>, if the host does not tell it).\<close>

theorem configuration_sets_observability:
  assumes "(root_step L H T parse_config)\<^sup>*\<^sup>* (filter_root_new T i, w0) (r, w)"
    and "w_descriptors w0 = descriptor_manager_default L" and "w_filters w0 = no_handles"
    and "hc_get_buffer H PluginConfiguration 0 (2 ^ 32 - 1) h = Ok (Some bs)" and "parse_config bs = Ok config"
    and "h = w_host (increment_world H ''kuadrant.configs'' w)"
    and "on_configure L H T parse_config (r, w) = Some (accepted, r', w')"
  shows "otel_filter_handle (w_filters w') =
       Some (map_option (\<lambda>_. otel_level (ob_default_level (pc_observability config))) (ob_tracing (pc_observability config)))
    \<and> log_filter_handle (w_filters w') =
       Some (case hc_get_log_level H h of
               Ok l \<Rightarrow> proxy_log_level_to_filter l
             | Err _ \<Rightarrow> (case log_filter_handle (w_filters w) of Some f \<Rightarrow> f | None \<Rightarrow> LF_WARN))"
proof -
  have ok: "handles_ok (w_filters w)"
    using root.run_progress [OF assms(1)] assms(2,3) dm_ok_default [of L] by simp
  have "w_filters w' = init_observability H (ob_tracing (pc_observability config) \<noteq> None)
      (ob_default_level (pc_observability config)) h (w_filters w)"
    using assms(4-7) by (auto simp: on_configure_def Let_def increment_world_def dest!: process_config_filters)
  then show ?thesis
    by (cases "ob_tracing (pc_observability config)")
       (simp_all add: init_observability_handles(2) log_filter_follows_host [OF ok])
qed

theorem configuration_sets_observability_witness:
  "\<exists>r' w'. on_configure flow_lib flow_host trie_ref (\<lambda>_. Ok auth_config) (filter_root_new trie_ref 0, root_world) = Some (True, r', w')
     \<and> otel_filter_handle (w_filters w') = Some None \<and> log_filter_handle (w_filters w') = Some LF_INFO"
proof -
  obtain r' w' where c: "on_configure flow_lib flow_host trie_ref (\<lambda>_. Ok auth_config) (filter_root_new trie_ref 0, root_world)
      = Some (True, r', w')" using auth_configured by blast
  have d: "w_descriptors root_world = descriptor_manager_default flow_lib" "w_filters root_world = no_handles"
    by (simp_all add: root_world_def flow_world_def)
  have b: "hc_get_buffer flow_host PluginConfiguration 0 (2 ^ 32 - 1) h = Ok (Some [])"
    "hc_get_log_level flow_host h = Ok Level_Info" for h
    by (simp_all add: flow_host_def)
  have "otel_filter_handle (w_filters w') = Some None \<and> log_filter_handle (w_filters w') = Some LF_INFO"
    using configuration_sets_observability [OF rtranclp.rtrancl_refl d b(1) refl refl c] b(2)
    by (simp add: auth_config_def proxy_log_level_to_filter_def)
  with c show ?thesis by blast
qed

end
