(* ===== verification/Isolation.thy ===== *)
theory Isolation
  imports Http_Filter
begin

text \<open>
  What a callback of one stream can do to the others: the streams of a module share the world.  A
  callback leaves the descriptors and the filters alone, forgets no call that is in flight, and the
  calls it adds to its own pipeline are under tokens that no call had before.
\<close>

section \<open>Worlds that grow\<close>

text \<open>From the world \<open>w\<close> to \<open>w'\<close>, with the tokens of a pipeline going from \<open>K\<close> to \<open>K'\<close>.\<close>

definition grows :: "('h \<Rightarrow> u32 set) \<Rightarrow> 'h world \<Rightarrow> u32 set \<Rightarrow> 'h world \<Rightarrow> u32 set \<Rightarrow> bool" where
  "grows out w K w' K' =
     (w_descriptors w' = w_descriptors w \<and> w_filters w' = w_filters w
      \<and> out (w_host w) \<subseteq> out (w_host w') \<and> K' \<subseteq> K \<union> (out (w_host w') - out (w_host w)))"

lemma grows_refl [simp]: "grows out w K w K"
  by (simp add: grows_def)

lemma grows_trans [trans]: "grows out w K w' K' \<Longrightarrow> grows out w' K' w'' K'' \<Longrightarrow> grows out w K w'' K''"
  unfolding grows_def by auto

lemma grows_less: "grows out w K w' K' \<Longrightarrow> K'' \<subseteq> K' \<Longrightarrow> grows out w K w' K''"
  unfolding grows_def by blast

lemma quiet_grows: "quiet out ctx ctx' \<Longrightarrow> grows out (backend ctx) K (backend ctx') K"
  by (simp add: quiet_def same_control_def grows_def)

lemma run_effect_grows:
  assumes "token_laws H out" and "run_effect H out t ctx r ctx'"
  shows "grows out (backend ctx) K (backend ctx') (case r of Deferred tok _ \<Rightarrow> insert tok K | _ \<Rightarrow> K)"
  using assms quiet_grows [of out ctx ctx' K]
  by (cases r) (auto simp: run_effect_def token_laws_def same_control_def grows_def)

text \<open>The world and the tokens a pipeline state ends with.\<close>

definition state_grows :: "('h \<Rightarrow> u32 set) \<Rightarrow> 'h world \<Rightarrow> u32 set \<Rightarrow> 'h pipeline_state \<Rightarrow> bool" where
  "state_grows out w K st =
     (case st of
        InProgress p \<Rightarrow> grows out w K (backend (p_ctx p)) (call_tokens p)
      | Completed _ w' \<Rightarrow> grows out w K w' {}
      | Trapped \<Rightarrow> True)"

abbreviation pipeline_grows :: "('h \<Rightarrow> u32 set) \<Rightarrow> 'h world \<Rightarrow> u32 set \<Rightarrow> 'h pipeline \<Rightarrow> bool" where
  "pipeline_grows out w K p \<equiv> grows out w K (backend (p_ctx p)) (call_tokens p)"

lemma state_from_grows: "pipeline_grows out w K p \<Longrightarrow> state_grows out w K (pipeline_state_from p)"
  by (auto simp: state_grows_def pipeline_state_from_def intro: grows_less)

lemma complete_task_same [simp]:
  "p_ctx (complete_task i p) = p_ctx p" "deferred_tasks (complete_task i p) = deferred_tasks p"
  "task_queue (complete_task i p) = task_queue p"
  by (simp_all add: complete_task_def split: option.split)

lemma defer_task_same [simp]:
  "p_ctx (defer_task tok t p) = p_ctx p" "call_tokens (defer_task tok t p) = insert tok (call_tokens p)"
  by (simp_all add: defer_task_def keys_bt_insert)

section \<open>Pipelines\<close>

lemma run_teardown_action_grows:
  assumes T: "token_laws H out" and "pipeline_grows out w K p"
  shows "pipeline_grows out w K (run_teardown_action L H a p)"
proof -
  obtain r ctx where e: "teardown_execute L H a (p_ctx p) = (r, ctx)" by force
  have "grows out (backend (p_ctx p)) (call_tokens p) (backend ctx)
      (case r of Teardown_done \<Rightarrow> call_tokens p | Teardown_deferred tok \<Rightarrow> insert tok (call_tokens p))"
    using teardown_execute_effect [OF _ e, of out] T
    by (auto simp: token_laws_def same_control_def grows_def split: teardown_outcome.splits)
  with assms(2) e show ?thesis
    by (auto simp: run_teardown_action_def split: teardown_outcome.splits intro: grows_trans)
qed

lemma execute_teardown_grows:
  assumes T: "token_laws H out" and p: "pipeline_grows out w K p"
  shows "pipeline_grows out w K (execute_teardown L H p)"
proof -
  have f: "pipeline_grows out w K q \<Longrightarrow> pipeline_grows out w K (fold (run_teardown_action L H) as q)" for as q
    by (induction as arbitrary: q) (simp_all add: run_teardown_action_grows [OF T])
  have "call_tokens ((replace_deferred_with_noop p)\<lparr>teardown_tasks := []\<rparr>) = call_tokens p"
    by (force simp: replace_deferred_with_noop_def image_image split_beta)
  moreover have "p_ctx (replace_deferred_with_noop p) = p_ctx p" by (simp add: replace_deferred_with_noop_def)
  ultimately show ?thesis using p unfolding execute_teardown_def by (intro f) simp
qed

lemma terminate_grows:
  assumes T: "token_laws H out" and p: "pipeline_grows out w K p" and "\<not> is_pending t"
    and "terminate_pipeline L N H t p = Some p'"
  shows "pipeline_grows out w K p'"
proof -
  obtain r ctx where a: "task_apply L N H t (p_ctx p) = (r, ctx)" by force
  have "run_effect H out t (p_ctx p) r ctx"
    using T assms(3) a by (intro run_effect_task) (simp_all add: token_laws_def)
  from run_effect_grows [OF T this, of "call_tokens p"]
  have "grows out (backend (p_ctx p)) (call_tokens p) (backend ctx) (call_tokens p)"
    by (rule grows_less) (auto split: task_outcome.split)
  with p have "pipeline_grows out w K (p\<lparr>p_ctx := ctx, task_queue := [], terminated := True\<rparr>)"
    by (auto intro: grows_trans)
  moreover have "p' = execute_teardown L H (p\<lparr>p_ctx := ctx, task_queue := [], terminated := True\<rparr>)"
    using assms(4) a by (cases r) (auto simp: terminate_pipeline_def)
  ultimately show ?thesis using execute_teardown_grows [OF T] by blast
qed

lemma eval_loop_grows:
  assumes T: "token_laws H out"
  shows "\<forall>t \<in> set ts. \<not> is_pending t \<Longrightarrow> pipeline_grows out w K p \<Longrightarrow>
    (case eval_loop L N H ts p of
       Loop_end p' \<Rightarrow> pipeline_grows out w K p'
     | Loop_return st \<Rightarrow> state_grows out w K st)"
proof (induction ts arbitrary: p)
  case (Cons t ts)
  obtain r ctx where a: "task_apply L N H t (p_ctx p) = (r, ctx)" by force
  have e: "run_effect H out t (p_ctx p) r ctx"
    using T Cons.prems(1) a by (intro run_effect_task) (simp_all add: token_laws_def)
  note g = grows_trans [OF Cons.prems(2) run_effect_grows [OF T e]]
  show ?case
  proof (cases "blocked p t")
    case False
    show ?thesis
    proof (cases r)
      case (Terminate x)
      then have "\<not> is_pending x" using e by (simp add: run_effect_def)
      with Terminate g have "pipeline_grows out w K p'"
        if "terminate_pipeline L N H x (p\<lparr>p_ctx := ctx\<rparr>) = Some p'" for p'
        using terminate_grows [OF T _ _ that, of w K] by simp
      with Terminate a False show ?thesis
        by (auto simp: state_grows_def [of _ _ _ Trapped] split: option.split intro: state_from_grows)
    qed (use Cons a False g in \<open>auto simp: state_grows_def\<close>)
  qed (use Cons in simp)
qed simp

lemma pipeline_eval_grows:
  assumes T: "token_laws H out" and "\<forall>t \<in> set (task_queue p). \<not> is_pending t" and "pipeline_grows out w K p"
  shows "state_grows out w K (pipeline_eval L N H p)"
  using eval_loop_grows [OF T assms(2), of w K "p\<lparr>task_queue := []\<rparr>" L N] assms(3) execute_teardown_grows [OF T]
  by (auto simp: pipeline_eval_def split: loop_result.splits intro: state_from_grows)

lemma digest_answer_grows:
  assumes T: "token_laws H out" and p: "pipeline_grows out w K p" and t: "is_pending t"
    and q: "\<forall>t \<in> set (task_queue p). \<not> is_pending t" and d: "digest_answer L N H t p = Some p'"
  shows "pipeline_grows out w K p' \<and> (\<forall>t \<in> set (task_queue p'). \<not> is_pending t)"
proof -
  obtain r ctx where a: "task_apply L N H t (p_ctx p) = (r, ctx)" by force
  have e: "answer_effect out t (p_ctx p) r ctx"
    using T t a by (intro answer_effect_task) (simp_all add: token_laws_def)
  then have "grows out (backend (p_ctx p)) (call_tokens p) (backend ctx) (call_tokens p)"
    by (simp add: answer_effect_def grows_def)
  with p have g: "pipeline_grows out w K (p\<lparr>p_ctx := ctx\<rparr>)" by (auto intro: grows_trans)
  show ?thesis
  proof (cases r)
    case (Terminate x)
    then have x: "\<not> is_pending x" "terminate_pipeline L N H x (p\<lparr>p_ctx := ctx\<rparr>) = Some p'"
      using e a d by (simp_all add: answer_effect_def answer_outcome_def digest_answer_def)
    from terminate_grows [OF T g x] terminate_idle [OF x(2)] show ?thesis by simp
  qed (use e a d g q in \<open>auto simp: answer_effect_def answer_outcome_def digest_answer_def\<close>)
qed

lemma digest_grows:
  assumes T: "token_laws H out" and inv: "pipeline_inv out p" and known: "tok \<in> call_tokens p"
  shows "state_grows out w (call_tokens p - {tok}) (digest L N H tok st n (set_world w p))"
proof -
  from known obtain t where t: "map_of (deferred_tasks p) tok = Some t"
    by (fastforce dest: weak_map_of_SomeI)
  let ?q = "(set_world w p)\<lparr>deferred_tasks := bt_remove tok (deferred_tasks p),
      p_ctx := snd (set_grpc_response_data st n (p_ctx (set_world w p)))\<rparr>"
  have "is_pending t" using inv map_of_SomeD [OF t] by (force simp: pipeline_inv_def)
  moreover have "pipeline_grows out w (call_tokens p - {tok}) ?q"
    by (simp add: set_world_def set_grpc_response_data_def fst_bt_remove)
  moreover have "\<forall>t \<in> set (task_queue ?q). \<not> is_pending t" using inv by (simp add: pipeline_inv_def set_world_def)
  ultimately have "pipeline_grows out w (call_tokens p - {tok}) p' \<and> (\<forall>t \<in> set (task_queue p'). \<not> is_pending t)"
    if "digest_answer L N H t ?q = Some p'" for p' using digest_answer_grows [OF T] that by blast
  with pipeline_eval_grows [OF T] show ?thesis
    using t by (auto simp: digest_def set_world_def state_grows_def [of _ _ _ Trapped] split: option.split)
qed

section \<open>Building a pipeline\<close>

lemma enter_request_span_quiet:
  assumes "tracks_calls H out"
  shows "quiet out ctx (enter_request_span H ctx)"
proof -
  obtain i ctx1 where r: "request_id H ctx = (i, ctx1)" by force
  have "quiet out ctx ctx1" using r by (rule request_id_quiet)
  with r show ?thesis
    by (auto simp: enter_request_span_def quiet_def set_host_def tracks_callsD(5) [OF assms] same_control_def)
qed

lemma action_tasks_quiet:
  assumes T: "tracks_calls H out" and a: "action_tasks L H b rdata a ctx = (ts, es, ctx')"
  shows "quiet out ctx ctx'"
proof (cases "act_operation a")
  case (Op_Grpc inst v e as)
  show ?thesis
  proof (cases "service_of inst")
    case None
    obtain i ctx1 where r: "request_id H (set_public_tracker_id v ctx) = (i, ctx1)" by force
    have "quiet out (set_public_tracker_id v ctx) ctx1" using r by (rule request_id_quiet)
    then have q: "quiet out ctx ctx1" by (simp add: quiet_def set_public_tracker_id_def same_control_def)
    have "quiet out ctx (enter_request_span H ctx1)"
      using q enter_request_span_quiet [OF T, of ctx1] by (rule quiet_trans)
    with q a Op_Grpc None r show ?thesis
      by (auto simp: action_tasks_def Let_def export_traces_new_def split: service_instance.splits option.splits)
  next
    case (Some s)
    with a Op_Grpc show ?thesis
      by (auto simp: action_tasks_def Let_def split: prod.splits dest: new_with_attributes_quiet)
  qed
qed (use a in \<open>auto simp: action_tasks_def\<close>)

lemma tasks_of_actions_quiet:
  assumes T: "tracks_calls H out"
  shows "tasks_of_actions L H b rdata as ctx = (ts, es, ctx') \<Longrightarrow> quiet out ctx ctx'"
proof (induction as arbitrary: ctx ts es ctx')
  case (Cons a as)
  obtain ts1 es1 ctx1 where t1: "action_tasks L H b rdata a ctx = (ts1, es1, ctx1)" by (metis prod_cases3)
  obtain ts2 es2 ctx2 where t2: "tasks_of_actions L H b rdata as ctx1 = (ts2, es2, ctx2)" by (metis prod_cases3)
  have "quiet out ctx ctx1" "quiet out ctx1 ctx2" using action_tasks_quiet [OF T t1] Cons.IH [OF t2] by blast+
  with Cons.prems t1 t2 show ?case by (auto intro: quiet_trans)
qed simp

lemma request_pipeline_quiet:
  assumes "tracks_calls H out"
  shows "quiet out ctx (p_ctx (request_pipeline L H bp rdata ctx))"
  using tasks_of_actions_quiet [OF assms]
  by (auto simp: request_pipeline_def to_tasks_def with_teardown_tasks_def with_tasks_def pipeline_new_def
      split: prod.split)

lemma first_match_reads: "first_match L H fb bps ctx = (r, ctx') \<Longrightarrow> reads_only ctx ctx'"
proof (induction bps arbitrary: ctx)
  case (Cons b bps)
  obtain m ctx1 where m: "route_predicates_match L H b ctx = (m, ctx1)" by force
  obtain x ctx0 where p: "predicates_apply L H (bp_route_predicates b) ctx = (x, ctx0)" by force
  have "reads_only ctx ctx1"
    using m p predicates_apply_reads [OF p]
    by (auto simp: route_predicates_match_def split: result.splits attribute_state.splits)
  with Cons.prems Cons.IH [of ctx1] m show ?case
    by (auto split: result.splits bool.splits intro: reads_only_trans)
qed simp

lemma select_blueprint_backend: "select_blueprint L H T pf ctx = (r, ctx') \<Longrightarrow> backend ctx' = backend ctx"
proof -
  assume s: "select_blueprint L H T pf ctx = (r, ctx')"
  obtain h ctx1 where h: "get_hostname H ctx = (h, ctx1)" by force
  have "backend ctx1 = backend ctx"
    using h by (auto simp: get_hostname_def get_attribute_def split: prod.splits result.splits attribute_state.splits
        option.splits dest!: get_attribute_ref_reads simp: reads_only_fields)
  with s h show ?thesis
    by (auto simp: select_blueprint_def Let_def set_hostname_def split: result.splits option.splits
        dest!: first_match_reads simp: reads_only_fields)
qed

lemma extract_trace_context_backend: "backend (extract_trace_context L H ctx) = backend ctx"
  by (auto simp: extract_trace_context_def get_attribute_def split: prod.splits result.splits attribute_state.splits
      option.splits dest!: get_attribute_ref_reads simp: reads_only_fields)

lemma factory_build_grows:
  assumes T: "token_laws H out" and b: "factory_build L H T' pf (req_resp_ctx_new w) = (r, w')"
  shows "grows out w K w' K"
proof -
  obtain x ctx where s: "select_blueprint L H T' pf (req_resp_ctx_new w) = (x, ctx)" by force
  have c: "backend ctx = w" using select_blueprint_backend [OF s] by (simp add: req_resp_ctx_new_def)
  show ?thesis
  proof (cases "\<exists>bp. x = Ok (Some bp)")
    case True
    then obtain bp where x: "x = Ok (Some bp)" by blast
    let ?c = "extract_trace_context L H (with_request_data (pf_request_data pf) (set_action_set_name (bp_name bp) ctx))"
    have "backend ?c = w"
      using c by (simp add: extract_trace_context_backend with_request_data_def set_action_set_name_def)
    moreover have "w' = backend (p_ctx (request_pipeline L H bp (pf_request_data pf) ?c))"
      using b s x by (auto simp: factory_build_def Let_def)
    ultimately show ?thesis
      using quiet_grows [OF request_pipeline_quiet, of H out ?c K] T by (simp add: token_laws_def)
  next
    case False
    with b s c show ?thesis by (auto simp: factory_build_def split: result.splits option.splits)
  qed
qed

section \<open>Callbacks\<close>

abbreviation filter_grows ::
  "('h \<Rightarrow> u32 set) \<Rightarrow> 'h world \<Rightarrow> u32 set \<Rightarrow> 'h world \<Rightarrow> ('h, 't) kuadrant_filter \<Rightarrow> bool"
where
  "filter_grows out w K w' f \<equiv> grows out w K w' (pipeline_calls f)"

lemma increment_world_grows:
  assumes "token_laws H out"
  shows "grows out w K (increment_world H m w) K"
  using assms tracks_callsD(4) [of H out]
  by (simp add: grows_def increment_world_def token_laws_def metric_increment_def counter_inc_by_def
      split: counter.split option.split)

lemma keep_state_grows:
  "state_grows out w K st \<Longrightarrow> keep_state st f = Some (f', w') \<Longrightarrow> filter_grows out w K w' f'"
  by (auto simp: keep_state_def state_grows_def pipeline_calls_def split: pipeline_state.splits)

lemma evaluate_with_grows:
  assumes T: "token_laws H out" and f: "filter_ok L N H out pf f"
    and c: "\<And>ctx. backend (change ctx) = backend ctx" and e: "evaluate_with L N H change w f = Some (f', w')"
  shows "filter_grows out w (pipeline_calls f) w' f'"
proof (cases "kf_pipeline f")
  case (Some p)
  then have "pipeline_inv out p" using f request_run_inv [OF T] unfolding filter_ok_def by blast
  then have "\<forall>t \<in> set (task_queue p). \<not> is_pending t" by (simp add: pipeline_inv_def)
  then have "state_grows out w (pipeline_calls f)
      (pipeline_eval L N H ((set_world w p)\<lparr>p_ctx := change (p_ctx (set_world w p))\<rparr>))"
    using Some c by (intro pipeline_eval_grows [OF T]) (simp_all add: set_world_def pipeline_calls_def)
  with e Some show ?thesis by (auto simp: evaluate_with_def Let_def intro: keep_state_grows)
qed (use e in \<open>simp add: evaluate_with_def\<close>)

lemma request_headers_grows:
  assumes Tr: "trie_laws T content" and ok: "factory_ok content (kf_factory f)" and T: "token_laws H out"
    and n: "kf_pipeline f = None" and e: "on_http_request_headers L N H T w f = Some (a, f', w')"
  shows "filter_grows out w {} w' f'"
proof -
  obtain r w1 where b: "factory_build L H T (kf_factory f) (req_resp_ctx_new w) = (r, w1)" by force
  have g: "grows out w {} (increment_world H m w1) {}" for m
    using factory_build_grows [OF T b] increment_world_grows [OF T] by (rule grows_trans)
  show ?thesis
  proof (cases "\<exists>p. r = Ok (Some p)")
    case True
    then obtain p where r: "r = Ok (Some p)" by blast
    let ?w = "increment_world H ''kuadrant.hits'' w1"
    from factory_build_pipeline [OF ok Tr b [unfolded r]] have "fresh_pipeline p"
      using request_pipeline_facts(1) [OF refl] by blast
    then have "state_grows out w {} (pipeline_eval L N H (set_world ?w p))"
      using g [of "''kuadrant.hits''"] by (intro pipeline_eval_grows [OF T]) (simp_all add: set_world_def fresh_pipeline_def)
    with e b r show ?thesis by (auto simp: on_http_request_headers_def intro: keep_state_grows)
  next
    case False
    have "pipeline_calls f = {}" using n by (simp add: pipeline_calls_def)
    moreover have "grows out w {} (w2\<lparr>w_host := h\<rparr>) {}"
      if "hc_send_http_response H st hs body (w_host w2) = (x, h)" "grows out w {} w2 {}" for st hs body x h w2
      using that tracks_callsD(3) [OF _ that(1), of out] T by (simp add: grows_def token_laws_def)
    ultimately show ?thesis using e b False g
      by (auto simp: on_http_request_headers_def Let_def split: result.splits option.splits prod.splits)
  qed
qed

lemma answer_grows:
  assumes T: "token_laws H out" and f: "filter_ok L N H out pf f" and tok: "tok \<in> pipeline_calls f"
    and e: "on_grpc_call_response L N H tok st n w f = Some (r, f', w')"
  shows "filter_grows out w (pipeline_calls f - {tok}) w' f'"
proof -
  from tok obtain p where p: "kf_pipeline f = Some p" "tok \<in> call_tokens p"
    by (auto simp: pipeline_calls_def split: option.splits)
  then have "pipeline_inv out p" using f request_run_inv [OF T] unfolding filter_ok_def by blast
  note d = digest_grows [OF T this p(2), of w L N st n]
  have res: "grows out w0 K w2 K" if "resume_stream H b g w0 = (r2, w2)" for b g w0 r2 w2 K
    using that tracks_callsD(10,11) [of H out] T
    by (auto simp: resume_stream_def grows_def token_laws_def split: if_splits)
  show ?thesis
    using e p d by (auto simp: on_grpc_call_response_def Let_def state_grows_def pipeline_calls_def
        split: pipeline_state.splits prod.splits dest!: res intro: grows_trans)
qed

end
