(* ===== verification/Shim_Module.thy ===== *)
theory Shim_Module
  imports Root_Context Isolation
begin

text \<open>
  The whole module: \<^verbatim>\<open>src/lib.rs\<close>, the start of the VM in \<^verbatim>\<open>src/filter/root_context.rs\<close>, and the
  root context and all streams together over the one world they share.  The callbacks come in any
  order the proxy may make them; each runs to its end before the next one, for the module has one
  thread.
\<close>

section \<open>Starting the module\<close>

text \<open>What \<^verbatim>\<open>start\<close> registers with the proxy: the level up to which the module logs, the level at
  which a panic is logged, and how a root context is made.\<close>

record 't proxy_setup =
  ps_log_level :: log_level
  ps_panic_level :: log_level
  ps_root_context :: "u32 \<Rightarrow> 't filter_root"

definition start :: "'t trie_ops \<Rightarrow> 't proxy_setup" where
  "start T = \<lparr>ps_log_level = Level_Trace, ps_panic_level = Level_Critical, ps_root_context = filter_root_new T\<rparr>"

text \<open>The global propagators of trace contexts are those of the OpenTelemetry library.\<close>

datatype propagator = Trace_context_propagator | Baggage_propagator

record ('h, 't) shim_module =
  m_root :: "'t filter_root"
  m_world :: "'h world"
  m_streams :: "u32 \<rightharpoonup> ('h, 't) stream"
  m_propagators :: "propagator list"

definition module_new :: "'t trie_ops \<Rightarrow> u32 \<Rightarrow> 'h world \<Rightarrow> ('h, 't) shim_module" where
  "module_new T i w = \<lparr>m_root = ps_root_context (start T) i, m_world = w, m_streams = Map.empty, m_propagators = []\<rparr>"

definition on_vm_start :: "('h, 't) shim_module \<Rightarrow> bool \<times> ('h, 't) shim_module" where
  "on_vm_start m = (True, m\<lparr>m_propagators := [Trace_context_propagator, Baggage_propagator]\<rparr>)"

section \<open>Events of a stream\<close>

datatype stream_event =
    Request_headers
  | Request_body nat bool
  | Response_headers
  | Response_body nat bool
  | Call_answered u32 u32 nat

text \<open>The callback of an event, with what the proxy learns from it; \<open>None\<close> if the proxy does not
  make it in this state, or if the module traps.\<close>

definition pipeline_ended ::
  "lib \<Rightarrow> nom \<Rightarrow> 'h hostcalls \<Rightarrow> u32 \<Rightarrow> u32 \<Rightarrow> nat \<Rightarrow> 'h world \<Rightarrow> ('h, 't) kuadrant_filter \<Rightarrow> bool"
where
  "pipeline_ended L N H tok st n w f =
     (case kf_pipeline f of
        Some p \<Rightarrow> (case digest L N H tok st n (set_world w p) of Completed False _ \<Rightarrow> True | _ \<Rightarrow> False)
      | None \<Rightarrow> False)"

fun handle_event ::
  "lib \<Rightarrow> nom \<Rightarrow> 'h hostcalls \<Rightarrow> 't trie_ops \<Rightarrow> stream_event \<Rightarrow> 'h world \<Rightarrow> ('h, 't) stream
     \<Rightarrow> (('h, 't) stream \<times> 'h world) option"
where
  "handle_event L N H T Request_headers w s =
     (if s_started s then None
      else map_option (\<lambda>(a, f, w'). (s\<lparr>s_filter := f, s_started := True, s_request_paused := (a = Act_Pause)\<rparr>, w'))
        (on_http_request_headers L N H T w (s_filter s)))"
| "handle_event L N H T (Request_body n eos) w s =
     (if \<not> s_started s then None
      else map_option (\<lambda>(a, f, w'). (s\<lparr>s_filter := f, s_request_paused := (a = Act_Pause)\<rparr>, w'))
        (on_http_request_body L N H n eos w (s_filter s)))"
| "handle_event L N H T Response_headers w s =
     (if \<not> s_started s then None
      else map_option (\<lambda>(a, f, w'). (s\<lparr>s_filter := f, s_response_paused := (a = Act_Pause)\<rparr>, w'))
        (on_http_response_headers L N H w (s_filter s)))"
| "handle_event L N H T (Response_body n eos) w s =
     (if \<not> s_started s \<or> \<not> kf_in_response_phase (s_filter s) then None
      else map_option (\<lambda>(a, f, w'). (s\<lparr>s_filter := f, s_response_paused := (a = Act_Pause)\<rparr>, w'))
        (on_http_response_body L N H n eos w (s_filter s)))"
| "handle_event L N H T (Call_answered tok st n) w s =
     (if tok \<notin> pipeline_calls (s_filter s) then None
      else map_option (\<lambda>(r, f, w').
          (s\<lparr>s_filter := f,
             s_request_paused := s_request_paused s \<and> r \<noteq> Request_resumed,
             s_response_paused := s_response_paused s \<and> r \<noteq> Response_resumed,
             s_ended := s_ended s \<or> pipeline_ended L N H tok st n w (s_filter s)\<rparr>, w'))
        (on_grpc_call_response L N H tok st n w (s_filter s)))"

text \<open>The calls of a stream that are in flight when the callback of an event is made.\<close>

fun calls_left :: "stream_event \<Rightarrow> ('h, 't) stream \<Rightarrow> u32 set" where
  "calls_left (Call_answered tok _ _) s = pipeline_calls (s_filter s) - {tok}"
| "calls_left _ s = pipeline_calls (s_filter s)"

lemma handle_event_step:
  assumes "handle_event L N H T ev w s = Some (s', w')" and "calls_left ev s \<subseteq> out (w_host w)"
  shows "stream_step L N H T out s s'"
proof (cases ev)
  case (Call_answered tok st n)
  from assms(1) Call_answered obtain r f where c: "tok \<in> pipeline_calls (s_filter s)"
    "on_grpc_call_response L N H tok st n w (s_filter s) = Some (r, f, w')"
    and s': "s' = s\<lparr>s_filter := f, s_request_paused := s_request_paused s \<and> r \<noteq> Request_resumed,
         s_response_paused := s_response_paused s \<and> r \<noteq> Response_resumed,
         s_ended := s_ended s \<or> pipeline_ended L N H tok st n w (s_filter s)\<rparr>" by (auto split: if_splits)
  have "pipeline_ended L N H tok st n w (s_filter s) \<longleftrightarrow> (\<exists>p w''. kf_pipeline (s_filter s) = Some p
           \<and> digest L N H tok st n (set_world w p) = Completed False w'')"
    by (auto simp: pipeline_ended_def split: option.split pipeline_state.split bool.splits)
  moreover have "pipeline_calls (s_filter s) - {tok} \<subseteq> out (w_host w)" using assms(2) Call_answered by simp
  ultimately show ?thesis using stream_step.answer [OF c(1) _ c(2)] unfolding s' by (simp only:)
qed (use assms in \<open>auto split: if_splits intro: stream_step.intros\<close>)

lemma handle_event_grows:
  assumes Tr: "trie_laws T content" and ok: "factory_ok content pf" and T: "token_laws H out"
    and s: "stream_inv L N H out pf s" and e: "handle_event L N H T ev w s = Some (s', w')"
  shows "grows out w (calls_left ev s) w' (pipeline_calls (s_filter s'))"
proof -
  have f: "filter_ok L N H out pf (s_filter s)" using s by (simp add: stream_inv_def Let_def)
  have eval: "filter_grows out w (pipeline_calls (s_filter s)) w1 f1"
    if "evaluate_with L N H change w0 f0 = Some (f1, w1)" "grows out w K w0 K" "K = pipeline_calls (s_filter s)"
      "f0 = (s_filter s)\<lparr>kf_in_response_phase := b\<rparr>" "\<And>ctx. backend (change ctx) = backend ctx"
    for change w0 f0 f1 w1 b K
  proof -
    have "filter_ok L N H out pf f0" "pipeline_calls f0 = K"
      using f that by (simp_all add: filter_ok_def pipeline_calls_def)
    from evaluate_with_grows [OF T this(1) that(5,1)] this(2) that(2,3) show ?thesis by (auto intro: grows_trans)
  qed
  show ?thesis
  proof (cases ev)
    case Request_headers
    then obtain a f1 where h: "on_http_request_headers L N H T w (s_filter s) = Some (a, f1, w')" "\<not> s_started s"
      "s_filter s' = f1" using e by (auto split: if_splits)
    moreover from h(2) s have "kf_pipeline (s_filter s) = None" by (simp add: stream_inv_def Let_def)
    moreover have "kf_factory (s_filter s) = pf" using f by (simp add: filter_ok_def)
    ultimately show ?thesis using request_headers_grows [OF Tr _ T _ h(1)] ok Request_headers
      by (simp add: pipeline_calls_def)
  next
    case (Request_body n eos)
    with e show ?thesis
      using eval [OF _ grows_refl refl, of "set_current_request_body_buffer_size n eos" _ _ _ "kf_in_response_phase (s_filter s)"]
      by (auto simp: on_http_request_body_def set_current_request_body_buffer_size_def split: if_splits)
  next
    case Response_headers
    with e show ?thesis
      using eval [OF _ increment_world_grows [OF T] refl refl, of id]
      by (auto simp: on_http_response_headers_def split: if_splits)
  next
    case (Response_body n eos)
    with e show ?thesis
      using eval [OF _ grows_refl refl, of "set_current_response_body_buffer_size n eos" _ _ _ "kf_in_response_phase (s_filter s)"]
      by (auto simp: on_http_response_body_def set_current_response_body_buffer_size_def pipeline_calls_def split: if_splits)
  next
    case (Call_answered tok st n)
    with e answer_grows [OF T f] show ?thesis by (auto split: if_splits)
  qed
qed

section \<open>The root context forgets no call\<close>

lemma fetch_descriptors_calls:
  assumes "token_laws H out"
  shows "out (w_host w) \<subseteq> out (w_host (fetch_descriptors L H w))"
proof -
  have "out h \<subseteq> out h'" if "fetch_missing L H m h = (r, m', h')" for r m m' h h'
    using that assms by (auto simp: fetch_missing_def Let_def token_laws_def
        split: if_splits option.splits result.splits prod.splits dest: tracks_callsD(7,8))
  then show ?thesis by (auto simp: fetch_descriptors_def split: prod.split)
qed

lemma process_config_calls:
  assumes T: "token_laws H out" and p: "process_config L H T' config (r, w) = Some (b, r', w')"
  shows "out (w_host w) \<subseteq> out (w_host w')"
proof -
  have t: "out (w_host w2) = out (w_host w1)" if "set_tick_enabled H enable (r1, w1) = (r2, w2)" for enable r1 r2 w1 w2
    using that tracks_callsD(9) [of H out] T
    by (fastforce simp: set_tick_enabled_def token_laws_def split: if_splits prod.splits result.splits)
  have "out (w_host w) \<subseteq> out (w_host (configured_world L H config dm w))" for dm
    using fetch_descriptors_calls [OF T, of "w\<lparr>w_descriptors := set_descriptor_service (pc_descriptor_service config) dm\<rparr>" L]
    by (simp add: configured_world_def Let_def)
  moreover obtain f dm where f: "factory_try_from L T' (fr_next_addr r) config (w_descriptors w) = (f, dm)" by force
  ultimately show ?thesis
    using p process_config_accepted [OF p] t
    by (cases f) (fastforce simp: process_config_def Let_def split: result.splits)+
qed

lemma on_configure_calls:
  assumes T: "token_laws H out" and c: "on_configure L H T' pc (r, w) = Some (b, r', w')"
  shows "out (w_host w) \<subseteq> out (w_host w')"
proof -
  have i: "out (w_host (increment_world H m w)) = out (w_host w)" for m
    using increment_world_grows [OF T, of w "{}" m] T tracks_callsD(4) [of H out]
    by (simp add: increment_world_def metric_increment_def counter_inc_by_def token_laws_def split: counter.split option.split)
  have "out (w_host (increment_world H ''kuadrant.configs'' w)) \<subseteq> out (w_host w')"
    using c process_config_calls [OF T, where L = L]
    by (fastforce simp: on_configure_def Let_def split: result.splits option.splits)
  with i show ?thesis by simp
qed

text \<open>The factory a root context has: that of a configuration, or the first one, which is empty.\<close>

definition compiled :: "lib \<Rightarrow> 't trie_ops \<Rightarrow> 't pipeline_factory \<Rightarrow> bool" where
  "compiled L T pf = (pf = pipeline_factory_default T \<or> (\<exists>config services. factory_of L T config services = Some (Ok pf)))"

lemma compiled_ok:
  assumes "trie_laws T content" and "compiled L T pf"
  shows "factory_ok content pf"
proof -
  have "factory_ok content (pipeline_factory_default T)"
    using assms(1) by (simp add: factory_ok_def pipeline_factory_default_def trie_laws_def)
  with assms(2) factory_of_ok [OF assms(1)] show ?thesis by (auto simp: compiled_def)
qed

lemma on_configure_compiled:
  assumes "on_configure L H T pc (r, w) = Some (b, r', w')" and "compiled L T (fr_pipeline_factory r)"
  shows "compiled L T (fr_pipeline_factory r')"
proof -
  have "compiled L T (fr_pipeline_factory r')" if p: "process_config L H T config (r, w0) = Some (b, r', w')" for config w0
  proof -
    obtain f dm where f: "factory_try_from L T (fr_next_addr r) config (w_descriptors w0) = (f, dm)" by force
    then have c: "compiled L T pf" if "f = Some (Ok pf)" for pf
      using that by (auto simp: factory_try_from_def compiled_def split: prod.splits result.splits)
    show ?thesis
      using p f c assms(2) process_config_accepted [OF p] set_tick_enabled_facts(2)
      by (cases f) (fastforce simp: process_config_def Let_def split: result.splits)+
  qed
  with assms show ?thesis by (auto simp: on_configure_def Let_def split: result.splits option.splits)
qed

section \<open>Runs of the module\<close>

text \<open>The calls of all streams are in flight in the host state \<open>h\<close>, but for those in \<open>X\<close>.\<close>

definition calls_kept :: "('h \<Rightarrow> u32 set) \<Rightarrow> u32 set \<Rightarrow> 'h \<Rightarrow> ('h, 't) shim_module \<Rightarrow> bool" where
  "calls_kept out X h m = (\<forall>i s. m_streams m i = Some s \<longrightarrow> pipeline_calls (s_filter s) - X \<subseteq> out h)"

text \<open>Between two callbacks the proxy may do anything, as long as the calls that are not answered
  stay in flight.  An answer goes to the stream that made the call.\<close>

inductive module_step ::
  "lib \<Rightarrow> nom \<Rightarrow> 'h hostcalls \<Rightarrow> 't trie_ops \<Rightarrow> (bytes \<Rightarrow> (plugin_configuration, string) result) \<Rightarrow> ('h \<Rightarrow> u32 set)
     \<Rightarrow> ('h, 't) shim_module \<Rightarrow> ('h, 't) shim_module \<Rightarrow> bool"
  for L :: lib and N :: nom and H :: "'h hostcalls" and T :: "'t trie_ops"
    and parse_config :: "bytes \<Rightarrow> (plugin_configuration, string) result" and out :: "'h \<Rightarrow> u32 set"
where
  vm_start: "module_step L N H T parse_config out m (snd (on_vm_start m))"
| configure: "on_configure L H T parse_config (m_root m, m_world m) = Some (accepted, r, w) \<Longrightarrow>
    module_step L N H T parse_config out m (m\<lparr>m_root := r, m_world := w\<rparr>)"
| tick: "module_step L N H T parse_config out m (m\<lparr>m_world := on_tick L H (m_world m)\<rparr>)"
| root_answer: "module_step L N H T parse_config out m
    (m\<lparr>m_world := root_on_grpc_call_response L H tok st n (m_world m)\<rparr>)"
| create: "m_streams m i = None \<Longrightarrow> create_http_context H i (m_root m) (m_world m) = (f, w) \<Longrightarrow>
    module_step L N H T parse_config out m
      (m\<lparr>m_world := w, m_streams := (m_streams m)(i \<mapsto>
         \<lparr>s_filter = f, s_started = False, s_request_paused = False, s_response_paused = False, s_ended = False\<rparr>)\<rparr>)"
| callback: "m_streams m i = Some s \<Longrightarrow> \<forall>tok st n. ev \<noteq> Call_answered tok st n \<Longrightarrow>
    handle_event L N H T ev (m_world m) s = Some (s', w) \<Longrightarrow>
    module_step L N H T parse_config out m (m\<lparr>m_world := w, m_streams := (m_streams m)(i \<mapsto> s')\<rparr>)"
| answer: "m_streams m i = Some s \<Longrightarrow> calls_kept out {tok} h m \<Longrightarrow>
    handle_event L N H T (Call_answered tok st n) ((m_world m)\<lparr>w_host := h\<rparr>) s = Some (s', w) \<Longrightarrow>
    module_step L N H T parse_config out m (m\<lparr>m_world := w, m_streams := (m_streams m)(i \<mapsto> s')\<rparr>)"
| host: "calls_kept out {} h m \<Longrightarrow>
    module_step L N H T parse_config out m (m\<lparr>m_world := (m_world m)\<lparr>w_host := h\<rparr>\<rparr>)"
| delete: "module_step L N H T parse_config out m (m\<lparr>m_streams := (m_streams m)(i := None)\<rparr>)"

abbreviation module_run where
  "module_run L N H T parse_config out \<equiv> (module_step L N H T parse_config out)\<^sup>*\<^sup>*"

text \<open>The invariant: every stream is in a state that its own callbacks lead to, from a factory of
  the root context; its calls are in flight, and no other stream has one of them.\<close>

definition streams_ok ::
  "lib \<Rightarrow> nom \<Rightarrow> 'h hostcalls \<Rightarrow> 't trie_ops \<Rightarrow> ('h \<Rightarrow> u32 set) \<Rightarrow> (u32 \<rightharpoonup> ('h, 't) stream) \<Rightarrow> bool"
where
  "streams_ok L N H T out ss =
     (\<forall>i s. ss i = Some s \<longrightarrow> (\<exists>pf. compiled L T pf \<and> stream_run L N H T out (stream_new i pf) s))"

definition calls_disjoint :: "(u32 \<rightharpoonup> ('h, 't) stream) \<Rightarrow> bool" where
  "calls_disjoint ss = (\<forall>i j s t. ss i = Some s \<longrightarrow> ss j = Some t \<longrightarrow> i \<noteq> j \<longrightarrow>
     pipeline_calls (s_filter s) \<inter> pipeline_calls (s_filter t) = {})"

definition module_ok ::
  "lib \<Rightarrow> nom \<Rightarrow> 'h hostcalls \<Rightarrow> 't trie_ops \<Rightarrow> ('h \<Rightarrow> u32 set) \<Rightarrow> ('h, 't) shim_module \<Rightarrow> bool"
where
  "module_ok L N H T out m =
     (streams_ok L N H T out (m_streams m) \<and> calls_kept out {} (w_host (m_world m)) m \<and> calls_disjoint (m_streams m)
      \<and> compiled L T (fr_pipeline_factory (m_root m)))"

lemma calls_kept_mono: "calls_kept out X h m \<Longrightarrow> out h \<subseteq> out h' \<Longrightarrow> m_streams m' = m_streams m \<Longrightarrow> calls_kept out X h' m'"
  unfolding calls_kept_def by fastforce

text \<open>What a callback does to the invariant, with the calls \<open>X\<close> of its stream just answered.\<close>

lemma handle_event_ok:
  assumes Tr: "trie_laws T content" and TL: "token_laws H out" and ok: "module_ok L N H T out m"
    and s: "m_streams m i = Some s" and left: "calls_left ev s = pipeline_calls (s_filter s) - X"
    and X: "X \<subseteq> pipeline_calls (s_filter s)" and k: "calls_kept out X (w_host w) m"
    and e: "handle_event L N H T ev w s = Some (s', w')"
  shows "module_ok L N H T out (m\<lparr>m_world := w', m_streams := (m_streams m)(i \<mapsto> s')\<rparr>)
    \<and> w_descriptors w' = w_descriptors w \<and> w_filters w' = w_filters w"
proof -
  from ok s obtain pf where pf: "compiled L T pf" "stream_run L N H T out (stream_new i pf) s"
    by (auto simp: module_ok_def streams_ok_def)
  note fok = compiled_ok [OF Tr pf(1)]
  note inv = stream_run_inv [OF Tr fok TL pf(2) stream_new_inv]
  have g: "grows out w (pipeline_calls (s_filter s) - X) w' (pipeline_calls (s_filter s'))"
    using handle_event_grows [OF Tr fok TL inv e] left by simp
  have sub: "calls_left ev s \<subseteq> out (w_host w)" using k s left by (simp add: calls_kept_def)
  have "stream_run L N H T out (stream_new i pf) s'"
    using pf(2) handle_event_step [where out = out, OF e sub] by (rule rtranclp.rtrancl_into_rtrancl)
  with ok pf(1) have "streams_ok L N H T out ((m_streams m)(i \<mapsto> s'))" by (auto simp: module_ok_def streams_ok_def)
  moreover have other: "pipeline_calls (s_filter t) \<subseteq> out (w_host w)"
    "pipeline_calls (s_filter t) \<inter> pipeline_calls (s_filter s) = {}" if "m_streams m j = Some t" "j \<noteq> i" for j t
  proof -
    show d: "pipeline_calls (s_filter t) \<inter> pipeline_calls (s_filter s) = {}"
      using ok s that unfolding module_ok_def calls_disjoint_def by blast
    have "pipeline_calls (s_filter t) - X \<subseteq> out (w_host w)" using k that(1) unfolding calls_kept_def by blast
    with d X show "pipeline_calls (s_filter t) \<subseteq> out (w_host w)" by blast
  qed
  have "out (w_host w) \<subseteq> out (w_host w')" "pipeline_calls (s_filter s') \<subseteq> out (w_host w')"
    using g sub left unfolding grows_def by blast+
  with other(1) have "calls_kept out {} (w_host w') (m\<lparr>m_world := w', m_streams := (m_streams m)(i \<mapsto> s')\<rparr>)"
    unfolding calls_kept_def by (simp split: if_splits) blast
  moreover have "pipeline_calls (s_filter s') \<inter> pipeline_calls (s_filter t) = {}" if "m_streams m j = Some t" "j \<noteq> i" for j t
    using other [OF that] g unfolding grows_def by blast
  with ok have "calls_disjoint ((m_streams m)(i \<mapsto> s'))"
    unfolding module_ok_def calls_disjoint_def by (simp add: Int_commute)
  ultimately show ?thesis using ok g by (simp add: module_ok_def grows_def)
qed

lemma module_step_ok:
  fixes H :: "'h hostcalls" and T :: "'t trie_ops"
  assumes Tr: "trie_laws T content" and TL: "token_laws H out"
  shows "module_step L N H T pc out m m' \<Longrightarrow> module_ok L N H T out m \<Longrightarrow>
    module_ok L N H T out m' \<and> (root_step L H T pc)\<^sup>*\<^sup>* (m_root m, m_world m) (m_root m', m_world m')"
proof (induction rule: module_step.induct)
  case (vm_start m)
  then show ?case by (simp add: on_vm_start_def module_ok_def calls_kept_def)
next
  case (configure m accepted r w)
  have "calls_kept out {} (w_host w) (m\<lparr>m_root := r, m_world := w\<rparr>)"
    using configure on_configure_calls [OF TL configure(1)] by (auto simp: module_ok_def intro: calls_kept_mono)
  then show ?case
    using configure on_configure_compiled [OF configure(1)] root_step.configure [OF configure(1)]
    by (auto simp: module_ok_def)
next
  case (tick m)
  have "calls_kept out {} (w_host (on_tick L H (m_world m))) (m\<lparr>m_world := on_tick L H (m_world m)\<rparr>)"
    using tick fetch_descriptors_calls [OF TL, of "m_world m" L] calls_kept_mono [of out "{}" "w_host (m_world m)" m]
    by (simp add: module_ok_def on_tick_def)
  then show ?case using tick root_step.tick [of L H T pc "m_root m" "m_world m"] by (auto simp: module_ok_def)
next
  case (root_answer m tok st n)
  have "w_host (root_on_grpc_call_response L H tok st n (m_world m)) = w_host (m_world m)"
    by (auto simp: root_on_grpc_call_response_def handle_descriptor_response_def split: prod.split result.split option.split)
  then show ?case
    using root_answer root_step.answer [of L H T pc "m_root m" "m_world m" tok st n]
    by (auto simp: module_ok_def calls_kept_def)
next
  case (create m i f w)
  let ?s = "stream_new i (fr_pipeline_factory (m_root m)) :: ('h, 't) stream"
  have w: "w = snd (create_http_context H i (m_root m) (m_world m))" and f: "f = s_filter ?s"
    and h: "w_host w = w_host (m_world m)"
    using create(2) by (auto simp: create_http_context_def stream_new_def)
  have "pipeline_calls (s_filter ?s) = {}" by (simp add: stream_new_def kuadrant_filter_new_def pipeline_calls_def)
  moreover have "root_step L H T pc (m_root m, m_world m) (m_root m, w)" unfolding w by (rule root_step.stream)
  ultimately show ?case
    using create(3) f h by (auto simp: module_ok_def streams_ok_def calls_kept_def calls_disjoint_def stream_new_def)
next
  case (callback m i s ev s' w)
  have "calls_left ev s = pipeline_calls (s_filter s) - {}" using callback(2) by (cases ev) auto
  moreover have "calls_kept out {} (w_host (m_world m)) m" using callback(4) by (simp add: module_ok_def)
  ultimately show ?case
    using handle_event_ok [OF Tr TL callback(4,1) _ _ _ callback(3)] root_step.streams [of w "m_world m" L H T pc] by auto
next
  case (answer m i s tok h st n s' w)
  have "{tok} \<subseteq> pipeline_calls (s_filter s)" using answer(3) by (simp split: if_splits)
  then show ?case
    using handle_event_ok [OF Tr TL answer(4,1) _ _ _ answer(3), of "{tok}"] answer(2)
      root_step.streams [of w "m_world m" L H T pc] by auto
next
  case (host h m)
  then show ?case
    using root_step.streams [of "(m_world m)\<lparr>w_host := h\<rparr>" "m_world m" L H T pc] by (auto simp: module_ok_def calls_kept_def)
next
  case (delete m i)
  then show ?case by (auto simp: module_ok_def streams_ok_def calls_kept_def calls_disjoint_def)
qed

text \<open>What a run of the module from \<open>s\<^sub>0\<close>, a fresh root context and the first world, keeps.\<close>

definition module_inv ::
  "lib \<Rightarrow> nom \<Rightarrow> 'h hostcalls \<Rightarrow> 't trie_ops \<Rightarrow> (bytes \<Rightarrow> (plugin_configuration, string) result) \<Rightarrow> ('h \<Rightarrow> u32 set)
     \<Rightarrow> 't filter_root \<times> 'h world \<Rightarrow> ('h, 't) shim_module \<Rightarrow> bool"
where
  "module_inv L N H T pc out s\<^sub>0 m =
     (module_ok L N H T out m \<and> root_reachable L H T pc s\<^sub>0 (m_root m, m_world m)
      \<and> dm_ok (w_descriptors (m_world m)) \<and> handles_ok (w_filters (m_world m)))"

interpretation shim: progress_system "module_step L N H T pc out"
    "\<lambda>m. trie_laws T content \<and> token_laws H out \<and> module_inv L N H T pc out s\<^sub>0 m"
    "\<lambda>m m'. dm_forward (w_descriptors (m_world m)) (w_descriptors (m_world m'))"
  for L :: lib and N :: nom and H :: "'h hostcalls" and T :: "'t trie_ops"
    and pc :: "bytes \<Rightarrow> (plugin_configuration, string) result" and out :: "'h \<Rightarrow> u32 set"
    and content :: "'t \<Rightarrow> string \<Rightarrow> blueprint list option" and s\<^sub>0
proof
  fix m m'
  assume s: "module_step L N H T pc out m m'"
    and ok: "trie_laws T content \<and> token_laws H out \<and> module_inv L N H T pc out s\<^sub>0 m"
  then have k: "module_ok L N H T out m'" "(root_step L H T pc)\<^sup>*\<^sup>* (m_root m, m_world m) (m_root m', m_world m')"
    using module_step_ok [OF _ _ s] by (auto simp: module_inv_def)
  with root.run_progress [OF k(2)] ok
  show "(trie_laws T content \<and> token_laws H out \<and> module_inv L N H T pc out s\<^sub>0 m')
    \<and> dm_forward (w_descriptors (m_world m)) (w_descriptors (m_world m'))"
    by (auto simp: module_inv_def intro: rtranclp_trans)
qed (auto intro: dm_forward_trans)

lemma module_new_inv:
  assumes "w_descriptors w = descriptor_manager_default L" and "w_filters w = no_handles"
  shows "module_inv L N H T pc out (filter_root_new T i, w) (module_new T i w)"
  using assms dm_ok_default [of L]
  by (simp add: module_inv_def module_ok_def module_new_def start_def streams_ok_def calls_kept_def calls_disjoint_def
      compiled_def filter_root_new_def)

lemma module_run_inv:
  assumes "trie_laws T content" and "token_laws H out"
    and "w_descriptors w = descriptor_manager_default L" and "w_filters w = no_handles"
    and "module_run L N H T pc out (module_new T i w) m"
  shows "module_inv L N H T pc out (filter_root_new T i, w) m"
  using shim.run_progress [OF assms(5)] module_new_inv [OF assms(3,4)] assms(1,2) by blast

section \<open>Properties of the module\<close>

text \<open>C4: the module is the composition of its parts.  However the proxy interleaves the callbacks of
  the root context and of any number of streams over the world they share, the root context goes
  through a life of its own, in which the streams change neither descriptors nor filters, and each
  stream goes through callbacks of its own, with the factory of one configuration (the empty one
  before the first) and with its calls in flight: what holds of a single stream or of the root
  context holds in the module.\<close>

theorem module_refines_components:
  assumes "trie_laws T content" and "token_laws H in_flight"
    and "w_descriptors w\<^sub>0 = descriptor_manager_default L" and "w_filters w\<^sub>0 = no_handles"
    and "(module_step L N H T parse_config in_flight)\<^sup>*\<^sup>* (module_new T i w\<^sub>0) m"
  shows "(root_step L H T parse_config)\<^sup>*\<^sup>* (filter_root_new T i, w\<^sub>0) (m_root m, m_world m)
    \<and> (\<forall>j s. m_streams m j = Some s \<longrightarrow>
         (\<exists>pf. (pf = pipeline_factory_default T \<or> (\<exists>config services. factory_of L T config services = Some (Ok pf)))
            \<and> stream_run L N H T in_flight (stream_new j pf) s))"
  using module_run_inv [OF assms] by (simp add: module_inv_def module_ok_def streams_ok_def compiled_def)

text \<open>C5: streams do not get each other's answers.  However the callbacks of the streams and of the
  root context are interleaved, every call of a stream is in flight and belongs to no other stream,
  so that its answer comes and reaches the stream that made it; and a stream that is held back has
  such a call, unless its pipeline has ended the request or its response is held at its end.\<close>

theorem module_calls_isolated:
  assumes "trie_laws T content" and "token_laws H in_flight"
    and "w_descriptors w\<^sub>0 = descriptor_manager_default L" and "w_filters w\<^sub>0 = no_handles"
    and "(module_step L N H T parse_config in_flight)\<^sup>*\<^sup>* (module_new T i w\<^sub>0) m"
    and "m_streams m j = Some s"
  shows "pipeline_calls (s_filter s) \<subseteq> in_flight (w_host (m_world m))
    \<and> (\<forall>k t. m_streams m k = Some t \<and> k \<noteq> j \<longrightarrow> pipeline_calls (s_filter s) \<inter> pipeline_calls (s_filter t) = {})
    \<and> (s_request_paused s \<and> \<not> kf_in_response_phase (s_filter s) \<and> \<not> s_ended s \<longrightarrow> pipeline_calls (s_filter s) \<noteq> {})
    \<and> (s_response_paused s \<longrightarrow> pipeline_calls (s_filter s) \<noteq> {} \<or> kf_force_resume (s_filter s))"
proof -
  have ok: "module_ok L N H T in_flight m" using module_run_inv [OF assms(1-5)] by (simp add: module_inv_def)
  with assms(6) obtain pf where pf: "compiled L T pf" "stream_run L N H T in_flight (stream_new j pf) s"
    by (auto simp: module_ok_def streams_ok_def)
  from stream_run_inv [OF assms(1) compiled_ok [OF assms(1) pf(1)] assms(2) pf(2) stream_new_inv]
  have "stream_inv L N H in_flight pf s" .
  moreover have "pipeline_calls (s_filter s) \<subseteq> in_flight (w_host (m_world m))"
    using ok assms(6) by (simp add: module_ok_def calls_kept_def)
  moreover have "pipeline_calls (s_filter s) \<inter> pipeline_calls (s_filter t) = {}"
    if "m_streams m k = Some t" "k \<noteq> j" for k t
    using ok assms(6) that unfolding module_ok_def calls_disjoint_def by blast
  ultimately show ?thesis by (auto simp: stream_inv_def Let_def)
qed

text \<open>A configuration with one service and the action set of \<open>plain_config\<close>; two streams, of which the
  first has a pipeline.\<close>

definition site_config :: plugin_configuration where
  "site_config = web_config\<lparr>pc_services := [(''s'', \<lparr>sc_service_type = ST_Dynamic, sc_endpoint = ''c'',
     sc_failure_mode = Mode_Deny, sc_timeout = 20, sc_grpc_service = Some ''S'', sc_grpc_method = Some ''Check''\<rparr>)]\<rparr>"

abbreviation site_step ::
  "(bool, string \<Rightarrow> blueprint list option) shim_module \<Rightarrow> (bool, string \<Rightarrow> blueprint list option) shim_module \<Rightarrow> bool"
where
  "site_step \<equiv> module_step flow_lib nom_ref flow_host trie_ref (\<lambda>_. Ok site_config) flow_calls"

lemma factory_of_services: "factory_of L T (c\<lparr>pc_services := x\<rparr>) sv = factory_of L T c sv"
  by (simp add: factory_of_def factory_with_def split: option.split)

lemma site_configured:
  "\<exists>r w. on_configure flow_lib flow_host trie_ref (\<lambda>_. Ok site_config) (filter_root_new trie_ref 0, root_world) = Some (True, r, w)
     \<and> fr_pipeline_factory r = web_factory"
proof -
  have f: "\<exists>dm'. factory_try_from flow_lib trie_ref 0 site_config dm = (Some (Ok web_factory), dm')" for dm
  proof -
    have "factory_of flow_lib trie_ref site_config [(''s'', SI_Dynamic demo_service)] = Some (Ok web_factory)"
      using web_factory_of by (simp add: site_config_def factory_of_services)
    moreover have "\<exists>dm'. create_services 0 (pc_services site_config) dm = (Ok [(''s'', SI_Dynamic demo_service)], dm')"
      by (simp add: site_config_def from_config_def dynamic_service_new_def demo_service_def)
    ultimately show ?thesis by (auto simp: factory_try_from_def)
  qed
  let ?r = "filter_root_new trie_ref 0"
  have "\<exists>r w'. process_config flow_lib flow_host trie_ref site_config (?r, w) = Some (True, r, w')
     \<and> fr_pipeline_factory r = web_factory" for w
  proof -
    from f [of "w_descriptors w"] obtain dm' where
      "factory_try_from flow_lib trie_ref (fr_next_addr ?r) site_config (w_descriptors w) = (Some (Ok web_factory), dm')"
      by (auto simp: filter_root_new_def)
    moreover from this obtain r w' where p: "process_config flow_lib flow_host trie_ref site_config (?r, w) = Some (True, r, w')"
      by (auto simp: process_config_def Let_def) (metis prod.collapse)
    ultimately have "fr_pipeline_factory r = web_factory"
      using process_config_accepted [OF p] set_tick_enabled_facts(2) by fastforce
    with p show ?thesis by blast
  qed
  then show ?thesis by (auto simp: on_configure_def flow_host_def Let_def)
qed

lemma site_reached:
  "\<exists>m s. site_step\<^sup>*\<^sup>* (module_new trie_ref 0 root_world) m
     \<and> m_streams m 1 = Some s \<and> m_streams m 2 = Some (stream_new 2 web_factory) \<and> kf_pipeline (s_filter s) \<noteq> None"
proof -
  let ?m = "module_new trie_ref 0 root_world :: (bool, string \<Rightarrow> blueprint list option) shim_module"
  obtain r w where c: "on_configure flow_lib flow_host trie_ref (\<lambda>_. Ok site_config) (m_root ?m, m_world ?m) = Some (True, r, w)"
    and r: "fr_pipeline_factory r = web_factory"
    using site_configured by (auto simp: module_new_def start_def)
  let ?m1 = "?m\<lparr>m_root := r, m_world := w\<rparr>"
  have create: "\<exists>w'. site_step m (m\<lparr>m_world := w', m_streams := (m_streams m)(i \<mapsto> stream_new i web_factory)\<rparr>)"
    if "m_streams m i = None" "m_root m = r" for m i
    using module_step.create [OF that(1) surjective_pairing] that(2) r
    by (force simp: create_http_context_def stream_new_def)
  obtain w1 where "site_step ?m1 (?m1\<lparr>m_world := w1, m_streams := [1 \<mapsto> stream_new 1 web_factory]\<rparr>)"
    using create [of ?m1 1] by (auto simp: module_new_def)
  moreover let ?m2 = "?m1\<lparr>m_world := w1, m_streams := [1 \<mapsto> stream_new 1 web_factory]\<rparr>"
  obtain w2 where "site_step ?m2 (?m2\<lparr>m_world := w2,
      m_streams := [1 \<mapsto> stream_new 1 web_factory, 2 \<mapsto> stream_new 2 web_factory]\<rparr>)"
    using create [of ?m2 2] by auto
  moreover let ?m3 = "?m2\<lparr>m_world := w2, m_streams := [1 \<mapsto> stream_new 1 web_factory, 2 \<mapsto> stream_new 2 web_factory]\<rparr>"
  obtain a p' w3 where "on_http_request_headers flow_lib nom_ref flow_host trie_ref w2 (kuadrant_filter_new 1 web_factory) =
      Some (a, (kuadrant_filter_new 1 web_factory)\<lparr>kf_pipeline := Some p'\<rparr>, w3)"
    using web_request_headers [of w2 1] by blast
  then have "\<exists>s. handle_event flow_lib nom_ref flow_host trie_ref Request_headers (m_world ?m3) (stream_new 1 web_factory) = Some (s, w3)
      \<and> kf_pipeline (s_filter s) \<noteq> None"
    by (simp add: stream_new_def)
  then obtain s where h: "handle_event flow_lib nom_ref flow_host trie_ref Request_headers (m_world ?m3) (stream_new 1 web_factory)
      = Some (s, w3)" and p: "kf_pipeline (s_filter s) \<noteq> None" by blast
  have "site_step ?m3 (?m3\<lparr>m_world := w3, m_streams := (m_streams ?m3)(1 \<mapsto> s)\<rparr>)"
    by (rule module_step.callback [OF _ _ h]) simp_all
  moreover have "site_step ?m ?m1" using c by (rule module_step.configure)
  ultimately have "site_step\<^sup>*\<^sup>* ?m (?m3\<lparr>m_world := w3, m_streams := (m_streams ?m3)(1 \<mapsto> s)\<rparr>)"
    by (meson converse_rtranclp_into_rtranclp rtranclp.rtrancl_refl)
  with p show ?thesis by (intro exI [of _ "?m3\<lparr>m_world := w3, m_streams := (m_streams ?m3)(1 \<mapsto> s)\<rparr>"] exI [of _ s]) simp
qed

lemma root_world_initial: "w_descriptors root_world = descriptor_manager_default flow_lib" "w_filters root_world = no_handles"
  by (simp_all add: root_world_def flow_world_def)

theorem module_refines_components_witness:
  "\<exists>m s pf. site_step\<^sup>*\<^sup>* (module_new trie_ref 0 root_world) m \<and> m_streams m 1 = Some s
     \<and> kf_pipeline (s_filter s) \<noteq> None \<and> stream_run flow_lib nom_ref flow_host trie_ref flow_calls (stream_new 1 pf) s"
proof -
  obtain m s where m: "site_step\<^sup>*\<^sup>* (module_new trie_ref 0 root_world) m" "m_streams m 1 = Some s" "kf_pipeline (s_filter s) \<noteq> None"
    using site_reached by force
  with module_refines_components [OF trie_ref_laws flow_token_laws root_world_initial m(1)] show ?thesis by blast
qed

theorem module_calls_isolated_witness:
  "\<exists>m s t. site_step\<^sup>*\<^sup>* (module_new trie_ref 0 root_world) m \<and> m_streams m 1 = Some s \<and> m_streams m 2 = Some t
     \<and> kf_pipeline (s_filter s) \<noteq> None \<and> pipeline_calls (s_filter s) \<subseteq> flow_calls (w_host (m_world m))
     \<and> pipeline_calls (s_filter s) \<inter> pipeline_calls (s_filter t) = {}"
proof -
  obtain m s t where m: "site_step\<^sup>*\<^sup>* (module_new trie_ref 0 root_world) m" "m_streams m 1 = Some s" "m_streams m 2 = Some t"
    "kf_pipeline (s_filter s) \<noteq> None" using site_reached by force
  from module_calls_isolated [OF trie_ref_laws flow_token_laws root_world_initial m(1,2)] m(3)
  have "pipeline_calls (s_filter s) \<subseteq> flow_calls (w_host (m_world m))"
    "2 \<noteq> (1 :: u32) \<longrightarrow> pipeline_calls (s_filter s) \<inter> pipeline_calls (s_filter t) = {}" by blast+
  then have "pipeline_calls (s_filter s) \<subseteq> flow_calls (w_host (m_world m))"
    "pipeline_calls (s_filter s) \<inter> pipeline_calls (s_filter t) = {}" by simp_all
  with m show ?thesis by blast
qed

end
