(* ===== verification/Release.thy ===== *)
theory Release
  imports Http_Filter
begin

text \<open>
  How long a request is held back: the calls of its pipeline are answered one after the other, in
  any order and with any answer, until the filter of \<^verbatim>\<open>src/filter/kuadrant_filter.rs\<close> resumes the
  request or is left without a pipeline.
\<close>

text \<open>How a request stops being held.\<close>

datatype hold_end = Still_held | Released | Ended | Module_trapped

text \<open>An answer: the call, its status, the size of the response and the world in which it comes.\<close>

type_synonym 'h call_answer = "u32 \<times> u32 \<times> nat \<times> 'h world"

text \<open>At most \<open>k\<close> answers, each to a call that \<open>reply\<close> chooses.\<close>

fun answer_calls ::
  "lib \<Rightarrow> nom \<Rightarrow> 'h hostcalls \<Rightarrow> ('h pipeline \<Rightarrow> 'h call_answer) \<Rightarrow> nat \<Rightarrow> ('h, 't) kuadrant_filter \<Rightarrow> hold_end"
where
  "answer_calls L N H reply 0 f = Still_held"
| "answer_calls L N H reply (Suc k) f =
     (case kf_pipeline f of
        None \<Rightarrow> Ended
      | Some p \<Rightarrow>
          (case reply p of (tok, st, n, w) \<Rightarrow>
             (case on_grpc_call_response L N H tok st n w f of
                None \<Rightarrow> Module_trapped
              | Some (r, f', w') \<Rightarrow>
                  if r = Request_resumed then Released
                  else if kf_pipeline f' = None then Ended
                  else answer_calls L N H reply k f')))"

text \<open>Every call that a run of the pipeline has in flight is answered, while the others stay in
  flight.\<close>

definition answers_come ::
  "lib \<Rightarrow> nom \<Rightarrow> 'h hostcalls \<Rightarrow> ('h \<Rightarrow> u32 set) \<Rightarrow> 'h pipeline \<Rightarrow> ('h pipeline \<Rightarrow> 'h call_answer) \<Rightarrow> bool"
where
  "answers_come L N H out p\<^sub>0 reply \<longleftrightarrow>
     (\<forall>q evs. pipeline_run L N H out p\<^sub>0 evs q \<longrightarrow> deferred_tasks q \<noteq> [] \<longrightarrow>
        (case reply q of (tok, st, n, w) \<Rightarrow> tok \<in> call_tokens q \<and> delivered out tok w q))"

lemma pending_weight: "is_pending t \<Longrightarrow> id_weight UNIV t = 1"
  using pending_id [of t] by (auto simp: id_weight_def split: option.split)

lemma in_flight_weight:
  assumes "pipeline_inv out p" and "deferred_tasks p \<noteq> []"
  shows "0 < pipeline_weight UNIV p"
proof -
  obtain k t ds where d: "deferred_tasks p = (k, t) # ds" using assms(2) by (cases "deferred_tasks p") auto
  with assms(1) have "is_pending t" by (simp add: pipeline_inv_def)
  with pending_weight [of t] id_weight_le [of UNIV t] d show ?thesis by (simp add: pipeline_weight_def)
qed

text \<open>A request that is not resumed by an answer still has a call in flight, and less work.\<close>

lemma answer_leaves_less:
  assumes T: "token_laws H out" and inv: "pipeline_inv out p" and f: "kf_pipeline f = Some p"
    and phase: "\<not> kf_in_response_phase f"
    and tok: "tok \<in> call_tokens p" and w: "delivered out tok w p"
    and e: "on_grpc_call_response L N H tok st n w f = Some (r, f', w')"
    and r: "r \<noteq> Request_resumed" and p': "kf_pipeline f' = Some p'"
  shows "(\<exists>i. pipeline_step L N H out p (Answered tok i) p') \<and> deferred_tasks p' \<noteq> []
    \<and> pipeline_weight UNIV p' < pipeline_weight UNIV p"
proof -
  obtain t where t: "map_of (deferred_tasks p) tok = Some t" using tok by (auto dest: weak_map_of_SomeI)
  from e f p' have d: "digest L N H tok st n (set_world w p) = InProgress p'"
    and resume: "r = Request_resumed \<longleftrightarrow> should_resume p' f'" and f': "f' = f\<lparr>kf_pipeline := Some p'\<rparr>"
    using phase by (auto simp: on_grpc_call_response_def resume_stream_def Let_def split: pipeline_state.splits if_splits)
  have step: "pipeline_step L N H out p (Answered tok (task_id t)) p'" using t w d by (rule pipeline_step.response)
  have inv': "pipeline_inv out p'" using pipeline_step_inv [OF T step inv] by blast
  have "deferred_tasks p' \<noteq> []"
  proof (cases "terminated p'")
    case True
    with inv' digest_working [OF d] show ?thesis by (auto simp: pipeline_inv_def working_def)
  next
    case False
    with r resume phase f' have "requires_pause p'"
      by (auto simp: should_resume_def should_pause_def is_terminated_def split: if_splits)
    with requires_pause_guards [OF inv' False] show ?thesis by (auto simp: guards_def)
  qed
  moreover have "is_pending t" using inv map_of_SomeD [OF t] by (force simp: pipeline_inv_def)
  then have "id_weight UNIV t = 1" by (rule pending_weight)
  moreover have "deferred_tasks (set_world w p) = deferred_tasks p" by (simp add: set_world_def)
  then have "pipeline_weight UNIV p' + id_weight UNIV t \<le> pipeline_weight UNIV p"
    using digest_weight [of "set_world w p" tok t L N H st n p' UNIV] inv_shape [OF inv] t d
    by (simp only: set_world_weight)
  ultimately show ?thesis using step by auto
qed

lemma answers_release:
  assumes T: "token_laws H out" and p0: "fresh_pipeline p\<^sub>0" and reply: "answers_come L N H out p\<^sub>0 reply"
  shows "pipeline_run L N H out p\<^sub>0 evs p \<Longrightarrow> kf_pipeline f = Some p \<Longrightarrow> \<not> kf_in_response_phase f \<Longrightarrow>
    deferred_tasks p \<noteq> [] \<Longrightarrow> pipeline_weight UNIV p \<le> k \<Longrightarrow> answer_calls L N H reply k f \<noteq> Still_held"
proof (induction k arbitrary: evs p f)
  case (Suc k)
  obtain tok st n w where a: "reply p = (tok, st, n, w)" by (cases "reply p") auto
  have "case reply p of (tok, st, n, w) \<Rightarrow> tok \<in> call_tokens p \<and> delivered out tok w p"
    using reply [unfolded answers_come_def, rule_format, OF Suc.prems(1,4)] .
  with a have tok: "tok \<in> call_tokens p" "delivered out tok w p" by simp_all
  have inv: "pipeline_inv out p" using T p0 Suc.prems(1) by (rule pipeline_run_inv)
  show ?case
  proof (cases "on_grpc_call_response L N H tok st n w f")
    case (Some x)
    then obtain r f' w' where x: "on_grpc_call_response L N H tok st n w f = Some (r, f', w')" by (cases x) auto
    have phase: "\<not> kf_in_response_phase f'" using answer_fields [OF x] Suc.prems(3) by simp
    show ?thesis
    proof (cases "r = Request_resumed \<or> kf_pipeline f' = None")
      case False
      then obtain p' where p': "kf_pipeline f' = Some p'" and r: "r \<noteq> Request_resumed" by blast
      note l = answer_leaves_less [OF T inv Suc.prems(2,3) tok x r p']
      then obtain i where run: "pipeline_run L N H out p\<^sub>0 (evs @ [Answered tok i]) p'"
        using pipeline_run.step [OF Suc.prems(1)] by blast
      from l Suc.prems(5) have "pipeline_weight UNIV p' \<le> k" by simp
      from Suc.IH [OF run p' phase _ this] l Suc.prems(2) a x r p' show ?thesis by simp
    qed (use Suc.prems(2) a x in auto)
  qed (use Suc.prems(2) a in simp)
next
  case 0
  with in_flight_weight [OF pipeline_run_inv [OF T p0 0(1)]] show ?case by simp
qed

section \<open>Property\<close>


definition first_call :: "bool pipeline \<Rightarrow> bool call_answer" where
  "first_call q = (fst (hd (deferred_tasks q)), 0, 0, flow_world False)"

lemma first_call_comes:
  assumes "fresh_pipeline p\<^sub>0"
  shows "answers_come flow_lib nom_ref flow_host flow_calls p\<^sub>0 first_call"
  unfolding answers_come_def
proof (intro allI impI)
  fix q evs
  assume "pipeline_run flow_lib nom_ref flow_host flow_calls p\<^sub>0 evs q" and q: "deferred_tasks q \<noteq> []"
  then have "call_tokens q \<subseteq> flow_calls (ctx_host (p_ctx q))"
    using pipeline_run_inv [OF flow_token_laws assms] by (simp add: pipeline_inv_def)
  then have "call_tokens q \<subseteq> {7}" by (auto simp: flow_calls_def split: if_splits)
  with q show "case first_call q of (tok, st, n, w) \<Rightarrow> tok \<in> call_tokens q \<and> delivered flow_calls tok w q"
    by (cases "deferred_tasks q") (auto simp: first_call_def delivered_def)
qed


end
