(* ===== verification/Message_Types.thy ===== *)
theory Message_Types
  imports Converters
begin

text \<open>
  The types of the messages that \<^verbatim>\<open>src/services/dynamic/converters.rs\<close> builds.  The setter of the
  protobuf library may panic when a value does not fit its field; here is what fits, as the library
  documents it (\<^verbatim>\<open>Value::is_valid_for_field\<close>), and that what the converters set does.
\<close>

fun key_valid :: "proto_kind \<Rightarrow> map_key \<Rightarrow> bool" where
  "key_valid kind (MK_Bool _) = (kind = PK_Bool)"
| "key_valid kind (MK_I32 _) = (kind \<in> {PK_Int32, PK_Sint32, PK_Sfixed32})"
| "key_valid kind (MK_I64 _) = (kind \<in> {PK_Int64, PK_Sint64, PK_Sfixed64})"
| "key_valid kind (MK_U32 _) = (kind \<in> {PK_Uint32, PK_Fixed32})"
| "key_valid kind (MK_U64 _) = (kind \<in> {PK_Uint64, PK_Fixed64})"
| "key_valid kind (MK_String _) = (kind = PK_String)"

fun scalar_valid :: "proto_kind \<Rightarrow> proto_value \<Rightarrow> bool" where
  "scalar_valid kind (PBool _) = (kind = PK_Bool)"
| "scalar_valid kind (PI32 _) = (kind \<in> {PK_Int32, PK_Sint32, PK_Sfixed32})"
| "scalar_valid kind (PI64 _) = (kind \<in> {PK_Int64, PK_Sint64, PK_Sfixed64})"
| "scalar_valid kind (PU32 _) = (kind \<in> {PK_Uint32, PK_Fixed32})"
| "scalar_valid kind (PU64 _) = (kind \<in> {PK_Uint64, PK_Fixed64})"
| "scalar_valid kind (PF32 _) = (kind = PK_Float)"
| "scalar_valid kind (PF64 _) = (kind = PK_Double)"
| "scalar_valid kind (PString _) = (kind = PK_String)"
| "scalar_valid kind (PBytes _) = (kind = PK_Bytes)"
| "scalar_valid kind (PEnumNumber _) = (\<exists>e. kind = PK_Enum e)"
| "scalar_valid kind _ = False"

text \<open>Values of a kind, and values of a field, with all messages inside them; \<open>key_ok\<close> says which
  keys a map may have.\<close>

inductive valid_value :: "pool \<Rightarrow> (proto_kind \<Rightarrow> map_key \<Rightarrow> bool) \<Rightarrow> proto_kind \<Rightarrow> proto_value \<Rightarrow> bool"
  and valid_for_field :: "pool \<Rightarrow> (proto_kind \<Rightarrow> map_key \<Rightarrow> bool) \<Rightarrow> field_desc \<Rightarrow> proto_value \<Rightarrow> bool"
  for P :: pool and key_ok :: "proto_kind \<Rightarrow> map_key \<Rightarrow> bool"
where
  scalar: "scalar_valid kind v \<Longrightarrow> valid_value P key_ok kind v"
| message: "(\<And>x v. (x, v) \<in> set fs \<Longrightarrow>
      \<exists>f \<in> set (md_fields (desc_of P n)). fd_name f = x \<and> valid_for_field P key_ok f v) \<Longrightarrow>
    valid_value P key_ok (PK_Message n) (PMessage n fs)"
| map: "is_map_field P f \<Longrightarrow> fd_kind f = PK_Message e \<Longrightarrow>
    get_field_by_name P e ''key'' = Some kf \<Longrightarrow> get_field_by_name P e ''value'' = Some vf \<Longrightarrow>
    (\<And>k v. (k, v) \<in> set es \<Longrightarrow> key_ok (fd_kind kf) k \<and> valid_value P key_ok (fd_kind vf) v) \<Longrightarrow>
    valid_for_field P key_ok f (PMap es)"
| repeated: "\<not> is_map_field P f \<Longrightarrow> fd_repeated f \<Longrightarrow>
    (\<And>v. v \<in> set vs \<Longrightarrow> valid_value P key_ok (fd_kind f) v) \<Longrightarrow> valid_for_field P key_ok f (PList vs)"
| single: "\<not> is_map_field P f \<Longrightarrow> \<not> fd_repeated f \<Longrightarrow> valid_value P key_ok (fd_kind f) v \<Longrightarrow>
    valid_for_field P key_ok f v"

lemmas valid_intros = valid_value_valid_for_field.intros

inductive_simps valid_message_iff: "valid_value P key_ok kind (PMessage n fs)"
inductive_simps valid_map_iff: "valid_for_field P key_ok f (PMap es)"

text \<open>The keys the converters may set: those that fit, and booleans and strings in any map.\<close>

definition loose_key :: "proto_kind \<Rightarrow> map_key \<Rightarrow> bool" where
  "loose_key kind k = (key_valid kind k \<or> (\<exists>b. k = MK_Bool b) \<or> (\<exists>s. k = MK_String s))"

text \<open>The fields of the well-known timestamp message.\<close>

definition timestamp_fields_ok :: "pool \<Rightarrow> bool" where
  "timestamp_fields_ok P =
     (\<forall>f \<in> set (md_fields (desc_of P ''google.protobuf.Timestamp'')).
        \<not> fd_repeated f \<and> (fd_name f = ''seconds'' \<longrightarrow> fd_kind f = PK_Int64)
        \<and> (fd_name f = ''nanos'' \<longrightarrow> fd_kind f = PK_Int32))"

lemma cel_map_key_loose: "cel_map_key_to_proto k kf = Ok pk \<Longrightarrow> loose_key (fd_kind kf) pk"
  by (auto simp: cel_map_key_to_proto_def loose_key_def split: cel_key.splits if_splits)

lemma proto_map_entries_valid:
  assumes "proto_map_entries g kf vf m acc = Ok pm"
    and "\<And>x pv. x \<in> snd ` set m \<Longrightarrow> g x vf = Ok pv \<Longrightarrow> Q pv"
    and "\<And>k v. (k, v) \<in> set acc \<Longrightarrow> loose_key (fd_kind kf) k \<and> Q v"
    and "(k, v) \<in> set pm"
  shows "loose_key (fd_kind kf) k \<and> Q v"
  using assms
proof (induction g kf vf m acc rule: proto_map_entries.induct)
  case (2 g kf vf ck cv m acc)
  then obtain pk pv where pk: "cel_map_key_to_proto ck kf = Ok pk" and pv: "g cv vf = Ok pv"
    by (auto split: result.splits)
  have q: "Q pv" using 2(3) [of cv pv] pv by simp
  have r: "proto_map_entries g kf vf m (AList.update pk pv acc) = Ok pm" using 2(2) pk pv by simp
  show ?case
  proof (rule 2(1) [OF pk pv r _ _ 2(5)])
    show "Q pv'" if "x \<in> snd ` set m" "g x vf = Ok pv'" for x pv' using 2(3) that by auto
    show "loose_key (fd_kind kf) k \<and> Q v" if "(k, v) \<in> set (AList.update pk pv acc)" for k v
      using set_AList_update [OF that] q cel_map_key_loose [OF pk] 2(4) by auto
  qed
qed simp

lemma cel_val_to_proto_value_valid:
  assumes "cel_val_to_proto_value P g v f = Ok pv"
    and g: "\<And>x fx px. x \<in> set (sub_vals v) \<Longrightarrow> g x fx = Ok px \<Longrightarrow> valid_value P loose_key (fd_kind fx) px"
  shows "valid_for_field P loose_key f pv"
proof (cases "is_map_field P f")
  case True
  then have c: "cel_map_to_proto_map P g v f = Ok pv" using assms(1) by (simp add: cel_val_to_proto_value_def)
  then obtain m where v: "v = VMap m" by (cases v) (simp_all add: cel_map_to_proto_map_def)
  with c obtain e where e: "fd_kind f = PK_Message e" by (cases "fd_kind f") (simp_all add: cel_map_to_proto_map_def)
  with c v obtain kf vf pm where m: "v = VMap m" "fd_kind f = PK_Message e"
    "get_field_by_name P e ''key'' = Some kf" "get_field_by_name P e ''value'' = Some vf"
    "proto_map_entries g kf vf m [] = Ok pm" "pv = PMap pm"
    by (auto simp: cel_map_to_proto_map_def split: option.splits result.splits)
  have "valid_value P loose_key (fd_kind vf) px" if "x \<in> snd ` set m" "g x vf = Ok px" for x px
    using that m(1) by (intro g [of x vf px]) (simp_all add: sub_vals_def)
  then have "loose_key (fd_kind kf) k \<and> valid_value P loose_key (fd_kind vf) x" if "(k, x) \<in> set pm" for k x
    by (rule proto_map_entries_valid [OF m(5) _ _ that]) simp_all
  with True m show ?thesis by (auto intro: valid_intros(3))
next
  case False
  show ?thesis
  proof (cases "fd_repeated f")
    case True
    with False assms(1) obtain xs vs where xs: "v = VList xs" "collect_results (\<lambda>x. g x f) xs = Ok vs" "pv = PList vs"
      by (auto simp: cel_val_to_proto_value_def cel_list_to_proto_list_def split: cel_value.splits result.splits)
    have "valid_value P loose_key (fd_kind f) y" if "y \<in> set vs" for y
    proof -
      from that obtain i where i: "i < length vs" "y = vs ! i" by (auto simp: in_set_conv_nth)
      with collect_results_nth [OF xs(2)] collect_results_length [OF xs(2)] have "g (xs ! i) f = Ok y" "i < length xs" by auto
      with g [of "xs ! i" f y] xs(1) show ?thesis by (simp add: sub_vals_def)
    qed
    with True False xs(3) show ?thesis by (auto intro: valid_intros(4))
  next
    case single: False
    with False assms(1) have "g v f = Ok pv" by (simp add: cel_val_to_proto_value_def)
    with g [of v f pv] single False show ?thesis by (auto simp: sub_vals_def intro: valid_intros(5))
  qed
qed

lemma struct_fields_valid:
  assumes "struct_fields conv s ds acc = Ok msg"
    and "\<And>val f pv. val \<in> snd ` set s \<Longrightarrow> f \<in> set ds \<Longrightarrow> conv val f = Ok pv \<Longrightarrow> Q f pv"
    and "\<And>x v. (x, v) \<in> set acc \<Longrightarrow> \<exists>f \<in> D. fd_name f = x \<and> Q f v" and "set ds \<subseteq> D"
    and "(x, v) \<in> set msg"
  shows "\<exists>f \<in> D. fd_name f = x \<and> Q f v"
  using assms
proof (induction conv s ds acc rule: struct_fields.induct)
  case (2 conv s f ds acc)
  show ?case
  proof (cases "map_of s (fd_name f)")
    case None
    with 2 show ?thesis by simp
  next
    case (Some val)
    with 2(3) obtain pv where pv: "conv val f = Ok pv" by (auto split: result.splits)
    have "val \<in> snd ` set s" using map_of_SomeD [OF Some] by force
    with 2(4) pv have q: "Q f pv" by simp
    have r: "struct_fields conv s ds (AList.update (fd_name f) pv acc) = Ok msg" using 2(3) Some pv by simp
    show ?thesis
    proof (rule 2(2) [OF Some pv r _ _ _ 2(7)])
      show "\<exists>f' \<in> D. fd_name f' = x \<and> Q f' v" if "(x, v) \<in> set (AList.update (fd_name f) pv acc)" for x v
        using set_AList_update [OF that] q 2(5) [of x v] 2(6) by auto
    qed (use 2(4,6) in auto)
  qed
qed simp

lemma timestamp_message_valid:
  assumes "timestamp_fields_ok P" and "n = ''google.protobuf.Timestamp''" and "timestamp_message P n ts x = Ok pv"
  shows "valid_value P loose_key (PK_Message n) pv"
proof -
  from assms(3) obtain sf nf where f: "get_field_by_name P n ''seconds'' = Some sf" "get_field_by_name P n ''nanos'' = Some nf"
    and pv: "pv = PMessage n (AList.update (fd_name nf) (PI32 (word_of_int (ts mod 1000000000)))
        (AList.update (fd_name sf) (PI64 (word_of_int (ts div 1000000000))) []))"
    by (auto simp: timestamp_message_def split: option.splits)
  have found: "g \<in> set (md_fields (desc_of P n)) \<and> fd_name g = y" if "get_field_by_name P n y = Some g" for g y
    using that by (auto simp: get_field_by_name_def find_Some_iff)
  have kinds: "\<not> is_map_field P g" "\<not> fd_repeated g" if "g \<in> set (md_fields (desc_of P n))" for g
    using assms(1,2) that by (auto simp: timestamp_fields_ok_def is_map_field_def)
  have "fd_kind sf = PK_Int64" "fd_kind nf = PK_Int32"
    using assms(1,2) found [OF f(1)] found [OF f(2)] by (auto simp: timestamp_fields_ok_def)
  then have "valid_for_field P loose_key sf (PI64 a)" "valid_for_field P loose_key nf (PI32 b)" for a b
    using kinds found [OF f(1)] found [OF f(2)] by (auto intro!: valid_intros(5) valid_intros(1))
  then show ?thesis
    unfolding pv using found [OF f(1)] found [OF f(2)]
    by (intro valid_intros(2)) (auto dest!: set_AList_update)
qed

lemma single_proto_value_valid:
  assumes T: "timestamp_fields_ok P"
  shows "cel_val_to_single_proto_value L P v f = Ok pv \<Longrightarrow> valid_value P loose_key (fd_kind f) pv"
proof (induction "size v" arbitrary: v f pv rule: less_induct)
  case less
  show ?case
  proof (cases "\<exists>n. fd_kind f = PK_Message n")
    case True
    then obtain n where n: "fd_kind f = PK_Message n" by blast
    show ?thesis
    proof (cases v)
      case (VTimestamp ts)
      with less.prems n timestamp_message_valid [OF T, of n ts] show ?thesis
        by (auto simp: cel_val_to_single_proto_value.simps Let_def split: if_splits)
    next
      case (VStruct m s)
      with less.prems n obtain msg where
        msg: "struct_fields (\<lambda>val f. cel_val_to_proto_value P (cel_val_to_single_proto_value L P) val f)
          s (md_fields (desc_of P n)) [] = Ok msg" and pv: "pv = PMessage n msg"
        by (auto simp: cel_val_to_single_proto_value.simps [of L P "VStruct m s"] Let_def split: result.splits)
      have "valid_for_field P loose_key g px"
        if "val \<in> snd ` set s" "cel_val_to_proto_value P (cel_val_to_single_proto_value L P) val g = Ok px" for val g px
        using that(2)
      proof (rule cel_val_to_proto_value_valid)
        fix x fx py
        assume "x \<in> set (sub_vals val)" and e: "cel_val_to_single_proto_value L P x fx = Ok py"
        then have "size x < size v" using sub_vals_size [of x val] size_snd_list [OF that(1)] VStruct by simp
        from less.hyps [OF this e] show "valid_value P loose_key (fd_kind fx) py" .
      qed
      then have "\<exists>g \<in> set (md_fields (desc_of P n)). fd_name g = x \<and> valid_for_field P loose_key g y"
        if "(x, y) \<in> set msg" for x y
        using struct_fields_valid [OF msg, of "valid_for_field P loose_key" "set (md_fields (desc_of P n))"] that by auto
      then show ?thesis unfolding pv n by (rule valid_intros(2))
    qed (use less.prems n in \<open>simp_all add: cel_val_to_single_proto_value.simps Let_def\<close>)
  next
    case False
    have "scalar_valid (fd_kind f) pv"
      using less.prems False
      by (cases "fd_kind f"; cases v) (auto simp: cel_val_to_single_proto_value.simps Let_def split: if_splits)
    then show ?thesis by (rule valid_intros(1))
  qed
qed

section \<open>Property\<close>

definition tags_pool :: pool where
  "tags_pool =
     \<lparr>pool_messages =
        [(''M'', \<lparr>md_fields = [\<lparr>fd_name = ''tags'', fd_kind = PK_Message ''E'', fd_repeated = True,
            fd_optional = False, fd_oneof = False\<rparr>], md_map_entry = False\<rparr>),
         (''E'', \<lparr>md_fields = [\<lparr>fd_name = ''key'', fd_kind = PK_String, fd_repeated = False,
              fd_optional = False, fd_oneof = False\<rparr>,
            \<lparr>fd_name = ''value'', fd_kind = PK_String, fd_repeated = False,
              fd_optional = False, fd_oneof = False\<rparr>], md_map_entry = True\<rparr>)],
      pool_enums = [], pool_services = []\<rparr>"

definition tagged :: "cel_key \<Rightarrow> cel_value" where
  "tagged k = VStruct ''M'' [(''tags'', VMap [(k, VString ''v'')])]"

lemma tags_timestamp: "timestamp_fields_ok tags_pool"
  by (simp add: timestamp_fields_ok_def desc_of_def tags_pool_def)

lemma tagged_message:
  "cel_to_dynamic_message L tags_pool (tagged (KBool b)) ''M'' =
     Ok (PMessage ''M'' [(''tags'', PMap [(MK_Bool b, PString ''v'')])])"
  "cel_to_dynamic_message L tags_pool (tagged (KString t)) ''M'' =
     Ok (PMessage ''M'' [(''tags'', PMap [(MK_String t, PString ''v'')])])"
  by (simp_all add: tagged_def cel_to_dynamic_message_def struct_to_dynamic_message_def cel_val_to_proto_def
      cel_val_to_proto_value_def cel_map_to_proto_map_def cel_map_key_to_proto_def is_map_field_def
      get_field_by_name_def desc_of_def tags_pool_def cel_val_to_single_proto_value.simps)

lemma tagged_boolean_invalid:
  "\<not> valid_value tags_pool key_valid (PK_Message ''M'') (PMessage ''M'' [(''tags'', PMap [(MK_Bool b, v)])])"
  by (simp add: valid_message_iff valid_map_iff desc_of_def get_field_by_name_def is_map_field_def tags_pool_def)

text \<open>C28: a message built from a CEL value is well typed: every field that is set, at any depth, is
  set to a value of its kind, its elements if it is repeated and its values if it is a map included,
  so that the setters of the library do not panic; only the keys of a map may be of the
  wrong kind, if they are given as booleans or strings, and that exception is real: a boolean
  key goes into a map with string keys.\<close>

theorem converted_message_valid:
  assumes "timestamp_fields_ok P" and "cel_to_dynamic_message L P v n = Ok m"
  shows "valid_value P loose_key (PK_Message n) m
    \<and> (\<exists>P' v' n' m'. timestamp_fields_ok P' \<and> cel_to_dynamic_message L P' v' n' = Ok m'
         \<and> \<not> valid_value P' key_valid (PK_Message n') m')"
proof
  from assms(2) obtain k s msg where msg: "struct_fields (cel_val_to_proto L P) s (md_fields (desc_of P n)) [] = Ok msg"
    and m: "m = PMessage n msg"
    by (auto simp: cel_to_dynamic_message_def struct_to_dynamic_message_def split: cel_value.splits result.splits)
  have "valid_for_field P loose_key f pv" if "cel_val_to_proto L P val f = Ok pv" for val f pv
    using that single_proto_value_valid [OF assms(1)] unfolding cel_val_to_proto_def
    by (rule cel_val_to_proto_value_valid)
  then show "valid_value P loose_key (PK_Message n) m"
    unfolding m using struct_fields_valid [OF msg, of "valid_for_field P loose_key" "set (md_fields (desc_of P n))"]
    by (intro valid_intros(2)) auto
  show "\<exists>P' v' n' m'. timestamp_fields_ok P' \<and> cel_to_dynamic_message L P' v' n' = Ok m'
      \<and> \<not> valid_value P' key_valid (PK_Message n') m'"
    using tags_timestamp tagged_message(1) tagged_boolean_invalid by blast
qed

theorem converted_message_valid_witness:
  "\<exists>L m. cel_to_dynamic_message L tags_pool (tagged (KString ''k'')) ''M'' = Ok m
     \<and> valid_value tags_pool loose_key (PK_Message ''M'') m"
  using converted_message_valid [OF tags_timestamp tagged_message(2)] tagged_message(2) by blast

end
