(* ===== verification/Mock_Host.thy ===== *)
theory Mock_Host
  imports Host
begin

text \<open>
  \<^verbatim>\<open>src/kuadrant/resolver/mock.rs\<close>: the implementation of \<^verbatim>\<open>AttributeResolver\<close> that the program's unit
  tests run against, and where it agrees with \<^verbatim>\<open>ProxyWasmHost\<close>.  The hash maps behind mutexes are
  association lists with distinct keys; \<open>None\<close> is a panic (a failed \<^verbatim>\<open>assert!\<close>, or slices of
  different lengths).
\<close>

record mock_wasm_host =
  properties :: "(path \<times> bytes) list"
  maps :: "(string \<times> (string \<times> string) list) list"
  grpc_response :: "bytes option"
  pending_properties :: "path list"
  response_body :: "bytes option"

definition mock_new :: mock_wasm_host where
  "mock_new = \<lparr>properties = [], maps = [], grpc_response = None, pending_properties = [], response_body = None\<rparr>"

definition with_property :: "path \<Rightarrow> bytes \<Rightarrow> mock_wasm_host \<Rightarrow> mock_wasm_host" where
  "with_property p v m = m\<lparr>properties := AList.update p v (properties m)\<rparr>"

definition with_map :: "string \<Rightarrow> (string \<times> string) list \<Rightarrow> mock_wasm_host \<Rightarrow> mock_wasm_host" where
  "with_map map_name v m = m\<lparr>maps := AList.update map_name v (maps m)\<rparr>"

definition with_pending_property :: "path \<Rightarrow> mock_wasm_host \<Rightarrow> mock_wasm_host" where
  "with_pending_property p m = m\<lparr>pending_properties := pending_properties m @ [p]\<rparr>"

definition with_response_body :: "bytes \<Rightarrow> mock_wasm_host \<Rightarrow> mock_wasm_host" where
  "with_response_body bs m = m\<lparr>response_body := Some bs\<rparr>"

definition mock_get_property :: "path \<Rightarrow> mock_wasm_host \<Rightarrow> bytes option" where
  "mock_get_property p m = map_of (properties m) p"

definition mock_get_map :: "string \<Rightarrow> mock_wasm_host \<Rightarrow> (string \<times> string) list option" where
  "mock_get_map map_name m = map_of (maps m) map_name"

definition mock_get_attribute :: "path \<Rightarrow> mock_wasm_host \<Rightarrow> (bytes option, attribute_error) result" where
  "mock_get_attribute p m =
     (if p \<in> set (pending_properties m)
      then Err (NotAvailable (''Property '' @ path_display p @ '' is pending''))
      else Ok (mock_get_property p m))"

text \<open>The two map types of the model are the two the mock has a key for.\<close>

fun map_key :: "map_type \<Rightarrow> string" where
  "map_key HttpRequestHeaders = ''request.headers''"
| "map_key HttpResponseHeaders = ''response.headers''"

definition mock_get_attribute_map ::
  "map_type \<Rightarrow> mock_wasm_host \<Rightarrow> ((string \<times> string) list, attribute_error) result"
where
  "mock_get_attribute_map mt m =
     (case mock_get_map (map_key mt) m of
        Some v \<Rightarrow> Ok v
      | None \<Rightarrow> Err (Retrieval (''MockWasmHost does not have map: '' @ map_key mt)))"

definition mock_get_attribute_map_value ::
  "map_type \<Rightarrow> string \<Rightarrow> mock_wasm_host \<Rightarrow> (string option, attribute_error) result"
where
  "mock_get_attribute_map_value mt key m =
     bind_result (mock_get_attribute_map mt m) (\<lambda>v. Ok (map_option snd (find (\<lambda>(k, _). k = key) v)))"

definition mock_set_attribute ::
  "path \<Rightarrow> bytes \<Rightarrow> mock_wasm_host \<Rightarrow> ((unit, attribute_error) result \<times> mock_wasm_host) option"
where
  "mock_set_attribute p v m =
     (case tokens p of
        [token] \<Rightarrow>
          Some (Ok (), m\<lparr>properties := AList.update (Path [''filter_state'', ''wasm.'' @ token]) v (properties m)\<rparr>)
      | _ \<Rightarrow> None)"

definition mock_set_attribute_map ::
  "map_type \<Rightarrow> (string \<times> string) list \<Rightarrow> mock_wasm_host \<Rightarrow> (unit, attribute_error) result \<times> mock_wasm_host"
where
  "mock_set_attribute_map mt v m = (Ok (), m\<lparr>maps := AList.update (map_key mt) v (maps m)\<rparr>)"

definition mock_get_http_response_body ::
  "nat \<Rightarrow> nat \<Rightarrow> mock_wasm_host \<Rightarrow> (bytes option, attribute_error) result option"
where
  "mock_get_http_response_body start max_size m =
     (case response_body m of
        Some body \<Rightarrow>
          let buf_end_index = min (start + max_size) (length body);
              dst = replicate buf_end_index (CHR 0x00);
              src = take (buf_end_index - start) (drop start body)
          in if start \<le> buf_end_index \<and> length dst = length src then Some (Ok (Some src)) else None
      | None \<Rightarrow> Some (Ok None))"

definition mock_dispatch_grpc_call ::
  "string \<Rightarrow> string \<Rightarrow> string \<Rightarrow> (string \<times> bytes) list \<Rightarrow> bytes \<Rightarrow> nat \<Rightarrow> mock_wasm_host \<Rightarrow> (u32, service_error) result"
where
  "mock_dispatch_grpc_call upstream_name service_name method hs message timeout m = Ok 42"

definition mock_get_grpc_response :: "nat \<Rightarrow> mock_wasm_host \<Rightarrow> (bytes, service_error) result" where
  "mock_get_grpc_response response_size m =
     (case grpc_response m of Some r \<Rightarrow> Ok r | None \<Rightarrow> Err (Service_Retrieval ''No response available''))"

definition mock_send_http_reply ::
  "u32 \<Rightarrow> (string \<times> string) list \<Rightarrow> bytes option \<Rightarrow> mock_wasm_host \<Rightarrow> (unit, service_error) result"
where
  "mock_send_http_reply status_code hs body m = Ok ()"

section \<open>What the mock keeps\<close>

definition mock_ok :: "mock_wasm_host \<Rightarrow> bool" where
  "mock_ok m = (distinct (map fst (properties m)) \<and> distinct (map fst (maps m)))"

lemma mock_ok_operations:
  "mock_ok mock_new"
  "mock_ok m \<Longrightarrow> mock_ok (with_property p v m)" "mock_ok m \<Longrightarrow> mock_ok (with_map n w m)"
  "mock_ok m \<Longrightarrow> mock_ok (with_pending_property p m)" "mock_ok m \<Longrightarrow> mock_ok (with_response_body bs m)"
  "mock_ok m \<Longrightarrow> mock_set_attribute p v m = Some (r, m') \<Longrightarrow> mock_ok m'"
  "mock_ok m \<Longrightarrow> mock_set_attribute_map mt w m = (r, m') \<Longrightarrow> mock_ok m'"
  by (auto simp: mock_ok_def mock_new_def with_property_def with_map_def with_pending_property_def
      with_response_body_def mock_set_attribute_def mock_set_attribute_map_def distinct_update
      split: list.splits)

text \<open>A map that was set is read back whole and by key, and the other map is untouched.\<close>

lemma mock_map_roundtrip:
  assumes "mock_set_attribute_map mt v m = (r, m')"
  shows "mock_get_attribute_map mt m' = Ok v"
    "mock_get_attribute_map_value mt k m' = Ok (map_of v k)"
    "mt' \<noteq> mt \<Longrightarrow> mock_get_attribute_map mt' m' = mock_get_attribute_map mt' m"
proof -
  have "map_option snd (find (\<lambda>(x, _). x = k) v) = map_of v k" by (induction v) auto
  moreover have "map_key mt' \<noteq> map_key mt" if "mt' \<noteq> mt" using that by (cases mt; cases mt') auto
  ultimately show "mock_get_attribute_map mt m' = Ok v" "mock_get_attribute_map_value mt k m' = Ok (map_of v k)"
    "mt' \<noteq> mt \<Longrightarrow> mock_get_attribute_map mt' m' = mock_get_attribute_map mt' m"
    using assms by (auto simp: mock_set_attribute_map_def mock_get_attribute_map_def mock_get_attribute_map_value_def
        mock_get_map_def update_conv')
qed

text \<open>The attribute path \<open>ts\<close> is stored under the single token \<^verbatim>\<open>kuadrant.\<dots>\<close> and read through
  \<open>wasm_prop\<close>: the two conventions meet, unless the test has declared the property pending.\<close>

lemma mock_stored_attribute_readable:
  assumes ts: "\<forall>t \<in> set ts. backslash \<notin> set t \<and> dot \<notin> set t" and "ts \<noteq> []"
    and "wasm_prop ts \<notin> set (pending_properties m)"
  shows "\<exists>m'. mock_set_attribute (path_from (''kuadrant'' @ [backslash, dot] @ join [backslash, dot] ts)) v m = Some (Ok (), m')
    \<and> mock_get_attribute (wasm_prop ts) m' = Ok (Some v)"
proof -
  have "path_from (''kuadrant'' @ [backslash, dot] @ join [backslash, dot] ts) = Path [''kuadrant.'' @ join ''.'' ts]"
    using path_from_loop_join_escaped_dot [OF ts, of "''kuadrant.''" "[]"] by (simp add: path_from_def)
  with assms(3) wasm_prop_tokens [OF ts] show ?thesis
    by (simp add: mock_set_attribute_def mock_get_attribute_def mock_get_property_def update_conv')
qed

text \<open>The response body can only be read from its start: the destination is as long as the end of
  the range, not as the range, so any other start panics.\<close>

lemma mock_response_body_start:
  assumes "response_body m = Some body"
  shows "mock_get_http_response_body start max_size m =
    (if start = 0 then Some (Ok (Some (take max_size body))) else None)"
proof -
  let ?e = "min (start + max_size) (length body)"
  have "length (take (?e - start) (drop start body)) = ?e - start" by simp
  moreover have "take ?e body = take max_size body" if "start = 0" using that by (simp add: min_def)
  moreover have "start \<le> ?e \<and> ?e = ?e - start \<longleftrightarrow> start = 0" by linarith
  ultimately show ?thesis using assms unfolding mock_get_http_response_body_def Let_def
    by (simp only: option.simps length_replicate) simp
qed

text \<open>An empty map is available to a test and not available in the proxy.\<close>

lemma mock_empty_map_differs:
  "hc_get_map H mt h = Ok [] \<Longrightarrow> mock_get_map (map_key mt) m = Some [] \<Longrightarrow>
     mock_get_attribute_map mt m = Ok [] \<and> (\<exists>e. host_get_attribute_map H mt h = Err e)"
  by (simp add: mock_get_attribute_map_def host_get_attribute_map_def)

end
