(* ===== verification/Spec2Isabelle.thy ===== *)
theory Spec2Isabelle
  imports Shim_Module Release Message_Types Mock_Host
begin

text \<open>
  A verification library for the Kuadrant wasm-shim, a proxy-wasm filter written in Rust
  (\<^verbatim>\<open>src/src\<close> in the repository; paths below are relative to it).

  \<^bold>\<open>The program.\<close>  The proxy loads the module, hands it a configuration and calls it back for
  every HTTP stream.  The root context (\<^verbatim>\<open>filter/root_context.rs\<close>) compiles the configuration into a
  pipeline factory (\<^verbatim>\<open>kuadrant/pipeline/factory.rs\<close>): services, request data and, per host name,
  the blueprints of its action sets (\<^verbatim>\<open>pipeline/blueprint.rs\<close>).  A stream gets a filter
  (\<^verbatim>\<open>filter/kuadrant_filter.rs\<close>), which asks the factory for the pipeline of the request and evaluates
  it (\<^verbatim>\<open>pipeline/executor.rs\<close>) on every callback.  The tasks of a pipeline (\<^verbatim>\<open>pipeline/tasks/\<close>)
  evaluate CEL expressions over the request (\<^verbatim>\<open>data/cel.rs\<close>) and call gRPC services; a call is
  answered in a later callback, its reply is processed and may add tasks or end the request.  A barrier
  in the request context counts the guards in flight and decides whether the stream is held.
  Descriptors of services that are not built in are fetched by the descriptor manager
  (\<^verbatim>\<open>filter/descriptor_manager.rs\<close>) on the ticks of the root context.

  \<^bold>\<open>The theories, bottom up.\<close>

  \<^item> \<open>Shim_Prelude\<close>: results, byte strings and their UTF-8 characters, ordered and hash maps as
    association lists (locale \<open>finite_map\<close>), and the locale \<open>progress_system\<close> of a step relation
    that keeps an invariant and never takes back what it has reached.
  \<^item> \<open>Headers\<close>, \<open>Attribute\<close>, \<open>Host\<close>, \<open>Cache\<close>: \<^verbatim>\<open>data/headers.rs\<close> and \<^verbatim>\<open>data/grpc.rs\<close> (locale
    \<open>header_multimap\<close>), \<^verbatim>\<open>data/attribute.rs\<close>, \<^verbatim>\<open>kuadrant/resolver/wasm_host.rs\<close> with
    \<^verbatim>\<open>metrics/mod.rs\<close>, \<^verbatim>\<open>kuadrant/cache.rs\<close> (locale \<open>read_through\<close>).
    \<open>Mock_Host\<close>: the host the unit tests run against, \<^verbatim>\<open>kuadrant/resolver/mock.rs\<close>.
  \<^item> \<open>Observability\<close>, \<open>Span_Processor\<close>: \<^verbatim>\<open>tracing/mod.rs\<close> and \<^verbatim>\<open>tracing/log_layer.rs\<close>; \<^verbatim>\<open>tracing/processor.rs\<close> with
    \<^verbatim>\<open>tracing/propagation.rs\<close>.
  \<^item> \<open>Cel_Types\<close>, \<open>Cel_Strings\<close>, \<open>Cel_Eval\<close>: the data of CEL and protobuf and the analysis of an
    expression (\<^verbatim>\<open>data/cel.rs\<close>), the string functions (\<^verbatim>\<open>data/cel/strings.rs\<close>), evaluation with attributes,
    stored values and body fields.
  \<^item> \<open>Descriptors\<close>: \<^verbatim>\<open>filter/descriptor_manager.rs\<close>, with the life of a manager as \<open>dm_step\<close>.
  \<^item> \<open>Context\<close>: \<^verbatim>\<open>kuadrant/context.rs\<close>.  What contexts, services and the root context share is the record
    \<open>world\<close>.
  \<^item> \<open>Converters\<close>, \<open>Config\<close>, \<open>Services\<close>: \<^verbatim>\<open>services/dynamic/converters.rs\<close>
    (\<open>Message_Types\<close> has the types of the messages it builds);
    \<^verbatim>\<open>configuration.rs\<close> with \<^verbatim>\<open>configuration/legacy_translation.rs\<close>; \<^verbatim>\<open>services/\<close>.
  \<^item> \<open>Sse\<close>, \<open>Token_Usage\<close>: the event stream parser and the task that reads token usage from a response
    (\<^verbatim>\<open>pipeline/tasks/token_usage\<close>; locale \<open>extraction_strategy\<close>).
  \<^item> \<open>Tasks\<close>, \<open>Task_Effects\<close>: the tasks of \<^verbatim>\<open>pipeline/tasks/\<close>, and what applying one does to the barrier,
    the response slot and the calls in flight.
  \<^item> \<open>Executor\<close>, \<open>Pipeline_Runs\<close>: \<^verbatim>\<open>pipeline/executor.rs\<close>, its invariant, the runs of a pipeline
    (evaluations, answers, body parts, changes of the world) and their properties.  \<open>Example\<close> has the small
    library, host and pipelines that witnesses use.
  \<^item> \<open>Blueprint\<close>, \<open>Factory\<close>, \<open>Http_Filter\<close>, \<open>Root_Context\<close>: the files named above; the last two
    with the callbacks of a stream and of the root context as step relations.  \<open>Release\<close> answers the
    calls of a held request until it is let go.
  \<^item> \<open>Isolation\<close>, \<open>Shim_Module\<close>: the module as a whole.  \<open>start\<close> (\<^verbatim>\<open>lib.rs\<close>) and \<open>on_vm_start\<close> set it up; the
    step relation \<open>module_step\<close> interleaves the callbacks of the root context and of any number of
    streams over the one \<open>world\<close> they share.  \<open>Isolation\<close> shows of each callback that the calls a stream
    gains are ones no other stream has.

  \<^bold>\<open>State and errors.\<close>  A Rust struct is a record and an enum a datatype.  A method that changes what
  it is given returns it; a method that can fail returns \<open>result\<close> or its own error type.  Interior
  mutability and shared references are explicit: they are fields of the record \<open>world\<close>, passed
  along with the context.  A panic of the module is \<open>None\<close>, \<open>Trapped\<close> or \<open>No_return\<close>, so that theorems
  say where none happens.  Tokens, counters and CEL integers are words of the source's width; the
  barrier is a 32-bit counter and is shown not to wrap around.  Loops are recursive functions;
  the line parser's loop over a library's combinators is a \<open>partial_function\<close> into \<open>option\<close> that is
  shown to return.  No function takes fuel.

  \<^bold>\<open>Code outside the repository\<close> is a parameter, and what is relied on is a named hypothesis: the record
  \<open>lib\<close> (CEL parser and interpreter, protobuf and JSON encodings, OpenTelemetry's conversions, hashing, the
  Unicode letter table, what the build says of itself), the
  record \<open>hostcalls\<close> of the proxy's functions with \<open>token_laws\<close> (a call that is made gets a token
  that is not in use), \<open>nom\<close> with \<open>nom_laws\<close> (the parser combinators), \<open>trie_ops\<close> with \<open>trie_laws\<close>
  (the radix trie), and \<open>parse_config\<close>, the reader of a configuration.  Each set of laws is shown
  satisfiable by a reference instance (\<open>flow_token_laws\<close>, \<open>nom_laws_ref\<close>, \<open>trie_ref_laws\<close>), which the
  witnesses use.

  \<^bold>\<open>What is shown.\<close>

  \<^item> Pipelines: the barrier counts the guards in flight, so a request is held exactly while one is
    outstanding; calls are bounded, and in a configured pipeline each action is called at
    most once and only when those before it are completed; a terminated pipeline is inert; a failing call is treated as its failure mode
    says; a blocked task has no effect.
  \<^item> The module: its runs project onto lives of the root context and of each stream, so what is shown of
    one of these holds however their callbacks are interleaved; streams never share a call in flight,
    and a held stream has a call of its own to wait for.
  \<^item> Streams: an answer lets a request through exactly when it is
    not denied and no guard is in flight; if the calls are answered the hold ends after a bounded
    number of answers; the callbacks refine the runs of a pipeline.
  \<^item> Configuration: which action sets a host name selects, the uniqueness of action ids, the fields
    of the response body an action needs, the order of request data, what a configuration does to
    the root context, to descriptors and to the filters of spans and events; the CEL text written for a
    legacy rate limit action means what the action says (locale \<open>cel_logic\<close>: what is used of CEL's grammar).
  \<^item> Data: the parser of event streams equals a grammar, terminates and does not depend on
    chunks; conversions between CEL and protobuf round trip where they should and wrap where
    they do; evaluating an expression only reads; paths, escapes and string functions round trip.
  \<^item> Where the program does something its authors hardly meant, the behaviour is a theorem too: a gRPC
    action after one of another kind is never called, a response may be held for good, a task that
    waited for the body loses its failure mode, 32-bit fields truncate.

  \<^bold>\<open>Interfaces.\<close>  The five state machines (manager, pipeline, stream, root context, module) are instances of
  \<open>progress_system\<close>, from which their invariants over runs come; what a live pipeline keeps of its queue and of the
  completed actions comes from \<open>live_invariant\<close> (a task that waits for ever, actions in order); maps, headers, the
  cache and the extraction strategies are instances of the locales named above.

  \<^bold>\<open>Not modelled.\<close>  The derived deserialisers of the configuration (generated by \<^verbatim>\<open>serde\<close>; the
  hand-written one of timeouts is), \<^verbatim>\<open>record_error!\<close>, which only calls a logging library, the text of
  \<^verbatim>\<open>Debug\<close> output and the tests.  Log lines are dropped, among them the version the VM logs at its start.
  Mutexes are never contended, for the module has one thread.
\<close>

end
